(* ===== verification/Prelude.thy ===== *)
theory Prelude
  imports Main "HOL-Library.Word"
begin

text \<open>
  The prelude of the development: Rust's \<open>str\<close> operations on UTF-8 bytes (a \<open>string\<close> is
  the byte sequence of a Rust \<open>&str\<close>), unsigned decimal numbers, checked and saturating
  machine arithmetic, association lists standing for \<open>HashMap\<close>s, and the generic lemmas
  the component theories share.

  The collection \<open>str_eqs\<close> holds the characterisations of the string operations by append
  equations; \<open>canon\<close> holds the facts about canonical (lower case, no trailing dot) names.
\<close>

named_theorems str_eqs "string operations characterised by append equations"
named_theorems canon "facts about canonical domain names"

section \<open>Prefixes and suffixes\<close>

text \<open>\<open>str::strip_prefix\<close>, \<open>str::strip_suffix\<close>, \<open>starts_with\<close> and \<open>ends_with\<close>.\<close>

fun strip_prefix :: "'a list \<Rightarrow> 'a list \<Rightarrow> 'a list option" where
  "strip_prefix [] s = Some s"
| "strip_prefix (p # ps) [] = None"
| "strip_prefix (p # ps) (c # s) = (if p = c then strip_prefix ps s else None)"

definition strip_suffix :: "'a list \<Rightarrow> 'a list \<Rightarrow> 'a list option" where
  "strip_suffix p s = map_option rev (strip_prefix (rev p) (rev s))"

definition starts_with :: "'a list \<Rightarrow> 'a list \<Rightarrow> bool" where
  "starts_with p s = (strip_prefix p s \<noteq> None)"

definition ends_with :: "'a list \<Rightarrow> 'a list \<Rightarrow> bool" where
  "ends_with p s = (strip_suffix p s \<noteq> None)"

lemma strip_prefix_Some [str_eqs]: "strip_prefix p s = Some r \<longleftrightarrow> s = p @ r"
  by (induction p s rule: strip_prefix.induct) auto

lemma strip_prefix_append [simp]: "strip_prefix p (p @ r) = Some r"
  by (simp add: strip_prefix_Some)

lemma strip_prefix_None [str_eqs]: "strip_prefix p s = None \<longleftrightarrow> (\<forall>r. s \<noteq> p @ r)"
  by (metis not_Some_eq strip_prefix_Some)

lemma strip_suffix_Some [str_eqs]: "strip_suffix p s = Some r \<longleftrightarrow> s = r @ p"
proof -
  have "strip_suffix p s = Some r \<longleftrightarrow> rev s = rev p @ rev r"
    by (auto simp: strip_suffix_def strip_prefix_Some rev_swap)
  also have "\<dots> \<longleftrightarrow> s = r @ p"
    by (metis rev_append rev_rev_ident)
  finally show ?thesis .
qed

lemma strip_suffix_append [simp]: "strip_suffix p (r @ p) = Some r"
  by (simp add: strip_suffix_Some)

lemma strip_suffix_None [str_eqs]: "strip_suffix p s = None \<longleftrightarrow> (\<forall>r. s \<noteq> r @ p)"
  by (metis not_Some_eq strip_suffix_Some)

lemma starts_with_iff [str_eqs]: "starts_with p s \<longleftrightarrow> (\<exists>r. s = p @ r)"
  by (auto simp: starts_with_def strip_prefix_Some)

lemma ends_with_iff [str_eqs]: "ends_with p s \<longleftrightarrow> (\<exists>r. s = r @ p)"
  by (auto simp: ends_with_def strip_suffix_Some)

lemma ends_with_single: "ends_with [c] s \<longleftrightarrow> s \<noteq> [] \<and> last s = c"
  by (auto simp: ends_with_iff) (metis append_butlast_last_id)

section \<open>Searching and splitting\<close>

text \<open>\<open>str::find(char)\<close>, \<open>split(char)\<close> and \<open>split_once(char)\<close>.\<close>

fun find_char :: "'a \<Rightarrow> 'a list \<Rightarrow> nat option" where
  "find_char c [] = None"
| "find_char c (x # xs) = (if x = c then Some 0 else map_option Suc (find_char c xs))"

fun split_char :: "'a \<Rightarrow> 'a list \<Rightarrow> 'a list list" where
  "split_char c [] = [[]]"
| "split_char c (x # xs) =
     (if x = c then [] # split_char c xs
      else (case split_char c xs of [] \<Rightarrow> [[x]] | w # ws \<Rightarrow> (x # w) # ws))"

definition split_once :: "'a \<Rightarrow> 'a list \<Rightarrow> ('a list \<times> 'a list) option" where
  "split_once c s = map_option (\<lambda>i. (take i s, drop (Suc i) s)) (find_char c s)"

text \<open>\<open>str::lines\<close>: a carriage return belongs to the line ending only before a newline.\<close>

definition str_lines :: "string \<Rightarrow> string list" where
  "str_lines s =
     (let parts = split_char (CHR 0x0A) s in
      map (\<lambda>l. case strip_suffix [CHR 0x0D] l of Some x \<Rightarrow> x | None \<Rightarrow> l) (butlast parts) @
      (if last parts = [] then [] else [last parts]))"

lemma find_char_None [simp]: "find_char c s = None \<longleftrightarrow> c \<notin> set s"
  by (induction s) auto

lemma find_char_Some:
  "find_char c s = Some i \<longleftrightarrow> i < length s \<and> s ! i = c \<and> c \<notin> set (take i s)"
proof (induction s arbitrary: i)
  case Nil
  then show ?case by simp
next
  case (Cons x xs)
  then show ?case by (cases i) auto
qed

lemma find_char_length: "find_char c s = Some i \<Longrightarrow> i < length s"
  by (simp add: find_char_Some)

lemma find_char_split:
  "find_char c s = Some i \<Longrightarrow> s = take i s @ c # drop (Suc i) s"
  by (metis find_char_Some id_take_nth_drop)

lemma find_char_append: "c \<notin> set p \<Longrightarrow> find_char c (p @ c # r) = Some (length p)"
  by (simp add: find_char_Some)

lemma split_char_nonempty [simp]: "split_char c s \<noteq> []"
  by (induction s) (auto split: list.splits)

lemma split_char_none: "c \<notin> set s \<Longrightarrow> split_char c s = [s]"
  by (induction s) auto

lemma split_char_append: "c \<notin> set p \<Longrightarrow> split_char c (p @ c # r) = p # split_char c r"
  by (induction p) auto

text \<open>Two ways to cut one list: at a first occurrence, and at two suffixes.\<close>

lemma first_occurrence_cut:
  assumes "c \<notin> set x" and "x @ c # y = p @ c # r"
  shows "(p = x \<and> r = y) \<or> (\<exists>u. y = u @ c # r)"
  using assms
proof (induction x arbitrary: p)
  case Nil
  then show ?case by (cases p) auto
next
  case (Cons a x)
  then obtain p' where "p = a # p'" by (cases p) auto
  with Cons show ?case by auto
qed

lemma longer_suffix_cut:
  assumes "x @ a = q @ b" and "length a \<le> length b"
  obtains v where "x = q @ v" and "b = v @ a"
proof -
  from assms(1) consider us where "x = q @ us" "us @ a = b" | us where "x @ us = q" "a = us @ b"
    by (auto simp: append_eq_append_conv2)
  then show thesis
  proof cases
    case 1
    then show thesis using that by metis
  next
    case 2
    with assms(2) have "us = []" by simp
    with 2 show thesis using that by simp
  qed
qed

section \<open>ASCII classes and case folding\<close>

text \<open>Bytes are compared by their code, as Rust's \<open>u8\<close>/ASCII \<open>char\<close> predicates do.\<close>

definition code :: "char \<Rightarrow> nat" where
  "code c = of_char c"

definition is_ascii_uppercase :: "char \<Rightarrow> bool" where
  "is_ascii_uppercase c \<longleftrightarrow> 65 \<le> code c \<and> code c \<le> 90"

definition is_ascii_lowercase :: "char \<Rightarrow> bool" where
  "is_ascii_lowercase c \<longleftrightarrow> 97 \<le> code c \<and> code c \<le> 122"

definition is_ascii_digit :: "char \<Rightarrow> bool" where
  "is_ascii_digit c \<longleftrightarrow> 48 \<le> code c \<and> code c \<le> 57"

definition is_ascii_alphanumeric :: "char \<Rightarrow> bool" where
  "is_ascii_alphanumeric c \<longleftrightarrow> is_ascii_digit c \<or> is_ascii_uppercase c \<or> is_ascii_lowercase c"

definition ascii_lower :: "char \<Rightarrow> char" where
  "ascii_lower c = (if is_ascii_uppercase c then char_of (code c + 32) else c)"

definition ascii_upper :: "char \<Rightarrow> char" where
  "ascii_upper c = (if is_ascii_lowercase c then char_of (code c - 32) else c)"

abbreviation to_ascii_lowercase :: "string \<Rightarrow> string" where
  "to_ascii_lowercase s \<equiv> map ascii_lower s"

abbreviation to_ascii_uppercase :: "string \<Rightarrow> string" where
  "to_ascii_uppercase s \<equiv> map ascii_upper s"

definition eq_ignore_ascii_case :: "string \<Rightarrow> string \<Rightarrow> bool" where
  "eq_ignore_ascii_case a b = (to_ascii_lowercase a = to_ascii_lowercase b)"

lemma code_less [simp]: "code c < 256"
  by (simp add: code_def)

lemma code_char_of [simp]: "n < 256 \<Longrightarrow> code (char_of n) = n"
  by (simp add: code_def)

lemma code_inject [simp]: "code c = code d \<longleftrightarrow> c = d"
  by (simp add: code_def)

lemma char_of_code [simp]: "char_of (code c) = c"
  by (simp add: code_def)

lemma ascii_lower_upper [simp]: "ascii_lower (ascii_upper c) = ascii_lower c"
  by (auto simp: ascii_lower_def ascii_upper_def is_ascii_lowercase_def is_ascii_uppercase_def)

lemma ascii_lower_not_upper [simp]: "\<not> is_ascii_uppercase (ascii_lower c)"
  by (auto simp: ascii_lower_def is_ascii_uppercase_def)

lemma ascii_lower_id [simp]: "\<not> is_ascii_uppercase c \<Longrightarrow> ascii_lower c = c"
  by (simp add: ascii_lower_def)

lemma ascii_lower_idem [simp]: "ascii_lower (ascii_lower c) = ascii_lower c"
  by simp

lemma ascii_lower_alnum [simp]:
  "is_ascii_alphanumeric (ascii_lower c) = is_ascii_alphanumeric c"
  by (auto simp: is_ascii_alphanumeric_def ascii_lower_def is_ascii_uppercase_def
      is_ascii_lowercase_def is_ascii_digit_def)

lemma ascii_lower_eq_iff:
  assumes "\<not> is_ascii_lowercase d" and "\<not> is_ascii_uppercase d"
  shows "ascii_lower c = d \<longleftrightarrow> c = d"
proof (cases "is_ascii_uppercase c")
  case True
  then have "is_ascii_lowercase (ascii_lower c)"
    by (auto simp: ascii_lower_def is_ascii_uppercase_def is_ascii_lowercase_def)
  with True assms show ?thesis by auto
next
  case False
  then show ?thesis by simp
qed

lemma dot_not_alpha [simp]:
  "\<not> is_ascii_lowercase (CHR ''.'')" "\<not> is_ascii_uppercase (CHR ''.'')"
  "\<not> is_ascii_alphanumeric (CHR ''.'')"
  by (simp_all add: is_ascii_lowercase_def is_ascii_uppercase_def is_ascii_alphanumeric_def
      is_ascii_digit_def code_def)

lemma ascii_lower_dot [simp]: "ascii_lower c = CHR ''.'' \<longleftrightarrow> c = CHR ''.''"
  by (rule ascii_lower_eq_iff) simp_all

section \<open>Trimming\<close>

text \<open>
  \<open>trim_end_matches(char)\<close>, and \<open>trim\<close>/\<open>split_whitespace\<close> over the Unicode
  \<open>White_Space\<close> property: \<open>ws_seqs\<close> lists the UTF-8 encodings of its characters. On valid
  UTF-8 stripping one of these byte sequences is stripping one white-space character.
\<close>

definition trim_end_matches :: "'a \<Rightarrow> 'a list \<Rightarrow> 'a list" where
  "trim_end_matches c s = rev (dropWhile (\<lambda>x. x = c) (rev s))"

definition ws_seqs :: "string list" where
  "ws_seqs = map (map char_of)
     ([[9], [10], [11], [12], [13], [32], [0xC2, 0x85], [0xC2, 0xA0], [0xE1, 0x9A, 0x80],
       [0xE2, 0x80, 0x80], [0xE2, 0x80, 0x81], [0xE2, 0x80, 0x82], [0xE2, 0x80, 0x83],
       [0xE2, 0x80, 0x84], [0xE2, 0x80, 0x85], [0xE2, 0x80, 0x86], [0xE2, 0x80, 0x87],
       [0xE2, 0x80, 0x88], [0xE2, 0x80, 0x89], [0xE2, 0x80, 0x8A], [0xE2, 0x80, 0xA8],
       [0xE2, 0x80, 0xA9], [0xE2, 0x80, 0xAF], [0xE2, 0x81, 0x9F], [0xE3, 0x80, 0x80]] ::
       nat list list)"

fun strip_any :: "'a list list \<Rightarrow> 'a list \<Rightarrow> 'a list option" where
  "strip_any [] s = None"
| "strip_any (q # qs) s = (case strip_prefix q s of Some r \<Rightarrow> Some r | None \<Rightarrow> strip_any qs s)"

function trim_with :: "'a list list \<Rightarrow> 'a list \<Rightarrow> 'a list" where
  "trim_with qs s =
     (case strip_any qs s of None \<Rightarrow> s
      | Some r \<Rightarrow> if length r < length s then trim_with qs r else s)"
  by pat_completeness auto
termination
  by (relation "measure (\<lambda>(qs, s). length s)") auto

declare trim_with.simps [simp del]

definition trim :: "string \<Rightarrow> string" where
  "trim s = rev (trim_with (map rev ws_seqs) (rev (trim_with ws_seqs s)))"

function split_ws_aux :: "string \<Rightarrow> string \<Rightarrow> string list" where
  "split_ws_aux acc s =
     (case strip_any ws_seqs s of
        Some r \<Rightarrow> (if length r < length s
                   then (if acc = [] then [] else [acc]) @ split_ws_aux [] r else [])
      | None \<Rightarrow> (case s of [] \<Rightarrow> (if acc = [] then [] else [acc])
                 | c # cs \<Rightarrow> split_ws_aux (acc @ [c]) cs))"
  by pat_completeness auto
termination
  by (relation "measure (\<lambda>(acc, s). length s)") auto

declare split_ws_aux.simps [simp del]

definition split_whitespace :: "string \<Rightarrow> string list" where
  "split_whitespace s = split_ws_aux [] s"

lemma trim_end_matches_Nil [simp]: "trim_end_matches c [] = []"
  by (simp add: trim_end_matches_def)

lemma trim_end_matches_snoc [simp]:
  "trim_end_matches c (s @ [x]) = (if x = c then trim_end_matches c s else s @ [x])"
  by (simp add: trim_end_matches_def)

lemma trim_end_matches_last: "trim_end_matches c s \<noteq> [] \<Longrightarrow> last (trim_end_matches c s) \<noteq> c"
  by (induction s rule: rev_induct) auto

lemma trim_end_matches_id: "s = [] \<or> last s \<noteq> c \<Longrightarrow> trim_end_matches c s = s"
  by (induction s rule: rev_induct) auto

lemma trim_end_matches_fix:
  "trim_end_matches c s = s \<longleftrightarrow> s = [] \<or> last s \<noteq> c"
  by (metis trim_end_matches_id trim_end_matches_last)

lemma trim_end_matches_idem [simp]:
  "trim_end_matches c (trim_end_matches c s) = trim_end_matches c s"
  by (metis trim_end_matches_id trim_end_matches_last)

lemma trim_end_matches_decomp: "\<exists>n. s = trim_end_matches c s @ replicate n c"
proof (induction s rule: rev_induct)
  case Nil
  then show ?case by simp
next
  case (snoc x s)
  then obtain n where n: "s = trim_end_matches c s @ replicate n c" by blast
  show ?case
  proof (cases "x = c")
    case True
    have "s @ [x] = trim_end_matches c s @ replicate (Suc n) c"
      using n True by (metis append.assoc replicate_append_same replicate_Suc)
    with True show ?thesis by (metis trim_end_matches_snoc)
  next
    case False
    then show ?thesis by (intro exI [of _ 0]) simp
  qed
qed

lemma set_trim_end_matches: "set (trim_end_matches c s) \<subseteq> set s"
  by (metis trim_end_matches_decomp Un_upper1 set_append)

lemma trim_end_matches_map:
  assumes "\<And>x. f x = c \<longleftrightarrow> x = c"
  shows "trim_end_matches c (map f s) = map f (trim_end_matches c s)"
  using assms by (induction s rule: rev_induct) auto

section \<open>Arithmetic\<close>

lemma radix_eq_iff:
  fixes a k :: nat
  assumes "k < m" and "j < m"
  shows "a * m + k = c * m + j \<longleftrightarrow> a = c \<and> k = j"
proof
  assume e: "a * m + k = c * m + j"
  have "(a * m + k) div m = a" "(c * m + j) div m = c" using assms by simp_all
  with e have "a = c" by simp
  with e show "a = c \<and> k = j" by simp
qed simp

lemma div_eq_range_iff:
  fixes b m :: nat
  assumes "0 < m"
  shows "b div m = q \<longleftrightarrow> q * m \<le> b \<and> b < q * m + m"
proof
  assume "b div m = q"
  then show "q * m \<le> b \<and> b < q * m + m"
    using assms dividend_less_div_times [of m b] by (auto simp: algebra_simps)
next
  assume "q * m \<le> b \<and> b < q * m + m"
  then show "b div m = q" using assms by (intro div_nat_eqI) (simp_all add: algebra_simps)
qed

end
