(* ===== verification/Ip_Addr.thy ===== *)
theory Ip_Addr
  imports Prelude
begin

unbundle bit_operations_syntax

text \<open>
  IP addresses. The parsing and printing of \<open>std::net\<close> that the code relies on
  (\<open>"1.2.3.4".parse::<Ipv4Addr>()\<close>, \<open>parse::<IpAddr>()\<close>, \<open>to_string\<close>), unsigned integer parsing
  (\<open>parse::<u8>()\<close>), and the address classification of \<open>wardnet-common/src/net.rs\<close>.

  An \<open>Ipv4Addr\<close> is its 32-bit value, an \<open>Ipv6Addr\<close> its 128-bit value.
\<close>

type_synonym ipv4 = "32 word"
type_synonym ipv6 = "128 word"

datatype ip_addr = V4 ipv4 | V6 ipv6

definition octets :: "ipv4 \<Rightarrow> nat \<times> nat \<times> nat \<times> nat" where
  "octets ip = (unat ip div 2 ^ 24, unat ip div 2 ^ 16 mod 256, unat ip div 2 ^ 8 mod 256,
                unat ip mod 256)"

definition ipv4_new :: "nat \<Rightarrow> nat \<Rightarrow> nat \<Rightarrow> nat \<Rightarrow> ipv4" where
  "ipv4_new a b c d = word_of_nat (a * 2 ^ 24 + b * 2 ^ 16 + c * 2 ^ 8 + d)"

section \<open>Reading numbers and addresses\<close>

definition to_digit :: "nat \<Rightarrow> char \<Rightarrow> nat option" where
  "to_digit radix c =
     (let n = code c;
          v = (if 48 \<le> n \<and> n \<le> 57 then n - 48
               else if 97 \<le> n \<and> n \<le> 122 then n - 87
               else if 65 \<le> n \<and> n \<le> 90 then n - 55 else 99)
      in if v < radix then Some v else None)"

text \<open>
  \<open>Parser::read_number\<close>: \<open>lim\<close> is the largest value of the integer type, \<open>maxd\<close> the digit limit.
\<close>

fun read_digits :: "nat \<Rightarrow> nat \<Rightarrow> nat \<Rightarrow> nat \<Rightarrow> nat \<Rightarrow> string \<Rightarrow> (nat \<times> nat \<times> string) option" where
  "read_digits radix lim maxd cnt res [] = Some (res, cnt, [])"
| "read_digits radix lim maxd cnt res (c # cs) =
     (case to_digit radix c of
        None \<Rightarrow> Some (res, cnt, c # cs)
      | Some d \<Rightarrow> (let res' = res * radix + d in
                   if res' > lim then None
                   else if cnt + 1 > maxd then None
                   else read_digits radix lim maxd (cnt + 1) res' cs))"

definition read_number :: "nat \<Rightarrow> nat \<Rightarrow> nat \<Rightarrow> bool \<Rightarrow> string \<Rightarrow> (nat \<times> string) option" where
  "read_number radix lim maxd allow_zero_prefix s =
     (case read_digits radix lim maxd 0 0 s of
        None \<Rightarrow> None
      | Some (res, cnt, rest) \<Rightarrow>
          if cnt = 0 then None
          else if \<not> allow_zero_prefix \<and> starts_with ''0'' s \<and> cnt > 1 then None
          else Some (res, rest))"

definition read_separator ::
    "char \<Rightarrow> nat \<Rightarrow> (string \<Rightarrow> ('a \<times> string) option) \<Rightarrow> string \<Rightarrow> ('a \<times> string) option" where
  "read_separator sep i p s =
     (if i > 0 then (case strip_prefix [sep] s of None \<Rightarrow> None | Some r \<Rightarrow> p r) else p s)"

abbreviation read_octet :: "string \<Rightarrow> (nat \<times> string) option" where
  "read_octet \<equiv> read_number 10 255 3 False"

definition read_ipv4_addr :: "string \<Rightarrow> (ipv4 \<times> string) option" where
  "read_ipv4_addr s =
     (case read_separator (CHR ''.'') 0 read_octet s of None \<Rightarrow> None | Some (a, s1) \<Rightarrow>
      (case read_separator (CHR ''.'') 1 read_octet s1 of None \<Rightarrow> None | Some (b, s2) \<Rightarrow>
      (case read_separator (CHR ''.'') 2 read_octet s2 of None \<Rightarrow> None | Some (c, s3) \<Rightarrow>
      (case read_separator (CHR ''.'') 3 read_octet s3 of None \<Rightarrow> None | Some (d, s4) \<Rightarrow>
         Some (ipv4_new a b c d, s4)))))"

fun read_groups :: "nat \<Rightarrow> nat \<Rightarrow> string \<Rightarrow> nat list \<times> bool \<times> string" where
  "read_groups 0 i s = ([], False, s)"
| "read_groups (Suc k) i s =
     (case (if k \<ge> 1 then read_separator (CHR '':'') i read_ipv4_addr s else None) of
        Some (ip, r) \<Rightarrow> ([unat ip div 2 ^ 16, unat ip mod 2 ^ 16], True, r)
      | None \<Rightarrow>
          (case read_separator (CHR '':'') i (read_number 16 65535 4 True) s of
             None \<Rightarrow> ([], False, s)
           | Some (g, r) \<Rightarrow> (let (gs, v4, r') = read_groups k (Suc i) r in (g # gs, v4, r'))))"

definition ipv6_of_groups :: "nat list \<Rightarrow> ipv6" where
  "ipv6_of_groups gs = word_of_nat (foldl (\<lambda>acc g. acc * 2 ^ 16 + g) 0 gs)"

definition read_ipv6_addr :: "string \<Rightarrow> (ipv6 \<times> string) option" where
  "read_ipv6_addr s =
     (let (head, head_ipv4, s1) = read_groups 8 0 s in
      if length head = 8 then Some (ipv6_of_groups head, s1)
      else if head_ipv4 then None
      else (case strip_prefix ''::'' s1 of None \<Rightarrow> None | Some s2 \<Rightarrow>
        (let limit = 8 - (length head + 1); (tail, _, s3) = read_groups limit 0 s2 in
         Some (ipv6_of_groups (head @ replicate (8 - length head - length tail) 0 @ tail), s3))))"

definition parse_ipv4 :: "string \<Rightarrow> ipv4 option" where
  "parse_ipv4 s = (case read_ipv4_addr s of Some (ip, []) \<Rightarrow> Some ip | _ \<Rightarrow> None)"

definition parse_ip :: "string \<Rightarrow> ip_addr option" where
  "parse_ip s =
     (case (case read_ipv4_addr s of
              Some (ip, r) \<Rightarrow> Some (V4 ip, r)
            | None \<Rightarrow> map_option (\<lambda>(ip, r). (V6 ip, r)) (read_ipv6_addr s)) of
        Some (ip, []) \<Rightarrow> Some ip
      | _ \<Rightarrow> None)"

text \<open>
  \<open>str::parse\<close> for an unsigned integer type with largest value \<open>lim\<close>: an optional \<open>+\<close>, then
  at least one decimal digit, with a checked overflow.
\<close>

fun parse_digits :: "nat \<Rightarrow> nat \<Rightarrow> string \<Rightarrow> nat option" where
  "parse_digits lim acc [] = Some acc"
| "parse_digits lim acc (c # cs) =
     (case to_digit 10 c of
        None \<Rightarrow> None
      | Some d \<Rightarrow> (let acc' = acc * 10 + d in if acc' > lim then None else parse_digits lim acc' cs))"

definition parse_uint :: "nat \<Rightarrow> string \<Rightarrow> nat option" where
  "parse_uint lim s =
     (let ds = (case strip_prefix ''+'' s of Some r \<Rightarrow> r | None \<Rightarrow> s)
      in if ds = [] then None else parse_digits lim 0 ds)"

section \<open>Printing\<close>

definition digit_char :: "nat \<Rightarrow> char" where
  "digit_char d = char_of (48 + d)"

fun show_nat :: "nat \<Rightarrow> string" where
  "show_nat n = (if n < 10 then [digit_char n] else show_nat (n div 10) @ [digit_char (n mod 10)])"

declare show_nat.simps [simp del]

definition ipv4_to_string :: "ipv4 \<Rightarrow> string" where
  "ipv4_to_string ip =
     (case octets ip of (a, b, c, d) \<Rightarrow>
        show_nat a @ ''.'' @ show_nat b @ ''.'' @ show_nat c @ ''.'' @ show_nat d)"

subsection \<open>Reading what was printed\<close>

lemma to_digit_digit_char [simp]: "d < 10 \<Longrightarrow> to_digit 10 (digit_char d) = Some d"
  by (auto simp: to_digit_def digit_char_def Let_def)

lemma show_nat_nonempty [simp]: "show_nat n \<noteq> []"
  by (subst show_nat.simps) simp

lemma length_show_nat: "n < 10 ^ k \<Longrightarrow> 0 < k \<Longrightarrow> length (show_nat n) \<le> k"
proof (induction n arbitrary: k rule: show_nat.induct)
  case (1 n)
  show ?case
  proof (cases "n < 10")
    case True
    with "1.prems" show ?thesis by (subst show_nat.simps) simp
  next
    case False
    with "1.prems" obtain j where j: "k = Suc j" "0 < j" by (cases k; cases "k - 1") auto
    with "1.prems" have "n div 10 < 10 ^ j" by (simp add: less_mult_imp_div_less mult.commute)
    with "1.IH" False j have "length (show_nat (n div 10)) \<le> j" by blast
    with False j show ?thesis by (subst show_nat.simps) simp
  qed
qed

lemma show_nat_hd_zero: "hd (show_nat n) = CHR ''0'' \<longleftrightarrow> n = 0"
proof (induction n rule: show_nat.induct)
  case (1 n)
  have z: "digit_char d = CHR ''0'' \<longleftrightarrow> d = 0" if "d < 10" for d
  proof -
    have "digit_char d = CHR ''0'' \<longleftrightarrow> code (digit_char d) = code (CHR ''0'')" by simp
    also have "\<dots> \<longleftrightarrow> d = 0" using that by (simp add: digit_char_def code_def)
    finally show ?thesis .
  qed
  show ?case
  proof (cases "n < 10")
    case True
    then show ?thesis by (subst show_nat.simps) (simp add: z)
  next
    case False
    then have "hd (show_nat n) = hd (show_nat (n div 10))"
      by (subst show_nat.simps) simp
    with False "1.IH" show ?thesis by auto
  qed
qed

definition digit_free :: "nat \<Rightarrow> string \<Rightarrow> bool" where
  "digit_free radix s \<longleftrightarrow> s = [] \<or> to_digit radix (hd s) = None"

lemma read_digits_stop: "digit_free radix s \<Longrightarrow> read_digits radix lim maxd cnt res s = Some (res, cnt, s)"
  by (cases s) (auto simp: digit_free_def)

lemma read_digits_show_nat:
  assumes "res * 10 ^ length (show_nat n) + n \<le> lim"
    and "cnt + length (show_nat n) \<le> maxd"
  shows "read_digits 10 lim maxd cnt res (show_nat n @ rest) =
    read_digits 10 lim maxd (cnt + length (show_nat n))
      (res * 10 ^ length (show_nat n) + n) rest"
  using assms
proof (induction n arbitrary: rest rule: show_nat.induct)
  case (1 n)
  show ?case
  proof (cases "n < 10")
    case True
    with "1.prems" show ?thesis by (simp add: show_nat.simps [of n])
  next
    case False
    let ?m = "n div 10" and ?d = "n mod 10"
    let ?l = "length (show_nat ?m)"
    have sn: "show_nat n = show_nat ?m @ [digit_char ?d]"
      using False by (subst show_nat.simps) simp
    have val: "(res * 10 ^ ?l + ?m) * 10 + ?d = res * 10 ^ length (show_nat n) + n"
      unfolding sn by (simp add: algebra_simps)
    have ih: "res * 10 ^ ?l + ?m \<le> lim" "cnt + ?l \<le> maxd"
      using "1.prems" val sn by simp_all
    have "read_digits 10 lim maxd cnt res (show_nat n @ rest)
        = read_digits 10 lim maxd (cnt + ?l) (res * 10 ^ ?l + ?m) (digit_char ?d # rest)"
      using "1.IH" [OF False ih] sn by simp
    also have "\<dots> = read_digits 10 lim maxd (cnt + length (show_nat n))
        (res * 10 ^ length (show_nat n) + n) rest"
      using "1.prems" sn by (simp add: Let_def algebra_simps)
    finally show ?thesis .
  qed
qed

lemma read_octet_show:
  assumes "n < 256" and "digit_free 10 rest"
  shows "read_octet (show_nat n @ rest) = Some (n, rest)"
proof -
  have len: "length (show_nat n) \<le> 3" using assms(1) by (intro length_show_nat) simp_all
  have "read_digits 10 255 3 0 0 (show_nat n @ rest) = Some (n, length (show_nat n), rest)"
    using read_digits_show_nat [of 0 n 255 0 3 rest] read_digits_stop [OF assms(2)] assms(1) len
    by simp
  moreover have "\<not> (starts_with ''0'' (show_nat n @ rest) \<and> length (show_nat n) > 1)"
  proof
    assume a: "starts_with ''0'' (show_nat n @ rest) \<and> length (show_nat n) > 1"
    then have "hd (show_nat n) = CHR ''0''"
      by (cases "show_nat n") (auto simp: starts_with_iff)
    then have "n = 0" by (simp add: show_nat_hd_zero)
    with a show False by (simp add: show_nat.simps)
  qed
  ultimately show ?thesis by (simp add: read_number_def)
qed

lemma digit_free_dot [simp]: "digit_free 10 (CHR ''.'' # s)" "digit_free 10 []"
  by (simp_all add: digit_free_def to_digit_def code_def)

lemma octets_alt:
  "octets ip = (unat ip div 256 div 256 div 256, unat ip div 256 div 256 mod 256,
     unat ip div 256 mod 256, unat ip mod 256)"
  by (simp add: octets_def div_mult2_eq [symmetric])

lemma octets_bounds:
  assumes "octets ip = (a, b, c, d)"
  shows "a < 256" "b < 256" "c < 256" "d < 256"
proof -
  have "unat ip < 256 * (2 ^ 24)" using unsigned_less [of ip, where 'a = nat] by simp
  then have "unat ip div 2 ^ 24 < 256" by (rule less_mult_imp_div_less)
  with assms show "a < 256" "b < 256" "c < 256" "d < 256" by (auto simp: octets_def)
qed

lemma octets_value:
  assumes "octets ip = (a, b, c, d)"
  shows "a * 2 ^ 24 + b * 2 ^ 16 + c * 2 ^ 8 + d = unat ip"
proof -
  define n where "n = unat ip"
  define q1 q2 where "q1 = n div 256" and "q2 = q1 div 256"
  from assms have "a = q2 div 256" "b = q2 mod 256" "c = q1 mod 256" "d = n mod 256"
    by (simp_all add: octets_alt n_def q1_def q2_def)
  then have "q2 = 256 * a + b" "q1 = 256 * q2 + c" "n = 256 * q1 + d"
    by (simp_all add: q2_def q1_def)
  then show ?thesis by (simp add: n_def)
qed

lemma ipv4_new_octets: "octets ip = (a, b, c, d) \<Longrightarrow> ipv4_new a b c d = ip"
  unfolding ipv4_new_def by (simp only: octets_value of_nat_unat unsigned_word_eqI ucast_id)

theorem parse_ipv4_to_string: "parse_ipv4 (ipv4_to_string ip) = Some ip"
proof -
  obtain a b c d where o: "octets ip = (a, b, c, d)" by (cases "octets ip") auto
  note bs = octets_bounds [OF o]
  have d: "read_octet (show_nat d) = Some (d, [])"
    using read_octet_show [OF bs(4), of "[]"] by simp
  show ?thesis
    using bs by (simp add: parse_ipv4_def read_ipv4_addr_def ipv4_to_string_def o
        read_separator_def read_octet_show d ipv4_new_octets)
qed

lemma parse_ip_V4: "parse_ipv4 s = Some ip \<Longrightarrow> parse_ip s = Some (V4 ip)"
  by (auto simp: parse_ipv4_def parse_ip_def split: option.splits list.splits prod.splits)

section \<open>Printed numbers read back\<close>

lemma code_digit: "n < 10 \<Longrightarrow> code (digit_char n) = 48 + n"
  by (simp add: digit_char_def)

lemma show_nat_digits: "c \<in> set (show_nat n) \<Longrightarrow> 48 \<le> code c \<and> code c \<le> 57"
proof (induction n rule: show_nat.induct)
  case (1 n)
  show ?case
  proof (cases "n < 10")
    case True
    with "1.prems" show ?thesis by (subst (asm) show_nat.simps) (auto simp: code_digit)
  next
    case False
    with "1.prems" consider "c \<in> set (show_nat (n div 10))" | "c = digit_char (n mod 10)"
      by (subst (asm) show_nat.simps) auto
    then show ?thesis using "1.IH" [OF False] by cases (simp_all add: code_digit)
  qed
qed

lemma show_nat_no_dot: "CHR ''.'' \<notin> set (show_nat n)"
proof
  assume "CHR ''.'' \<in> set (show_nat n)"
  from show_nat_digits [OF this] show False by (simp add: code_def)
qed

lemma parse_digits_show_nat:
  assumes "acc * 10 ^ length (show_nat n) + n \<le> lim"
  shows "parse_digits lim acc (show_nat n @ rest) = parse_digits lim (acc * 10 ^ length (show_nat n) + n) rest"
  using assms
proof (induction n arbitrary: rest rule: show_nat.induct)
  case (1 n)
  show ?case
  proof (cases "n < 10")
    case True
    with "1.prems" show ?thesis by (simp add: show_nat.simps [of n])
  next
    case False
    have sn: "show_nat n = show_nat (n div 10) @ [digit_char (n mod 10)]"
      using False by (subst show_nat.simps) simp
    have val: "(acc * 10 ^ length (show_nat (n div 10)) + n div 10) * 10 + n mod 10 = acc * 10 ^ length (show_nat n) + n"
      unfolding sn by (simp add: algebra_simps)
    have "x \<le> lim" if "x * 10 + m = y" "y \<le> lim" for x m y :: nat using that by linarith
    from this [OF val "1.prems"] have "acc * 10 ^ length (show_nat (n div 10)) + n div 10 \<le> lim" .
    from "1.IH" [OF False this] "1.prems" show ?thesis
      by (simp add: sn Let_def algebra_simps)
  qed
qed

lemma parse_uint_show_nat: "n \<le> lim \<Longrightarrow> parse_uint lim (show_nat n) = Some n"
proof -
  assume "n \<le> lim"
  have "strip_prefix ''+'' (show_nat n) = None"
  proof (rule ccontr)
    assume "\<not> ?thesis"
    then obtain r where "show_nat n = ''+'' @ r" by (auto simp: strip_prefix_Some)
    then have "CHR ''+'' \<in> set (show_nat n)" by simp
    from show_nat_digits [OF this] show False by (simp add: code_def)
  qed
  with parse_digits_show_nat [of 0 n lim "[]"] \<open>n \<le> lim\<close> show ?thesis by (simp add: parse_uint_def)
qed

end
