(* ===== verification/Net.thy ===== *)
theory Net
  imports Ip_Addr
begin

unbundle bit_operations_syntax

text \<open>
  Address classification (\<open>wardnet-common/src/net.rs\<close>) and the zone-subnet arithmetic shared by
  DHCP and zone enforcement (\<open>wardnetd-services/src/subnet.rs\<close>).

  \<open>Ipv4Network\<close> is a type of the third-party crate \<open>ipnetwork\<close>: its operations are the fields of
  the parameter record \<open>ipnet_lib\<close>, and \<open>ipnet_laws\<close> states the documented behaviour the code
  relies on.
\<close>

section \<open>Classification\<close>

text \<open>The \<open>std::net::Ipv4Addr\<close> predicates the source calls.\<close>

definition is_private :: "ipv4 \<Rightarrow> bool" where
  "is_private ip = (case octets ip of (a, b, c, d) \<Rightarrow>
     a = 10 \<or> (a = 172 \<and> 16 \<le> b \<and> b \<le> 31) \<or> (a = 192 \<and> b = 168))"

definition is_loopback :: "ipv4 \<Rightarrow> bool" where
  "is_loopback ip = (case octets ip of (a, _) \<Rightarrow> a = 127)"

definition is_link_local :: "ipv4 \<Rightarrow> bool" where
  "is_link_local ip = (case octets ip of (a, b, _) \<Rightarrow> a = 169 \<and> b = 254)"

definition is_broadcast :: "ipv4 \<Rightarrow> bool" where
  "is_broadcast ip \<longleftrightarrow> ip = - 1"

definition is_documentation :: "ipv4 \<Rightarrow> bool" where
  "is_documentation ip = (case octets ip of (a, b, c, _) \<Rightarrow>
     (a, b, c) = (192, 0, 2) \<or> (a, b, c) = (198, 51, 100) \<or> (a, b, c) = (203, 0, 113))"

definition is_unspecified :: "ipv4 \<Rightarrow> bool" where
  "is_unspecified ip \<longleftrightarrow> ip = 0"

definition is_reserved_ipv4 :: "ipv4 \<Rightarrow> bool" where
  "is_reserved_ipv4 addr \<longleftrightarrow>
     is_private addr \<or> is_loopback addr \<or> is_link_local addr \<or> is_broadcast addr \<or>
     is_documentation addr \<or> is_unspecified addr \<or>
     (case octets addr of (a, b, _) \<Rightarrow> a = 100 \<and> (b AND 0xC0) = 64)"

definition rfc1918_blocks :: "(ipv4 \<times> nat) list" where
  "rfc1918_blocks = [(ipv4_new 10 0 0 0, 8), (ipv4_new 172 16 0 0, 12), (ipv4_new 192 168 0 0, 16)]"

definition block_covers :: "ipv4 \<Rightarrow> nat \<Rightarrow> ipv4 \<times> nat \<Rightarrow> bool" where
  "block_covers base prefix b =
     (let (net, block_prefix) = b in
      if prefix < block_prefix then False
      else (let mask = (if block_prefix = 0 then 0 else push_bit (32 - block_prefix) (- 1))
            in (base AND mask) = net))"

definition is_rfc1918_subnet :: "ipv4 \<Rightarrow> nat \<Rightarrow> bool" where
  "is_rfc1918_subnet base prefix = list_ex (block_covers base prefix) rfc1918_blocks"

definition segment0 :: "ipv6 \<Rightarrow> nat" where
  "segment0 a = unat (drop_bit 112 a)"

definition is_unique_local_v6 :: "ipv6 \<Rightarrow> bool" where
  "is_unique_local_v6 addr \<longleftrightarrow> (segment0 addr AND 0xfe00) = 0xfc00"

definition is_link_local_v6 :: "ipv6 \<Rightarrow> bool" where
  "is_link_local_v6 addr \<longleftrightarrow> (segment0 addr AND 0xffc0) = 0xfe80"

definition to_ipv4_mapped :: "ipv6 \<Rightarrow> ipv4 option" where
  "to_ipv4_mapped a = (if drop_bit 32 a = 0xffff then Some (ucast a) else None)"

fun is_private_ip :: "ip_addr \<Rightarrow> bool" where
  "is_private_ip (V4 v4) = is_reserved_ipv4 v4"
| "is_private_ip (V6 v6) =
     (case to_ipv4_mapped v6 of
        Some v4 \<Rightarrow> is_reserved_ipv4 v4
      | None \<Rightarrow> v6 = 1 \<or> v6 = 0 \<or> is_unique_local_v6 v6 \<or> is_link_local_v6 v6)"

section \<open>CIDR blocks as sets of addresses\<close>

definition prefix_mask :: "nat \<Rightarrow> ipv4" where
  "prefix_mask p = push_bit (32 - p) (- 1)"

definition cidr :: "ipv4 \<Rightarrow> nat \<Rightarrow> ipv4 set" where
  "cidr base p = {ip. (ip AND prefix_mask p) = (base AND prefix_mask p)}"

lemma bit_prefix_mask: "bit (prefix_mask p) n \<longleftrightarrow> 32 - p \<le> n \<and> n < 32"
  by (auto simp: prefix_mask_def bit_not_iff bit_mask_iff)

lemma in_cidr_bits:
  "ip \<in> cidr base p \<longleftrightarrow> (\<forall>n. 32 - p \<le> n \<and> n < 32 \<longrightarrow> bit ip n = bit base n)"
  by (auto simp: cidr_def bit_eq_iff bit_and_iff bit_prefix_mask)

lemma cidr_refl [simp]: "base \<in> cidr base p"
  by (simp add: cidr_def)

lemma cidr_mono:
  assumes "q \<le> p" and "base \<in> cidr net q"
  shows "cidr base p \<subseteq> cidr net q"
proof
  fix ip
  assume ip: "ip \<in> cidr base p"
  have "32 - p \<le> 32 - q" using assms(1) by simp
  then show "ip \<in> cidr net q"
    using ip assms(2) by (simp add: in_cidr_bits)
qed

lemma cidr_not_wider:
  assumes "cidr base p \<subseteq> cidr net q" and "q \<le> 32"
  shows "q \<le> p"
proof (rule ccontr)
  assume "\<not> q \<le> p"
  then have pq: "p < q" by simp
  define ip where "ip = flip_bit (31 - p) base"
  have flip: "bit ip n = (if n = 31 - p \<and> n < 32 then \<not> bit base n else bit base n)" for n
    by (auto simp: ip_def bit_flip_bit_iff dest: bit_imp_le_length)
  have "ip \<in> cidr base p" using pq assms(2) by (auto simp: in_cidr_bits flip)
  with assms(1) have "ip \<in> cidr net q" by blast
  moreover have "base \<in> cidr net q" using assms(1) cidr_refl by blast
  moreover have k: "32 - q \<le> 31 - p" "31 - p < 32" using pq assms(2) by simp_all
  ultimately have "bit ip (31 - p) = bit base (31 - p)"
    by (simp add: in_cidr_bits)
  moreover have "bit ip (31 - p) \<noteq> bit base (31 - p)" using k(2) flip [of "31 - p"] by simp
  ultimately show False by contradiction
qed

text \<open>Membership in a block is a statement about the leading octets.\<close>

lemma cidr_drop_bit: "ip \<in> cidr base p \<longleftrightarrow> drop_bit (32 - p) ip = drop_bit (32 - p) base"
proof
  assume ip: "ip \<in> cidr base p"
  show "drop_bit (32 - p) ip = drop_bit (32 - p) base"
  proof (rule bit_eqI)
    fix n
    have "bit ip (32 - p + n) = bit base (32 - p + n)"
    proof (cases "32 - p + n < 32")
      case True
      with ip show ?thesis by (simp add: in_cidr_bits)
    next
      case False
      then show ?thesis by (auto dest: bit_imp_le_length)
    qed
    then show "bit (drop_bit (32 - p) ip) n = bit (drop_bit (32 - p) base) n"
      by (simp add: bit_drop_bit_eq)
  qed
next
  assume d: "drop_bit (32 - p) ip = drop_bit (32 - p) base"
  show "ip \<in> cidr base p"
    unfolding in_cidr_bits
  proof (intro allI impI)
    fix n
    assume n: "32 - p \<le> n \<and> n < 32"
    have "bit (drop_bit (32 - p) ip) (n - (32 - p)) = bit (drop_bit (32 - p) base) (n - (32 - p))"
      using d by simp
    with n show "bit ip n = bit base n" by (simp add: bit_drop_bit_eq)
  qed
qed

lemma cidr_div:
  "ip \<in> cidr base p \<longleftrightarrow> unat ip div 2 ^ (32 - p) = unat base div 2 ^ (32 - p)"
  by (simp only: cidr_drop_bit word_unat_eq_iff unat_drop_bit_eq) (simp only: drop_bit_eq_div)

lemma octets_div:
  "octets ip = (a, b, c, d) \<Longrightarrow> unat ip div 2 ^ 24 = a \<and> unat ip div 2 ^ 16 = a * 256 + b"
proof -
  assume o: "octets ip = (a, b, c, d)"
  then have "a * 2 ^ 24 + b * 2 ^ 16 + c * 2 ^ 8 + d = unat ip" by (rule octets_value)
  with octets_bounds [OF o] show ?thesis by auto
qed

lemma octets_div20: "octets ip = (a, b, c, d) \<Longrightarrow> unat ip div 2 ^ 20 = a * 16 + b div 16"
proof -
  assume o: "octets ip = (a, b, c, d)"
  have "unat ip div 2 ^ 20 = unat ip div 2 ^ 16 div 16" by (simp add: div_mult2_eq [symmetric])
  also have "\<dots> = (a * 256 + b) div 16" using octets_div [OF o] by simp
  also have "\<dots> = a * 16 + b div 16" by simp
  finally show ?thesis .
qed

lemma is_private_cidr:
  "is_private ip \<longleftrightarrow> ip \<in> cidr (ipv4_new 10 0 0 0) 8 \<or> ip \<in> cidr (ipv4_new 172 16 0 0) 12
     \<or> ip \<in> cidr (ipv4_new 192 168 0 0) 16"
proof -
  obtain a b c d where o: "octets ip = (a, b, c, d)" by (cases "octets ip") auto
  have 1: "ip \<in> cidr (ipv4_new 10 0 0 0) 8 \<longleftrightarrow> a = 10"
    using octets_div [OF o] by (simp add: cidr_div ipv4_new_def)
  have 2: "ip \<in> cidr (ipv4_new 172 16 0 0) 12 \<longleftrightarrow> a = 172 \<and> 16 \<le> b \<and> b \<le> 31"
  proof -
    define k where "k = b div 16"
    have "k < 16" using octets_bounds [OF o] by (simp add: k_def)
    have "ip \<in> cidr (ipv4_new 172 16 0 0) 12 \<longleftrightarrow> a * 16 + k = 2753"
      using octets_div20 [OF o] by (simp add: cidr_div ipv4_new_def k_def)
    also have "\<dots> \<longleftrightarrow> a = 172 \<and> k = 1" using radix_eq_iff [OF \<open>k < 16\<close>, of 1 a 172] by simp
    also have "k = 1 \<longleftrightarrow> 16 \<le> b \<and> b \<le> 31" unfolding k_def by (auto simp: div_eq_range_iff)
    finally show ?thesis .
  qed
  have 3: "ip \<in> cidr (ipv4_new 192 168 0 0) 16 \<longleftrightarrow> a = 192 \<and> b = 168"
  proof -
    have "ip \<in> cidr (ipv4_new 192 168 0 0) 16 \<longleftrightarrow> a * 256 + b = 49320"
      using octets_div [OF o] by (simp add: cidr_div ipv4_new_def)
    also have "\<dots> \<longleftrightarrow> a = 192 \<and> b = 168" using radix_eq_iff [OF octets_bounds(2) [OF o], of 168 a 192] by simp
    finally show ?thesis .
  qed
  show ?thesis using 1 2 3 by (auto simp: is_private_def o)
qed

lemma rfc1918_block_net: "(net, q) \<in> set rfc1918_blocks \<Longrightarrow> net AND prefix_mask q = net \<and> 0 < q"
proof -
  have "list_all (\<lambda>(net, q). net AND prefix_mask q = net \<and> 0 < q) rfc1918_blocks"
    by (simp add: rfc1918_blocks_def ipv4_new_def prefix_mask_def mask_eq_exp_minus_1)
  then show "(net, q) \<in> set rfc1918_blocks \<Longrightarrow> net AND prefix_mask q = net \<and> 0 < q"
    by (auto simp: list_all_iff)
qed

lemma block_covers_iff:
  "(net, q) \<in> set rfc1918_blocks \<Longrightarrow> block_covers base p (net, q) \<longleftrightarrow> q \<le> p \<and> base \<in> cidr net q"
  using rfc1918_block_net [of net q] unfolding cidr_def prefix_mask_def block_covers_def by auto

lemma is_rfc1918_subnet_blocks:
  "is_rfc1918_subnet base p \<longleftrightarrow> (\<exists>(net, q) \<in> set rfc1918_blocks. q \<le> p \<and> base \<in> cidr net q)"
proof -
  have "block_covers base p b = (case b of (net, q) \<Rightarrow> q \<le> p \<and> base \<in> cidr net q)"
    if "b \<in> set rfc1918_blocks" for b
    using block_covers_iff that by (cases b) auto
  then show ?thesis by (simp add: is_rfc1918_subnet_def list_ex_iff cong: bex_cong)
qed

text \<open>
  \<open>is_rfc1918_subnet\<close> accepts exactly the subnets that lie wholly inside one RFC 1918
  block: no supernet that straddles into public space is accepted, and no private subnet is
  refused.
\<close>

theorem rfc1918_subnet_exact:
  "is_rfc1918_subnet base p \<longleftrightarrow> (\<exists>(net, q) \<in> set rfc1918_blocks. cidr base p \<subseteq> cidr net q)"
proof -
  have *: "(q \<le> p \<and> base \<in> cidr net q) = (cidr base p \<subseteq> cidr net q)"
    if "(net, q) \<in> set rfc1918_blocks" for net q
  proof
    assume "q \<le> p \<and> base \<in> cidr net q"
    then show "cidr base p \<subseteq> cidr net q" by (intro cidr_mono) simp_all
  next
    assume s: "cidr base p \<subseteq> cidr net q"
    have "q \<le> 32" using that by (auto simp: rfc1918_blocks_def)
    then have "q \<le> p" by (rule cidr_not_wider [OF s])
    moreover have "base \<in> cidr net q" using s cidr_refl by blast
    ultimately show "q \<le> p \<and> base \<in> cidr net q" by simp
  qed
  have "(case b of (net, q) \<Rightarrow> q \<le> p \<and> base \<in> cidr net q)
      = (case b of (net, q) \<Rightarrow> cidr base p \<subseteq> cidr net q)" if "b \<in> set rfc1918_blocks" for b
    using * that by (cases b) auto
  then show ?thesis unfolding is_rfc1918_subnet_blocks by (rule bex_cong [OF refl])
qed

lemma rfc1918_subnet_private:
  assumes "is_rfc1918_subnet base p" and "ip \<in> cidr base p"
  shows "is_private ip"
proof -
  obtain net q where "(net, q) \<in> set rfc1918_blocks" "cidr base p \<subseteq> cidr net q"
    using assms(1) unfolding rfc1918_subnet_exact by blast
  with assms(2) show ?thesis by (auto simp: is_private_cidr rfc1918_blocks_def)
qed

text \<open>The reserved class contains every RFC 1918 address, so nothing private is ever published.\<close>

lemma private_reserved: "is_private ip \<Longrightarrow> is_reserved_ipv4 ip"
  by (simp add: is_reserved_ipv4_def)

section \<open>Zone subnets (\<open>subnet.rs\<close>)\<close>

record 'n ipnet_lib =
  net_parse :: "string \<Rightarrow> 'n option"
  net_new :: "ipv4 \<Rightarrow> nat \<Rightarrow> 'n option"
  net_network :: "'n \<Rightarrow> ipv4"
  net_broadcast :: "'n \<Rightarrow> ipv4"
  net_mask :: "'n \<Rightarrow> ipv4"
  net_prefix :: "'n \<Rightarrow> nat"
  net_contains :: "'n \<Rightarrow> ipv4 \<Rightarrow> bool"

text \<open>
  The documented behaviour of \<open>ipnetwork::Ipv4Network\<close>: the prefix is at most 32, \<open>network\<close> and
  \<open>broadcast\<close> are the lowest and the highest address of the block, \<open>mask\<close> is the prefix mask,
  \<open>contains\<close> is membership, and \<open>new\<close> accepts exactly the prefixes up to 32.
\<close>

definition ipnet_laws :: "'n ipnet_lib \<Rightarrow> bool" where
  "ipnet_laws L \<longleftrightarrow>
     (\<forall>n. net_prefix L n \<le> 32 \<and> net_mask L n = prefix_mask (net_prefix L n)
        \<and> (net_network L n AND net_mask L n) = net_network L n
        \<and> net_broadcast L n = (net_network L n OR NOT (net_mask L n))
        \<and> (\<forall>ip. net_contains L n ip \<longleftrightarrow> (ip AND net_mask L n) = net_network L n))
     \<and> (\<forall>a p. case net_new L a p of
          None \<Rightarrow> 32 < p
        | Some n \<Rightarrow> p \<le> 32 \<and> net_prefix L n = p \<and> net_network L n = (a AND prefix_mask p))"

definition gateway_for :: "'n ipnet_lib \<Rightarrow> 'n \<Rightarrow> ipv4" where
  "gateway_for L net = net_network L net + 1"

definition saturating_sub :: "ipv4 \<Rightarrow> ipv4 \<Rightarrow> ipv4" where
  "saturating_sub a b = (if a < b then 0 else a - b)"

definition pool_bounds :: "'n ipnet_lib \<Rightarrow> 'n \<Rightarrow> (ipv4 \<times> ipv4) option" where
  "pool_bounds L net =
     (let start = net_network L net + 10;
          end' = saturating_sub (net_broadcast L net) 6
      in if start \<ge> end' then None else Some (start, end'))"

definition canonical_cidr :: "'n ipnet_lib \<Rightarrow> 'n \<Rightarrow> string" where
  "canonical_cidr L net = ipv4_to_string (net_network L net) @ ''/'' @ show_nat (net_prefix L net)"

text \<open>\<open>parse_zone_subnets\<close> over the zones' ids and optional CIDR strings.\<close>

definition parse_zone_subnets :: "'n ipnet_lib \<Rightarrow> ('u \<times> string option) list \<Rightarrow> ('u \<times> 'n) list" where
  "parse_zone_subnets L zones =
     List.map_filter (\<lambda>(zid, subnet).
       case subnet of None \<Rightarrow> None
       | Some c \<Rightarrow> (case net_parse L c of Some net \<Rightarrow> Some (zid, net) | None \<Rightarrow> None)) zones"

lemma network_masked: "ipnet_laws L \<Longrightarrow> net_network L n AND prefix_mask (net_prefix L n) = net_network L n"
  unfolding ipnet_laws_def by metis

lemma net_contains_cidr:
  assumes "ipnet_laws L"
  shows "net_contains L n ip \<longleftrightarrow> ip \<in> cidr (net_network L n) (net_prefix L n)"
proof -
  have "net_contains L n ip \<longleftrightarrow> ip AND prefix_mask (net_prefix L n) = net_network L n"
    using assms unfolding ipnet_laws_def by metis
  then show ?thesis using network_masked [OF assms, of n] by (simp add: cidr_def)
qed

lemma network_low_bits:
  assumes "ipnet_laws L" and "n < 32 - net_prefix L m"
  shows "\<not> bit (net_network L m) n"
proof
  assume b: "bit (net_network L m) n"
  have "bit (net_network L m AND prefix_mask (net_prefix L m)) n"
    using b network_masked [OF assms(1), of m] by simp
  with assms(2) show False by (simp add: bit_and_iff bit_prefix_mask)
qed

lemma unat_mask32: "k \<le> 32 \<Longrightarrow> unat (mask k :: ipv4) = 2 ^ k - 1"
proof -
  assume "k \<le> 32"
  then have "unat (mask k :: ipv4) = mask k"
    by (intro bit_eqI) (auto simp: bit_unsigned_iff bit_mask_iff)
  then show ?thesis by (simp add: mask_eq_exp_minus_1)
qed

lemma broadcast_value:
  assumes "ipnet_laws L"
  shows "unat (net_broadcast L n) = unat (net_network L n) + (2 ^ (32 - net_prefix L n) - 1)"
proof -
  let ?k = "32 - net_prefix L n" and ?w = "net_network L n"
  have "net_broadcast L n = (?w OR NOT (prefix_mask (net_prefix L n)))"
    using assms unfolding ipnet_laws_def by metis
  then have "net_broadcast L n = (?w OR mask ?k)"
    by (simp add: prefix_mask_def)
  then have "unat (net_broadcast L n) = (unat ?w OR unat (mask ?k :: ipv4))"
    by (simp only: unsigned_or_eq)
  also have "\<dots> = unat ?w + unat (mask ?k :: ipv4)"
    using network_low_bits [OF assms]
    by (intro disjunctive_add [symmetric]) (auto simp: bit_unsigned_iff bit_mask_iff)
  also have "\<dots> = unat ?w + (2 ^ ?k - 1)" by (simp add: unat_mask32)
  finally show ?thesis .
qed

lemma network_aligned:
  assumes "ipnet_laws L"
  shows "2 ^ (32 - net_prefix L n) dvd unat (net_network L n)"
proof -
  have "take_bit (32 - net_prefix L n) (unat (net_network L n)) = 0"
    using network_low_bits [OF assms]
    by (intro bit_eqI) (auto simp: bit_take_bit_iff bit_unsigned_iff)
  then show ?thesis by (simp add: take_bit_eq_0_iff)
qed

text \<open>Membership is lying between the network and the broadcast address.\<close>

lemma net_contains_range:
  assumes "ipnet_laws L"
  shows "net_contains L n ip \<longleftrightarrow> net_network L n \<le> ip \<and> ip \<le> net_broadcast L n"
proof -
  let ?k = "32 - net_prefix L n"
  obtain q where q: "unat (net_network L n) = 2 ^ ?k * q"
    using network_aligned [OF assms, of n] by (auto elim: dvdE)
  have "net_contains L n ip \<longleftrightarrow> unat ip div 2 ^ ?k = q"
    using q by (simp add: net_contains_cidr [OF assms] cidr_div)
  also have "\<dots> \<longleftrightarrow> 2 ^ ?k * q \<le> unat ip \<and> unat ip < 2 ^ ?k * q + 2 ^ ?k"
    by (simp add: div_eq_range_iff mult.commute)
  also have "\<dots> \<longleftrightarrow> net_network L n \<le> ip \<and> ip \<le> net_broadcast L n"
  proof -
    define s :: nat where "s = 2 ^ ?k"
    have "0 < s" by (simp add: s_def)
    then show ?thesis
      using q broadcast_value [OF assms, of n] unfolding word_le_nat_alt s_def [symmetric] by auto
  qed
  finally show ?thesis .
qed

lemma private_upper: "is_private ip \<Longrightarrow> unat ip < 2 ^ 32 - 2 ^ 24"
proof -
  assume p: "is_private ip"
  obtain a b c d where o: "octets ip = (a, b, c, d)" by (cases "octets ip") auto
  with p have "a \<le> 192" by (auto simp: is_private_def)
  with octets_value [OF o] octets_bounds [OF o] show ?thesis by simp
qed

lemma rfc1918_network_private:
  "is_rfc1918_subnet base p \<Longrightarrow> is_private base"
  using rfc1918_subnet_private [OF _ cidr_refl] by blast

lemma network_plus:
  assumes "ipnet_laws L" and "is_rfc1918_subnet (net_network L n) (net_prefix L n)" and "k \<le> 16"
  shows "unat (net_network L n + of_nat k) = unat (net_network L n) + k"
proof -
  have "unat (net_network L n) < 2 ^ 32 - 2 ^ 24"
    by (rule private_upper [OF rfc1918_network_private [OF assms(2)]])
  with assms(3) show ?thesis by (simp add: unat_plus_if' unat_of_nat)
qed

text \<open>
  C26: on a private zone subnet, \<open>pool_bounds\<close> yields a pool exactly when the prefix is at most
  27, and then the pool is \<open>network+10 .. broadcast-6\<close>: a non-empty range inside the subnet that
  excludes the gateway alias \<open>network+1\<close> and the broadcast address.
\<close>

theorem pool_bounds_spec:
  assumes laws: "ipnet_laws L"
    and priv: "is_rfc1918_subnet (net_network L n) (net_prefix L n)"
  shows "(pool_bounds L n = None \<longleftrightarrow> 28 \<le> net_prefix L n) \<and>
    (\<forall>s e. pool_bounds L n = Some (s, e) \<longrightarrow>
       s < e \<and> net_contains L n s \<and> net_contains L n e \<and> gateway_for L n < s
       \<and> e < net_broadcast L n \<and> (net_prefix L n \<le> 30 \<longrightarrow> net_contains L n (gateway_for L n)))"
proof -
  let ?N = "unat (net_network L n)" and ?k = "32 - net_prefix L n"
  define S :: nat where "S = 2 ^ ?k"
  have B: "unat (net_broadcast L n) = ?N + (S - 1)"
    using broadcast_value [OF laws, of n] by (simp add: S_def)
  have st: "unat (net_network L n + 10) = ?N + 10"
    using network_plus [OF laws priv, of 10] by simp
  have gw: "unat (gateway_for L n) = ?N + 1"
    using network_plus [OF laws priv, of 1] by (simp add: gateway_for_def)
  show ?thesis
  proof (cases "28 \<le> net_prefix L n")
    case True
    then have "S \<le> 2 ^ 4" unfolding S_def by (intro power_increasing) simp_all
    moreover have "unat (saturating_sub (net_broadcast L n) 6) \<le> unat (net_broadcast L n) - 6"
      by (auto simp: saturating_sub_def unat_sub word_le_nat_alt word_less_nat_alt not_less)
    ultimately have "pool_bounds L n = None"
      using st B by (auto simp: pool_bounds_def Let_def word_le_nat_alt)
    with True show ?thesis by simp
  next
    case False
    then have "2 ^ 5 \<le> S" unfolding S_def by (intro power_increasing) simp_all
    then have S: "32 \<le> S" by simp
    have en: "unat (saturating_sub (net_broadcast L n) 6) = ?N + S - 7"
      using S B by (auto simp: saturating_sub_def unat_sub word_le_nat_alt word_less_nat_alt)
    have pb: "pool_bounds L n =
        Some (net_network L n + 10, saturating_sub (net_broadcast L n) 6)"
      using st en S by (auto simp: pool_bounds_def Let_def word_le_nat_alt)
    show ?thesis
      using False S st en gw B
      by (auto simp: pb net_contains_range [OF laws] word_le_nat_alt word_less_nat_alt)
  qed
qed

text \<open>A concrete \<open>Ipv4Network\<close>: an address and a prefix, which satisfies the laws.\<close>

definition ex_net_new :: "ipv4 \<Rightarrow> nat \<Rightarrow> (ipv4 \<times> nat) option" where
  "ex_net_new a p = (if p \<le> 32 then Some (a, p) else None)"

definition ex_ipnet :: "(ipv4 \<times> nat) ipnet_lib" where
  "ex_ipnet = \<lparr>
     net_parse = (\<lambda>s. case split_char (CHR ''/'') s of
        [a, p] \<Rightarrow> (case (parse_ipv4 a, parse_uint 255 p) of
           (Some ip, Some k) \<Rightarrow> ex_net_new ip k | _ \<Rightarrow> None) | _ \<Rightarrow> None),
     net_new = ex_net_new,
     net_network = (\<lambda>(a, p). a AND prefix_mask (min 32 p)),
     net_broadcast = (\<lambda>(a, p). (a AND prefix_mask (min 32 p)) OR NOT (prefix_mask (min 32 p))),
     net_mask = (\<lambda>(a, p). prefix_mask (min 32 p)),
     net_prefix = (\<lambda>(a, p). min 32 p),
     net_contains = (\<lambda>(a, p) ip. (ip AND prefix_mask (min 32 p)) = (a AND prefix_mask (min 32 p)))\<rparr>"

lemma ex_ipnet_laws: "ipnet_laws ex_ipnet"
  by (auto simp: ipnet_laws_def ex_ipnet_def ex_net_new_def and.assoc split: option.splits)

lemma prefix_mask_24: "prefix_mask 24 = 0xFFFFFF00"
  by (simp add: prefix_mask_def mask_eq_exp_minus_1)

theorem pool_bounds_spec_witness:
  "pool_bounds ex_ipnet (ipv4_new 10 44 0 0, 24) = Some (ipv4_new 10 44 0 10, ipv4_new 10 44 0 249)
   \<and> net_contains ex_ipnet (ipv4_new 10 44 0 0, 24) (ipv4_new 10 44 0 249)"
proof -
  let ?n = "(ipv4_new 10 44 0 0, 24) :: ipv4 \<times> nat"
  have priv: "is_rfc1918_subnet (net_network ex_ipnet ?n) (net_prefix ex_ipnet ?n)"
    by (simp add: ex_ipnet_def is_rfc1918_subnet_def rfc1918_blocks_def block_covers_def
        ipv4_new_def prefix_mask_24 mask_eq_exp_minus_1)
  have pb: "pool_bounds ex_ipnet ?n = Some (ipv4_new 10 44 0 10, ipv4_new 10 44 0 249)"
    by (simp add: ex_ipnet_def pool_bounds_def saturating_sub_def ipv4_new_def prefix_mask_24)
  show ?thesis using pool_bounds_spec [OF ex_ipnet_laws priv] pb by simp
qed

end
