(* ===== verification/Domain_Names.thy ===== *)
theory Domain_Names
  imports Prelude
begin

text \<open>
  Domain names as the DNS paths compare them: canonicalisation
  (\<open>normalize\<close>, \<open>normalize_owned\<close> of \<open>dns_filter/filter.rs\<close>), the two subdomain tests of the
  filter (\<open>is_subdomain_of\<close>, \<open>matches_subdomain\<close>) and the suffix test the cache and the
  authoritative view share. All of them are shown equal to one specification, \<open>in_subtree\<close>.
\<close>

section \<open>Canonical form\<close>

fun position :: "('a \<Rightarrow> bool) \<Rightarrow> 'a list \<Rightarrow> nat option" where
  "position p [] = None"
| "position p (x # xs) = (if p x then Some 0 else map_option Suc (position p xs))"

definition normalize :: "string \<Rightarrow> string" where
  "normalize s =
     (let trimmed = trim_end_matches (CHR ''.'') s in
      case position is_ascii_uppercase trimmed of
        None \<Rightarrow> trimmed
      | Some i \<Rightarrow> take i trimmed @ to_ascii_lowercase (drop i trimmed))"

definition normalize_owned :: "string \<Rightarrow> string" where
  "normalize_owned s = to_ascii_lowercase (trim_end_matches (CHR ''.'') s)"

text \<open>A name is canonical when it has no upper-case byte and no trailing dot.\<close>

definition canonical :: "string \<Rightarrow> bool" where
  "canonical s \<longleftrightarrow> (\<forall>c \<in> set s. \<not> is_ascii_uppercase c) \<and> (s = [] \<or> last s \<noteq> CHR ''.'')"

lemma position_None: "position p xs = None \<longleftrightarrow> (\<forall>x \<in> set xs. \<not> p x)"
  by (induction xs) auto

lemma position_Some: "position p xs = Some i \<Longrightarrow> \<forall>x \<in> set (take i xs). \<not> p x"
proof (induction xs arbitrary: i)
  case Nil
  then show ?case by simp
next
  case (Cons x xs)
  then show ?case by (cases i) (auto split: if_splits)
qed

lemma lower_id: "\<forall>c \<in> set s. \<not> is_ascii_uppercase c \<Longrightarrow> to_ascii_lowercase s = s"
  by (simp add: map_idI)

lemma normalize_eq_owned: "normalize s = normalize_owned s"
proof -
  let ?t = "trim_end_matches (CHR ''.'') s"
  show ?thesis
  proof (cases "position is_ascii_uppercase ?t")
    case None
    then have "to_ascii_lowercase ?t = ?t"
      by (intro lower_id) (simp add: position_None)
    with None show ?thesis by (simp add: normalize_def normalize_owned_def)
  next
    case (Some i)
    then have "to_ascii_lowercase (take i ?t) = take i ?t"
      by (intro lower_id position_Some)
    then have "take i ?t @ to_ascii_lowercase (drop i ?t) = to_ascii_lowercase ?t"
      by (metis append_take_drop_id map_append)
    with Some show ?thesis by (simp add: normalize_def normalize_owned_def)
  qed
qed

lemma canonical_lower_trim [canon]: "canonical (normalize_owned s)"
proof -
  let ?t = "trim_end_matches (CHR ''.'') s"
  have "last (to_ascii_lowercase ?t) \<noteq> CHR ''.''" if "?t \<noteq> []"
    using that trim_end_matches_last [of "CHR ''.''" s] by (simp add: last_map)
  then show ?thesis
    by (auto simp: canonical_def normalize_owned_def)
qed

lemma normalize_owned_id [canon]: "canonical s \<Longrightarrow> normalize_owned s = s"
  by (auto simp: canonical_def normalize_owned_def trim_end_matches_id intro: lower_id)

lemma normalize_owned_idem [simp]: "normalize_owned (normalize_owned s) = normalize_owned s"
  by (simp add: normalize_owned_id canonical_lower_trim)

lemma canonical_iff: "canonical s \<longleftrightarrow> normalize_owned s = s"
  by (metis canonical_lower_trim normalize_owned_id)

lemma normalize_owned_snoc_dot [simp]: "normalize_owned (s @ ''.'') = normalize_owned s"
  by (simp add: normalize_owned_def)

lemma normalize_owned_lower [simp]:
  "normalize_owned (to_ascii_lowercase s) = normalize_owned s"
proof -
  have "trim_end_matches (CHR ''.'') (map ascii_lower s)
      = map ascii_lower (trim_end_matches (CHR ''.'') s)"
    by (rule trim_end_matches_map) simp
  then show ?thesis by (simp add: normalize_owned_def)
qed

section \<open>The subtree of a name\<close>

text \<open>
  The specification: \<open>d\<close> is \<open>r\<close> itself or one or more labels below it.
\<close>

definition in_subtree :: "string \<Rightarrow> string \<Rightarrow> bool" where
  "in_subtree r d \<longleftrightarrow> d = r \<or> (\<exists>p. d = p @ ''.'' @ r)"

definition is_subdomain_of :: "string \<Rightarrow> string \<Rightarrow> bool" where
  "is_subdomain_of domain rule_domain =
     (if domain = rule_domain then True
      else if length domain \<le> length rule_domain then False
      else (let prefix_len = length domain - length rule_domain - 1 in
            ends_with rule_domain domain \<and> domain ! prefix_len = CHR ''.''))"

function parents_in :: "string \<Rightarrow> string set \<Rightarrow> bool" where
  "parents_in rest S =
     (case find_char (CHR ''.'') rest of
        None \<Rightarrow> False
      | Some idx \<Rightarrow> (let parent = drop (idx + 1) rest in
                     if parent \<in> S then True else parents_in parent S))"
  by pat_completeness auto
termination
  by (relation "measure (\<lambda>(rest, S). length rest)") (auto dest: find_char_length)

declare parents_in.simps [simp del]

definition matches_subdomain :: "string \<Rightarrow> string set \<Rightarrow> bool" where
  "matches_subdomain domain S = (if domain \<in> S then True else parents_in domain S)"

text \<open>
  The suffix test of \<open>DnsCache::invalidate_subtree\<close>, \<open>match_forwarding_rule\<close> and
  \<open>authoritative_zone\<close>: equal, or what is left of the suffix ends with a dot.
\<close>

definition suffix_covers :: "string \<Rightarrow> string \<Rightarrow> bool" where
  "suffix_covers r d \<longleftrightarrow> d = r \<or>
     (case strip_suffix r d of None \<Rightarrow> False | Some p \<Rightarrow> ends_with ''.'' p)"

lemma suffix_covers_in_subtree: "suffix_covers r d \<longleftrightarrow> in_subtree r d"
proof -
  have "(case strip_suffix r d of None \<Rightarrow> False | Some p \<Rightarrow> ends_with ''.'' p)
      \<longleftrightarrow> (\<exists>p. d = p @ ''.'' @ r)"
    by (auto simp: str_eqs split: option.splits)
  then show ?thesis by (auto simp: suffix_covers_def in_subtree_def)
qed

lemma is_subdomain_of_in_subtree: "is_subdomain_of d r \<longleftrightarrow> in_subtree r d"
proof (cases "d = r \<or> length d \<le> length r")
  case True
  then show ?thesis by (auto simp: is_subdomain_of_def in_subtree_def)
next
  case False
  let ?k = "length d - length r - 1"
  have "ends_with r d \<and> d ! ?k = CHR ''.'' \<longleftrightarrow> (\<exists>p. d = p @ ''.'' @ r)"
  proof
    assume a: "ends_with r d \<and> d ! ?k = CHR ''.''"
    then obtain q where q: "d = q @ r" by (auto simp: ends_with_iff)
    with False have "q \<noteq> []" by auto
    moreover from a q have "last q = CHR ''.''"
      using \<open>q \<noteq> []\<close> by (simp add: nth_append last_conv_nth)
    ultimately have "q = butlast q @ ''.''" by (metis append_butlast_last_id)
    with q show "\<exists>p. d = p @ ''.'' @ r" by (metis append.assoc)
  next
    assume "\<exists>p. d = p @ ''.'' @ r"
    then obtain p where p: "d = p @ ''.'' @ r" by blast
    then have "d = (p @ ''.'') @ r" by simp
    then show "ends_with r d \<and> d ! ?k = CHR ''.''"
      using p by (auto simp: ends_with_iff nth_append)
  qed
  with False show ?thesis by (auto simp: is_subdomain_of_def in_subtree_def Let_def)
qed

lemma parents_in_iff: "parents_in d S \<longleftrightarrow> (\<exists>p. \<exists>r \<in> S. d = p @ ''.'' @ r)"
proof (induction d S rule: parents_in.induct)
  case (1 d S)
  show ?case
  proof (cases "find_char (CHR ''.'') d")
    case None
    then have "CHR ''.'' \<notin> set d" by simp
    then have "\<not> (\<exists>p. \<exists>r \<in> S. d = p @ ''.'' @ r)" by auto
    moreover have "\<not> parents_in d S"
      by (subst parents_in.simps) (simp only: None option.case not_False_eq_True)
    ultimately show ?thesis by blast
  next
    case (Some i)
    let ?p = "take i d" and ?q = "drop (i + 1) d"
    from Some have d: "d = ?p @ CHR ''.'' # ?q" using find_char_split by force
    from Some have np: "CHR ''.'' \<notin> set ?p" by (simp add: find_char_Some)
    have "(\<exists>p. \<exists>r \<in> S. d = p @ ''.'' @ r) \<longleftrightarrow> ?q \<in> S \<or> (\<exists>p. \<exists>r \<in> S. ?q = p @ ''.'' @ r)"
    proof
      assume "\<exists>p. \<exists>r \<in> S. d = p @ ''.'' @ r"
      then obtain p r where r: "r \<in> S" and e: "d = p @ CHR ''.'' # r" by auto
      from d e have "?p @ CHR ''.'' # ?q = p @ CHR ''.'' # r" by (rule trans [OF sym])
      then have "(p = ?p \<and> r = ?q) \<or> (\<exists>u. ?q = u @ CHR ''.'' # r)"
        by (rule first_occurrence_cut [OF np])
      then show "?q \<in> S \<or> (\<exists>p. \<exists>r \<in> S. ?q = p @ ''.'' @ r)"
        using r by auto
    next
      assume "?q \<in> S \<or> (\<exists>p. \<exists>r \<in> S. ?q = p @ ''.'' @ r)"
      then show "\<exists>p. \<exists>r \<in> S. d = p @ ''.'' @ r"
      proof
        assume "?q \<in> S"
        then show ?thesis using d by (metis append_Cons append_Nil)
      next
        assume "\<exists>p. \<exists>r \<in> S. ?q = p @ ''.'' @ r"
        then obtain p r where "r \<in> S" "?q = p @ ''.'' @ r" by blast
        then have "d = (?p @ CHR ''.'' # p) @ ''.'' @ r"
          by (subst d) (simp only: append.simps append.assoc)
        with \<open>r \<in> S\<close> show ?thesis by blast
      qed
    qed
    with Some "1.IH" [OF Some] show ?thesis
      by (simp add: parents_in.simps [of d S] Let_def)
  qed
qed

lemma matches_subdomain_in_subtree: "matches_subdomain d S \<longleftrightarrow> (\<exists>r \<in> S. in_subtree r d)"
  by (auto simp: matches_subdomain_def in_subtree_def parents_in_iff)

lemma in_subtree_refl [simp]: "in_subtree r r"
  by (simp add: in_subtree_def)

lemma in_subtree_trans:
  assumes "in_subtree a b" and "in_subtree b c"
  shows "in_subtree a c"
proof -
  from assms(2) consider "c = b" | p where "c = p @ ''.'' @ b" by (auto simp: in_subtree_def)
  then show ?thesis
  proof cases
    case 1
    with assms(1) show ?thesis by simp
  next
    case p: 2
    from assms(1) consider "b = a" | q where "b = q @ ''.'' @ a" by (auto simp: in_subtree_def)
    then show ?thesis
    proof cases
      case 1
      with p show ?thesis by (auto simp: in_subtree_def)
    next
      case 2
      with p have "c = (p @ ''.'' @ q) @ ''.'' @ a" by simp
      then show ?thesis unfolding in_subtree_def by blast
    qed
  qed
qed

lemma in_subtree_length: "in_subtree r d \<Longrightarrow> d \<noteq> r \<Longrightarrow> length r < length d"
  by (auto simp: in_subtree_def)

lemma in_subtree_antisym: "in_subtree a b \<Longrightarrow> in_subtree b a \<Longrightarrow> a = b"
  by (metis in_subtree_length less_asym)

text \<open>
  Two names that both cover \<open>d\<close> are comparable, and the longer one is the more specific:
  this is why sorting by length makes the first match the most specific one.
\<close>

lemma in_subtree_longer:
  assumes "in_subtree a d" and "in_subtree b d" and "length a \<le> length b"
  shows "in_subtree a b"
proof -
  from assms(1) obtain p where p: "d = p @ a"
    unfolding in_subtree_def by (metis append_Nil append.assoc)
  from assms(2) obtain q where q: "d = q @ b"
    unfolding in_subtree_def by (metis append_Nil append.assoc)
  note pq = p q
  show ?thesis
  proof (cases "length a = length b")
    case True
    with pq have "a = b" by simp
    then show ?thesis by simp
  next
    case False
    with assms(3) have lt: "length a < length b" by simp
    with assms(2) have "d \<noteq> a" by (auto dest: in_subtree_length)
    with assms(1) obtain u where u: "d = u @ ''.'' @ a" by (auto simp: in_subtree_def)
    with pq(2) have e: "(u @ ''.'') @ a = q @ b" by simp
    obtain v where v: "u @ ''.'' = q @ v" "b = v @ a"
      by (rule longer_suffix_cut [OF e assms(3)])
    with lt have "v \<noteq> []" by auto
    moreover have "last v = CHR ''.''" using v(1) \<open>v \<noteq> []\<close> by (metis last_appendR last_snoc)
    ultimately have "v = butlast v @ ''.''" by (metis append_butlast_last_id)
    with v(2) have "b = butlast v @ ''.'' @ a" by (metis append.assoc)
    then show ?thesis unfolding in_subtree_def by blast
  qed
qed

end
