(* ===== verification/Filter_Parser.thy ===== *)
theory Filter_Parser
  imports Ip_Addr Domain_Names
begin

text \<open>
  The parser for AdGuard-compatible filter rules (\<open>wardnetd-services/src/dns/filter_parser.rs\<close>):
  \<open>parse_line\<close> and its helpers, with every error path. Three third-party libraries are
  parameters, the fields of \<open>parser_lib\<close>: the \<open>regex\<close> crate (\<open>Regex::new\<close>, \<open>is_match\<close>,
  \<open>regex::escape\<close>), hickory's \<open>RecordType::from_str\<close>, and \<open>ipnetwork::IpNetwork\<close>
  (\<open>parse\<close>, \<open>From<IpAddr>\<close>, \<open>contains\<close>). Their values have the types \<open>'r\<close>, \<open>'q\<close> and \<open>'n\<close>.
\<close>

record ('r, 'q, 'n) parser_lib =
  regex_new :: "string \<Rightarrow> string + 'r"
  regex_is_match :: "'r \<Rightarrow> string \<Rightarrow> bool"
  regex_escape :: "string \<Rightarrow> string"
  record_type_from_str :: "string \<Rightarrow> 'q option"
  ipnetwork_parse :: "string \<Rightarrow> 'n option"
  ipnetwork_from :: "ip_addr \<Rightarrow> 'n"
  ipnetwork_contains :: "'n \<Rightarrow> ip_addr \<Rightarrow> bool"

datatype parse_error =
    Empty
  | InvalidHostsIp string
  | InvalidDomain string
  | InvalidRegex string string
  | UnknownModifier string
  | InvalidModifierValue string string
  | MissingModifierValue string
  | InvalidClient string
  | InvalidRewrite string
  | Unrecognized string

record ('q, 'n) rule_modifiers =
  dns_types :: "'q list option"
  rewrite_to :: "ip_addr option"
  clients :: "'n list option"
  important :: bool

datatype ('r, 'q, 'n) parsed_rule =
    DomainBlock string "('q, 'n) rule_modifiers" bool
  | Pattern 'r string "('q, 'n) rule_modifiers" bool
  | Regex 'r string "('q, 'n) rule_modifiers" bool

fun modifiers :: "('r, 'q, 'n) parsed_rule \<Rightarrow> ('q, 'n) rule_modifiers" where
  "modifiers (DomainBlock _ m _) = m"
| "modifiers (Pattern _ _ m _) = m"
| "modifiers (Regex _ _ m _) = m"

fun is_allow :: "('r, 'q, 'n) parsed_rule \<Rightarrow> bool" where
  "is_allow (DomainBlock _ _ a) = a"
| "is_allow (Pattern _ _ _ a) = a"
| "is_allow (Regex _ _ _ a) = a"

definition default_modifiers :: "('q, 'n) rule_modifiers" where
  "default_modifiers = \<lparr>dns_types = None, rewrite_to = None, clients = None, important = False\<rparr>"

definition modifiers_empty :: "('q, 'n) rule_modifiers \<Rightarrow> bool" where
  "modifiers_empty m \<longleftrightarrow>
     dns_types m = None \<and> rewrite_to m = None \<and> clients m = None \<and> \<not> important m"

section \<open>Domains\<close>

definition domain_char :: "char \<Rightarrow> bool" where
  "domain_char c \<longleftrightarrow> is_ascii_alphanumeric c \<or> c = CHR ''.'' \<or> c = CHR ''-'' \<or> c = CHR ''_''"

definition is_valid_domain :: "string \<Rightarrow> bool" where
  "is_valid_domain s = (if s = [] \<or> length s > 253 then False else list_all domain_char s)"

definition normalize_domain :: "string \<Rightarrow> parse_error + string" where
  "normalize_domain s =
     (let trimmed = trim_end_matches (CHR ''.'') s in
      if \<not> is_valid_domain trimmed then Inl (InvalidDomain s)
      else Inr (to_ascii_lowercase trimmed))"

section \<open>Wildcards\<close>

text \<open>The characters of a Rust string, each as its UTF-8 bytes.\<close>

fun utf8_chars :: "string \<Rightarrow> string list" where
  "utf8_chars [] = []"
| "utf8_chars (b # bs) =
     (case utf8_chars bs of
        [] \<Rightarrow> [[b]]
      | w # ws \<Rightarrow> (if w \<noteq> [] \<and> 128 \<le> code (hd w) \<and> code (hd w) < 192
                   then (b # w) # ws else [b] # w # ws))"

definition wildcard_char :: "('r, 'q, 'n) parser_lib \<Rightarrow> string \<Rightarrow> string" where
  "wildcard_char L ch =
     (if ch = ''*'' then ''.*''
      else if (length ch = 1 \<and> is_ascii_alphanumeric (hd ch)) \<or> ch = ''-'' \<or> ch = ''_'' \<or> ch = ''.''
      then ch else regex_escape L ch)"

definition wildcard_regex :: "('r, 'q, 'n) parser_lib \<Rightarrow> string \<Rightarrow> string" where
  "wildcard_regex L pat = ''(?i)^'' @ concat (map (wildcard_char L) (utf8_chars pat)) @ ''$''"

definition compile_wildcard :: "('r, 'q, 'n) parser_lib \<Rightarrow> string \<Rightarrow> parse_error + 'r" where
  "compile_wildcard L pat =
     (case regex_new L (wildcard_regex L pat) of
        Inl e \<Rightarrow> Inl (InvalidRegex pat e)
      | Inr r \<Rightarrow> Inr r)"

section \<open>Modifiers\<close>

fun parse_dns_types :: "('r, 'q, 'n) parser_lib \<Rightarrow> string \<Rightarrow> string list \<Rightarrow> parse_error + 'q list" where
  "parse_dns_types L v [] = Inr []"
| "parse_dns_types L v (t0 # ts) =
     (let t = trim t0 in
      if t = [] then Inl (InvalidModifierValue ''dnstype'' v)
      else (case record_type_from_str L (to_ascii_uppercase t) of
              None \<Rightarrow> Inl (InvalidModifierValue ''dnstype'' t)
            | Some rt \<Rightarrow> (case parse_dns_types L v ts of Inl e \<Rightarrow> Inl e | Inr rts \<Rightarrow> Inr (rt # rts))))"

fun parse_clients :: "('r, 'q, 'n) parser_lib \<Rightarrow> string \<Rightarrow> string list \<Rightarrow> parse_error + 'n list" where
  "parse_clients L v [] = Inr []"
| "parse_clients L v (c0 # cs) =
     (let c = trim c0 in
      if c = [] then Inl (InvalidClient v)
      else (case (if CHR ''/'' \<in> set c then ipnetwork_parse L c
                  else map_option (ipnetwork_from L) (parse_ip c)) of
              None \<Rightarrow> Inl (InvalidClient c)
            | Some net \<Rightarrow> (case parse_clients L v cs of Inl e \<Rightarrow> Inl e | Inr ns \<Rightarrow> Inr (net # ns))))"

definition apply_modifier ::
    "('r, 'q, 'n) parser_lib \<Rightarrow> string \<Rightarrow> ('q, 'n) rule_modifiers \<Rightarrow> parse_error + ('q, 'n) rule_modifiers" where
  "apply_modifier L part mods =
     (let (name, value) = (case split_once (CHR ''='') part of
                             Some (n, v) \<Rightarrow> (n, Some v) | None \<Rightarrow> (part, None)) in
      if name = ''important'' then
        (case value of Some v \<Rightarrow> Inl (InvalidModifierValue ''important'' v)
         | None \<Rightarrow> Inr (mods\<lparr>important := True\<rparr>))
      else if name = ''dnstype'' then
        (case value of None \<Rightarrow> Inl (MissingModifierValue ''dnstype'')
         | Some v \<Rightarrow> (case parse_dns_types L v (split_char (CHR ''|'') v) of
                       Inl e \<Rightarrow> Inl e | Inr types \<Rightarrow> Inr (mods\<lparr>dns_types := Some types\<rparr>)))
      else if name = ''dnsrewrite'' then
        (case value of None \<Rightarrow> Inl (MissingModifierValue ''dnsrewrite'')
         | Some v \<Rightarrow> (case parse_ip v of
                       None \<Rightarrow> Inl (InvalidRewrite v)
                     | Some ip \<Rightarrow> Inr (mods\<lparr>rewrite_to := Some ip\<rparr>)))
      else if name = ''client'' then
        (case value of None \<Rightarrow> Inl (MissingModifierValue ''client'')
         | Some v \<Rightarrow> (case parse_clients L v (split_char (CHR ''|'') v) of
                       Inl e \<Rightarrow> Inl e | Inr nets \<Rightarrow> Inr (mods\<lparr>clients := Some nets\<rparr>)))
      else Inl (UnknownModifier name))"

fun parse_modifier_parts ::
    "('r, 'q, 'n) parser_lib \<Rightarrow> string list \<Rightarrow> ('q, 'n) rule_modifiers \<Rightarrow> parse_error + ('q, 'n) rule_modifiers" where
  "parse_modifier_parts L [] mods = Inr mods"
| "parse_modifier_parts L (raw_part # ps) mods =
     (let part = trim raw_part in
      if part = [] then parse_modifier_parts L ps mods
      else (case apply_modifier L part mods of
              Inl e \<Rightarrow> Inl e
            | Inr mods' \<Rightarrow> parse_modifier_parts L ps mods'))"

definition parse_modifiers ::
    "('r, 'q, 'n) parser_lib \<Rightarrow> string \<Rightarrow> parse_error + ('q, 'n) rule_modifiers" where
  "parse_modifiers L s =
     (if s = [] then Inr default_modifiers
      else parse_modifier_parts L (split_char (CHR '','') s) default_modifiers)"

section \<open>Rule lines\<close>

text \<open>
  \<open>parse_line\<close>, one definition per rule format, tried in the source's order. The result
  \<open>Inr None\<close> is \<open>Ok(None)\<close>, a line that is skipped.
\<close>

type_synonym ('r, 'q, 'n) line_result = "parse_error + ('r, 'q, 'n) parsed_rule option"

definition parse_regex_rule ::
    "('r, 'q, 'n) parser_lib \<Rightarrow> string \<Rightarrow> bool \<Rightarrow> string \<Rightarrow> ('r, 'q, 'n) line_result" where
  "parse_regex_rule L line allow after_open =
     (case find_char (CHR ''/'') after_open of
        None \<Rightarrow> Inl (Unrecognized line)
      | Some close_offset \<Rightarrow>
          (let pattern = take close_offset after_open; after = drop (close_offset + 1) after_open in
           case (case strip_prefix ''$'' after of
                   Some mod_str \<Rightarrow> parse_modifiers L mod_str
                 | None \<Rightarrow> if after = [] then Inr default_modifiers else Inl (Unrecognized line)) of
             Inl e \<Rightarrow> Inl e
           | Inr mods \<Rightarrow>
               if pattern = [] then Inl Empty
               else (case regex_new L (''(?i)'' @ pattern) of
                       Inl e \<Rightarrow> Inl (InvalidRegex pattern e)
                     | Inr regex \<Rightarrow> Inr (Some (Regex regex line mods allow)))))"

definition parse_adblock_rule ::
    "('r, 'q, 'n) parser_lib \<Rightarrow> string \<Rightarrow> bool \<Rightarrow> string \<Rightarrow> ('r, 'q, 'n) line_result" where
  "parse_adblock_rule L line allow after =
     (let (rule_body, mod_str) = (case find_char (CHR ''$'') after of
                                    Some idx \<Rightarrow> (take idx after, drop (idx + 1) after)
                                  | None \<Rightarrow> (after, [])) in
      case parse_modifiers L mod_str of
        Inl e \<Rightarrow> Inl e
      | Inr mods \<Rightarrow>
          (let pat = (case strip_suffix ''^'' rule_body of Some p \<Rightarrow> p | None \<Rightarrow> rule_body) in
           if pat = [] then Inl Empty
           else if CHR ''*'' \<in> set pat then
             (case compile_wildcard L pat of
                Inl e \<Rightarrow> Inl e
              | Inr regex \<Rightarrow> Inr (Some (Pattern regex line mods allow)))
           else (case normalize_domain pat of
                   Inl e \<Rightarrow> Inl e
                 | Inr domain \<Rightarrow> Inr (Some (DomainBlock domain mods allow)))))"

definition plain_rule :: "string \<Rightarrow> bool \<Rightarrow> ('r, 'q, 'n) line_result" where
  "plain_rule s allow =
     (case normalize_domain s of
        Inl e \<Rightarrow> Inl e
      | Inr domain \<Rightarrow> Inr (Some (DomainBlock domain default_modifiers allow)))"

definition parse_hosts_rule :: "bool \<Rightarrow> string list \<Rightarrow> ('r, 'q, 'n) line_result" where
  "parse_hosts_rule allow tokens =
     (let t0 = hd tokens in
      if t0 \<noteq> ''0.0.0.0'' \<and> t0 \<noteq> ''127.0.0.1'' \<and> t0 \<noteq> ''::'' \<and> t0 \<noteq> ''::1''
      then Inl (InvalidHostsIp t0)
      else (let domain = last tokens in
            if eq_ignore_ascii_case domain ''localhost''
              \<or> eq_ignore_ascii_case domain ''localhost.localdomain''
              \<or> eq_ignore_ascii_case domain ''broadcasthost''
            then Inr None
            else plain_rule domain allow))"

definition parse_line :: "('r, 'q, 'n) parser_lib \<Rightarrow> string \<Rightarrow> ('r, 'q, 'n) line_result" where
  "parse_line L raw =
     (let line = trim raw in
      if line = [] \<or> starts_with ''#'' line \<or> starts_with ''!'' line \<or> starts_with ''['' line
      then Inr None
      else
        (let (allow, body) = (case strip_prefix ''@@'' line of
                                Some rest \<Rightarrow> (True, rest) | None \<Rightarrow> (False, line)) in
         case strip_prefix ''/'' body of
           Some after_open \<Rightarrow> parse_regex_rule L line allow after_open
         | None \<Rightarrow>
         (case strip_prefix ''||'' body of
            Some after \<Rightarrow> parse_adblock_rule L line allow after
          | None \<Rightarrow>
          (let wild = (case strip_prefix ''*.'' body of
                         None \<Rightarrow> None
                       | Some stripped \<Rightarrow>
                           (if CHR ''*'' \<notin> set stripped \<and> CHR ''/'' \<notin> set stripped
                              \<and> CHR ''.'' \<in> set stripped \<and> is_valid_domain stripped
                            then Some stripped else None)) in
           case wild of
             Some stripped \<Rightarrow> plain_rule stripped allow
           | None \<Rightarrow>
           (let tokens = split_whitespace body in
            if length tokens \<ge> 2 then parse_hosts_rule allow tokens
            else if length tokens = 1 \<and> CHR ''.'' \<in> set body \<and> is_valid_domain body
            then plain_rule body allow
            else Inl (Unrecognized line))))))"

section \<open>Lines without white space\<close>

text \<open>Bytes that no white-space sequence contains.\<close>

definition graphic :: "char \<Rightarrow> bool" where
  "graphic c \<longleftrightarrow> 33 \<le> code c \<and> code c \<le> 126"

lemma ws_seqs_ends:
  "q \<in> set ws_seqs \<Longrightarrow> q \<noteq> [] \<and> \<not> graphic (hd q) \<and> \<not> graphic (last q)"
  by (auto simp: ws_seqs_def graphic_def)

lemma strip_any_None: "strip_any qs s = None \<longleftrightarrow> (\<forall>q \<in> set qs. strip_prefix q s = None)"
  by (induction qs) (auto split: option.splits)

lemma strip_ws_graphic: "s = [] \<or> graphic (hd s) \<Longrightarrow> strip_any ws_seqs s = None"
  unfolding strip_any_None strip_prefix_None using ws_seqs_ends by fastforce

lemma strip_ws_rev_graphic:
  "s = [] \<or> graphic (last s) \<Longrightarrow> strip_any (map rev ws_seqs) (rev s) = None"
  unfolding strip_any_None strip_prefix_None
  using ws_seqs_ends by (fastforce simp: rev_swap)

lemma trim_graphic: "s \<noteq> [] \<Longrightarrow> graphic (hd s) \<Longrightarrow> graphic (last s) \<Longrightarrow> trim s = s"
  by (simp add: trim_def trim_with.simps strip_ws_graphic strip_ws_rev_graphic)

lemma split_ws_word:
  "list_all graphic s \<Longrightarrow> split_ws_aux acc s = (if acc @ s = [] then [] else [acc @ s])"
proof (induction s arbitrary: acc)
  case Nil
  then show ?case by (simp add: split_ws_aux.simps strip_ws_graphic)
next
  case (Cons c s)
  then show ?case by (subst split_ws_aux.simps) (simp add: strip_ws_graphic)
qed

lemma strip_ws_space [simp]: "strip_any ws_seqs (CHR '' '' # s) = Some s"
  by (simp add: ws_seqs_def char_of_eq_iff)

lemma split_ws_space:
  "list_all graphic s \<Longrightarrow>
   split_ws_aux acc (s @ CHR '' '' # t) = (if acc @ s = [] then [] else [acc @ s]) @ split_ws_aux [] t"
proof (induction s arbitrary: acc)
  case Nil
  then show ?case by (subst split_ws_aux.simps) simp
next
  case (Cons c s)
  then show ?case by (subst split_ws_aux.simps) (simp add: strip_ws_graphic)
qed

lemma split_whitespace_word: "list_all graphic s \<Longrightarrow> s \<noteq> [] \<Longrightarrow> split_whitespace s = [s]"
  by (simp add: split_whitespace_def split_ws_word)

lemma split_whitespace_two:
  "list_all graphic a \<Longrightarrow> a \<noteq> [] \<Longrightarrow>
   split_whitespace (a @ CHR '' '' # t) = a # split_whitespace t"
  by (simp add: split_whitespace_def split_ws_space)

section \<open>Domains the parser accepts\<close>

lemma domain_char_graphic: "domain_char c \<Longrightarrow> graphic c"
  by (auto simp: domain_char_def graphic_def is_ascii_alphanumeric_def is_ascii_digit_def
      is_ascii_uppercase_def is_ascii_lowercase_def code_def)

lemma domain_char_lower [simp]: "domain_char (ascii_lower c) = domain_char c"
  by (cases "is_ascii_uppercase c")
     (auto simp: domain_char_def is_ascii_alphanumeric_def ascii_lower_def
      is_ascii_uppercase_def is_ascii_lowercase_def)

lemma valid_domain_lower: "is_valid_domain s \<Longrightarrow> is_valid_domain (to_ascii_lowercase s)"
  by (auto simp: is_valid_domain_def list_all_iff split: if_splits)

lemma normalize_domain_Inr:
  "normalize_domain s = Inr d \<longleftrightarrow>
     is_valid_domain (trim_end_matches (CHR ''.'') s) \<and> d = normalize_owned s"
  by (auto simp: normalize_domain_def normalize_owned_def Let_def)

lemma normalize_domain_sound:
  "normalize_domain s = Inr d \<Longrightarrow> is_valid_domain d \<and> canonical d"
  by (auto simp: normalize_domain_Inr normalize_owned_def canonical_lower_trim valid_domain_lower
      intro: canonical_lower_trim [of s, unfolded normalize_owned_def])

text \<open>What the filter relies on: a domain rule carries a valid name in canonical form.\<close>

definition rule_domain_ok :: "('r, 'q, 'n) parsed_rule \<Rightarrow> bool" where
  "rule_domain_ok r = (case r of DomainBlock d _ _ \<Rightarrow> is_valid_domain d \<and> canonical d | _ \<Rightarrow> True)"

lemma plain_rule_ok: "plain_rule s a = Inr (Some r) \<Longrightarrow> rule_domain_ok r"
  by (auto simp: plain_rule_def rule_domain_ok_def dest: normalize_domain_sound split: sum.splits)

lemma parse_adblock_rule_ok: "parse_adblock_rule L l a s = Inr (Some r) \<Longrightarrow> rule_domain_ok r"
  by (auto simp: parse_adblock_rule_def rule_domain_ok_def Let_def
      dest: normalize_domain_sound split: sum.splits if_splits prod.splits)

lemma parse_regex_rule_ok: "parse_regex_rule L l a s = Inr (Some r) \<Longrightarrow> rule_domain_ok r"
  by (auto simp: parse_regex_rule_def rule_domain_ok_def Let_def
      split: sum.splits if_splits option.splits)

lemma parse_hosts_rule_ok: "parse_hosts_rule a ts = Inr (Some r) \<Longrightarrow> rule_domain_ok r"
  by (auto simp: parse_hosts_rule_def Let_def dest: plain_rule_ok split: if_splits)

lemma parse_line_rule_ok: "parse_line L raw = Inr (Some r) \<Longrightarrow> rule_domain_ok r"
  by (auto simp: parse_line_def Let_def
      dest: plain_rule_ok parse_adblock_rule_ok parse_regex_rule_ok parse_hosts_rule_ok
      split: if_splits option.splits prod.splits)

section \<open>The formats agree\<close>

lemma graphic_consts [simp]:
  "graphic (CHR ''|'')" "graphic (CHR ''^'')" "graphic (CHR ''@'')" "graphic (CHR ''*'')"
  "graphic (CHR ''.'')" "graphic (CHR ''0'')" "graphic (CHR ''#'')"
  by (simp_all add: graphic_def code_def)

lemma not_domain_char [simp]:
  "\<not> domain_char (CHR ''#'')" "\<not> domain_char (CHR ''!'')" "\<not> domain_char (CHR ''['')"
  "\<not> domain_char (CHR ''@'')" "\<not> domain_char (CHR ''/'')" "\<not> domain_char (CHR ''|'')"
  "\<not> domain_char (CHR ''*'')" "\<not> domain_char (CHR ''$'')" "\<not> domain_char (CHR ''^'')"
  by (simp_all add: domain_char_def is_ascii_alphanumeric_def is_ascii_digit_def
      is_ascii_uppercase_def is_ascii_lowercase_def code_def)

text \<open>A name as block lists spell it: valid, with a dot inside and none at the end.\<close>

definition plain_domain :: "string \<Rightarrow> bool" where
  "plain_domain d \<longleftrightarrow> is_valid_domain d \<and> CHR ''.'' \<in> set d \<and> last d \<noteq> CHR ''.''"

lemma plain_domainD:
  assumes "plain_domain d"
  shows "is_valid_domain d" "d \<noteq> []" "list_all domain_char d" "list_all graphic d"
    "CHR ''.'' \<in> set d" "trim_end_matches (CHR ''.'') d = d"
  using assms
  by (auto simp: plain_domain_def is_valid_domain_def list_all_iff trim_end_matches_fix
      intro: domain_char_graphic split: if_splits)

lemma plain_rule_plain:
  "plain_domain d \<Longrightarrow>
   plain_rule d a = Inr (Some (DomainBlock (normalize_owned d) default_modifiers a))"
  using plain_domainD [of d] by (simp add: plain_rule_def normalize_domain_def normalize_owned_def)

lemma starts_with_graphic: "starts_with [c] s \<longleftrightarrow> s \<noteq> [] \<and> hd s = c"
  by (cases s) (auto simp: starts_with_iff)

lemma strip_prefix_hd_None: "s \<noteq> [] \<Longrightarrow> hd s \<noteq> c \<Longrightarrow> strip_prefix (c # p) s = None"
  by (cases s) auto

lemma hd_domain_char: "list_all domain_char d \<Longrightarrow> d \<noteq> [] \<Longrightarrow> domain_char (hd d)"
  by (cases d) auto

lemma last_domain_char: "list_all domain_char d \<Longrightarrow> d \<noteq> [] \<Longrightarrow> domain_char (last d)"
  by (simp add: list_all_iff)

lemma parse_bare:
  assumes "plain_domain d"
  shows "parse_line L d = Inr (Some (DomainBlock (normalize_owned d) default_modifiers False))"
proof -
  note pd = plain_domainD [OF assms]
  have hd: "domain_char (hd d)" and lst: "domain_char (last d)"
    using pd by (auto intro: hd_domain_char last_domain_char)
  have t: "trim d = d" using pd hd lst by (intro trim_graphic domain_char_graphic)
  have n: "hd d \<noteq> c" if "\<not> domain_char c" for c using hd that by auto
  show ?thesis
    using pd n t
    by (simp add: parse_line_def starts_with_graphic strip_prefix_hd_None split_whitespace_word
        plain_rule_plain [OF assms] Let_def)
qed

lemma parse_adblock_plain:
  assumes "plain_domain d"
  shows "parse_adblock_rule L line a (d @ ''^'') =
    Inr (Some (DomainBlock (normalize_owned d) default_modifiers a))"
proof -
  note pd = plain_domainD [OF assms]
  have no: "CHR ''$'' \<notin> set (d @ ''^'')" "CHR ''*'' \<notin> set d"
    using pd(3) by (auto simp: list_all_iff)
  have f: "find_char (CHR ''$'') (d @ ''^'') = None" using no(1) by simp
  have st: "strip_suffix ''^'' (d @ ''^'') = Some d" by (simp add: strip_suffix_Some)
  show ?thesis
    using pd no(2) by (simp add: f st parse_adblock_rule_def parse_modifiers_def normalize_domain_def
        normalize_owned_def Let_def)
qed

lemma parse_adblock_line:
  assumes "plain_domain d"
  shows "parse_line L (''||'' @ d @ ''^'') =
    Inr (Some (DomainBlock (normalize_owned d) default_modifiers False))"
  using parse_adblock_plain [OF assms]
  by (simp add: parse_line_def trim_graphic starts_with_graphic Let_def)

lemma parse_exception_line:
  assumes "plain_domain d"
  shows "parse_line L (''@@||'' @ d @ ''^'') =
    Inr (Some (DomainBlock (normalize_owned d) default_modifiers True))"
  using parse_adblock_plain [OF assms]
  by (simp add: parse_line_def trim_graphic starts_with_graphic Let_def)

lemma parse_wildcard_domain:
  assumes "plain_domain d"
  shows "parse_line L (''*.'' @ d) =
    Inr (Some (DomainBlock (normalize_owned d) default_modifiers False))"
proof -
  note pd = plain_domainD [OF assms]
  have "graphic (last d)" using pd by (auto intro: last_domain_char domain_char_graphic)
  moreover have "CHR ''*'' \<notin> set d" "CHR ''/'' \<notin> set d" using pd(3) by (auto simp: list_all_iff)
  ultimately show ?thesis
    using pd by (simp add: parse_line_def trim_graphic starts_with_graphic plain_rule_plain [OF assms] Let_def)
qed

lemma hosts_line_prefix:
  assumes "t \<noteq> []" and "graphic (last t)"
  shows "parse_line L (''0.0.0.0 '' @ t) =
    (let tokens = ''0.0.0.0'' # split_whitespace t in
     if length tokens \<ge> 2 then parse_hosts_rule False tokens
     else Inl (Unrecognized (''0.0.0.0 '' @ t)))"
proof -
  have tr: "trim (''0.0.0.0 '' @ t) = ''0.0.0.0 '' @ t"
    using assms by (intro trim_graphic) simp_all
  have sp: "split_whitespace (''0.0.0.0 '' @ t) = ''0.0.0.0'' # split_whitespace t"
    using split_whitespace_two [of "''0.0.0.0''" t] by simp
  have v: "\<not> is_valid_domain (''0.0.0.0 '' @ t)"
    by (simp add: is_valid_domain_def domain_char_def is_ascii_alphanumeric_def is_ascii_digit_def
      is_ascii_uppercase_def is_ascii_lowercase_def code_def)
  show ?thesis
    using tr sp v by (simp add: parse_line_def starts_with_graphic Let_def)
qed

lemma parse_hosts_line:
  assumes "plain_domain d" and "\<not> eq_ignore_ascii_case d ''localhost.localdomain''"
  shows "parse_line L (''0.0.0.0 '' @ d) =
    Inr (Some (DomainBlock (normalize_owned d) default_modifiers False))"
proof -
  note pd = plain_domainD [OF assms(1)]
  have g: "graphic (last d)" using pd by (auto intro: last_domain_char domain_char_graphic)
  have dot: "CHR ''.'' \<in> set (to_ascii_lowercase d)" using pd(5) by force
  have "\<not> eq_ignore_ascii_case d ''localhost''" "\<not> eq_ignore_ascii_case d ''broadcasthost''"
    using dot by (auto simp: eq_ignore_ascii_case_def ascii_lower_def is_ascii_uppercase_def code_def)
  with assms pd show ?thesis
    by (subst hosts_line_prefix [OF pd(2) g])
      (simp add: split_whitespace_word parse_hosts_rule_def plain_rule_plain)
qed

section \<open>Properties\<close>

text \<open>
  C24: every domain the parser hands to the filter is a valid name (1 to 253 bytes, letters,
  digits, dot, hyphen, underscore) in canonical form (lower case, no trailing dot), whatever the
  line's format and modifiers; so the exact comparisons of the filter are sound on it.
\<close>

theorem parse_line_canonical:
  assumes "parse_line L raw = Inr (Some (DomainBlock d m a))"
  shows "is_valid_domain d \<and> canonical d \<and> normalize_owned d = d"
  using parse_line_rule_ok [OF assms] by (simp add: rule_domain_ok_def normalize_owned_id)

text \<open>
  A concrete instance of the libraries: regexes and record types are their own text, a network
  is a single address.
\<close>

definition ex_parser_lib :: "(string, string, ip_addr) parser_lib" where
  "ex_parser_lib = \<lparr>
     regex_new = Inr,
     regex_is_match = (\<lambda>r s. r = ''(?i)'' @ s),
     regex_escape = (\<lambda>c. c),
     record_type_from_str = (\<lambda>t. if t \<in> {''A'', ''AAAA'', ''TXT''} then Some t else None),
     ipnetwork_parse = (\<lambda>s. None),
     ipnetwork_from = (\<lambda>ip. ip),
     ipnetwork_contains = (\<lambda>n ip. n = ip)\<rparr>"

theorem parse_line_canonical_witness:
  "parse_line ex_parser_lib ''||Ads.COM.^$important'' =
     Inr (Some (DomainBlock ''ads.com'' (default_modifiers\<lparr>important := True\<rparr>) False)) \<and>
   is_valid_domain ''ads.com'' \<and> canonical ''ads.com''"
proof -
  have p: "parse_line ex_parser_lib ''||Ads.COM.^$important'' =
     Inr (Some (DomainBlock ''ads.com'' (default_modifiers\<lparr>important := True\<rparr>) False))"
    by (simp add: parse_line_def trim_graphic graphic_def starts_with_graphic parse_adblock_rule_def
        parse_modifiers_def apply_modifier_def normalize_domain_def is_valid_domain_def Let_def
        split_once_def trim_end_matches_def strip_suffix_def domain_char_def
        is_ascii_alphanumeric_def is_ascii_digit_def is_ascii_lowercase_def is_ascii_uppercase_def
        code_def ascii_lower_def char_of_eq_iff)
  from parse_line_canonical [OF p] p show ?thesis by blast
qed

text \<open>
  The formats agree. A plain domain written as an adblock rule, an OISD wildcard, a hosts
  line or on its own yields the same block rule, and the exception form the same rule with
  \<open>allow\<close> set.
\<close>

theorem formats_agree:
  assumes "plain_domain d" and "\<not> eq_ignore_ascii_case d ''localhost.localdomain''"
  shows "parse_line L d = Inr (Some (DomainBlock (normalize_owned d) default_modifiers False)) \<and>
    parse_line L (''||'' @ d @ ''^'') = parse_line L d \<and>
    parse_line L (''*.'' @ d) = parse_line L d \<and>
    parse_line L (''0.0.0.0 '' @ d) = parse_line L d \<and>
    parse_line L (''@@||'' @ d @ ''^'') =
      Inr (Some (DomainBlock (normalize_owned d) default_modifiers True))"
  using parse_bare [OF assms(1)] parse_adblock_line [OF assms(1)] parse_wildcard_domain [OF assms(1)]
    parse_hosts_line [OF assms] parse_exception_line [OF assms(1)]
  by metis

theorem formats_agree_witness:
  "parse_line ex_parser_lib ''0.0.0.0 Ads.Example.com'' =
     Inr (Some (DomainBlock ''ads.example.com'' default_modifiers False))"
proof -
  have d: "plain_domain ''Ads.Example.com''" by code_simp
  have l: "\<not> eq_ignore_ascii_case ''Ads.Example.com'' ''localhost.localdomain''" by code_simp
  have n: "normalize_owned ''Ads.Example.com'' = ''ads.example.com''" by code_simp
  from formats_agree [OF d l, of ex_parser_lib] n show ?thesis by simp
qed

text \<open>
  On a hosts line only the last token counts, comments included. For
  \<open>0.0.0.0 d # w\<close> the parser returns the rule for the comment's last word \<open>w\<close>, and \<open>d\<close>, the
  domain the line lists, gets no rule.
\<close>

theorem hosts_line_last_token:
  assumes "list_all graphic d" and "d \<noteq> []" and "is_valid_domain w" and "last w \<noteq> CHR ''.''"
    and "\<not> eq_ignore_ascii_case w ''localhost''"
    and "\<not> eq_ignore_ascii_case w ''localhost.localdomain''"
    and "\<not> eq_ignore_ascii_case w ''broadcasthost''"
  shows "parse_line L (''0.0.0.0 '' @ d @ '' # '' @ w) =
    Inr (Some (DomainBlock (to_ascii_lowercase w) default_modifiers False))"
proof -
  have w: "w \<noteq> []" "list_all domain_char w" "list_all graphic w"
    using assms(3) by (auto simp: is_valid_domain_def list_all_iff intro: domain_char_graphic split: if_splits)
  have sp: "split_whitespace (d @ '' # '' @ w) = [d, ''#'', w]"
    using split_whitespace_two [OF assms(1,2), of "''# '' @ w"] split_whitespace_two [of "''#''" w]
      split_whitespace_word [OF w(3,1)] by simp
  have "graphic (last (d @ '' # '' @ w))"
    using w by (auto intro: last_domain_char domain_char_graphic)
  then have "parse_line L (''0.0.0.0 '' @ (d @ '' # '' @ w)) =
      parse_hosts_rule False [''0.0.0.0'', d, ''#'', w]"
    by (subst hosts_line_prefix) (simp_all add: sp [simplified])
  moreover have "trim_end_matches (CHR ''.'') w = w"
    using assms(4) w(1) by (simp add: trim_end_matches_fix)
  ultimately show ?thesis
    using assms(3,5-) by (simp add: parse_hosts_rule_def plain_rule_def normalize_domain_def)
qed

theorem hosts_line_last_token_witness:
  "parse_line ex_parser_lib ''0.0.0.0 ads.example.com # tracker'' =
     Inr (Some (DomainBlock ''tracker'' default_modifiers False))"
proof -
  have "list_all graphic ''ads.example.com''" "is_valid_domain ''tracker''"
    "\<not> eq_ignore_ascii_case ''tracker'' ''localhost''"
    "\<not> eq_ignore_ascii_case ''tracker'' ''localhost.localdomain''"
    "\<not> eq_ignore_ascii_case ''tracker'' ''broadcasthost''"
    by code_simp+
  moreover have "to_ascii_lowercase ''tracker'' = ''tracker''" by code_simp
  ultimately show ?thesis
    using hosts_line_last_token [of "''ads.example.com''" "''tracker''" ex_parser_lib] by simp
qed

end
