(* ===== verification/Dns_Filter.thy ===== *)
theory Dns_Filter
  imports Filter_Parser
begin

text \<open>
  The compiled DNS filter: one source (\<open>dns_filter/filter.rs\<close>), a profile, which is a list of
  sources (\<open>filter_profile.rs\<close>), and a device, which is a list of profiles
  (\<open>device_context.rs\<close>). The three loops share one contract, the locale \<open>outcome_loop\<close>: they
  compute the join of their elements' outcomes, where the first rewrite wins and otherwise the
  highest rank. A \<open>HashSet\<close> is a set; the \<open>ArcSwap\<close> slots of a profile and a device are
  dereferenced before the checks here (the slots are modelled in \<open>Filter_Service\<close>).
\<close>

section \<open>Outcomes\<close>

datatype match_kind = Block | Allow | ImportantBlock | ImportantAllow

primrec rank :: "match_kind \<Rightarrow> nat" where
  "rank Block = 1"
| "rank Allow = 2"
| "rank ImportantBlock = 3"
| "rank ImportantAllow = 4"

primrec blocks :: "match_kind \<Rightarrow> bool" where
  "blocks Block = True"
| "blocks Allow = False"
| "blocks ImportantBlock = True"
| "blocks ImportantAllow = False"

datatype match_outcome = NoMatch | Match match_kind | Rewrite ip_addr

datatype profile_match = PNone | PDecided match_kind | PRewrite ip_addr

datatype filter_action = Pass | BlockQuery | RewriteTo ip_addr

text \<open>The kinds are ordered by rank, which is injective.\<close>

lemma rank_inject [simp]: "rank a = rank b \<longleftrightarrow> a = b"
  by (cases a; cases b) simp_all

instantiation match_kind :: linorder
begin

definition less_eq_match_kind :: "match_kind \<Rightarrow> match_kind \<Rightarrow> bool" where
  "less_eq_match_kind a b \<longleftrightarrow> rank a \<le> rank b"

definition less_match_kind :: "match_kind \<Rightarrow> match_kind \<Rightarrow> bool" where
  "less_match_kind a b \<longleftrightarrow> rank a < rank b"

instance
  by standard (auto simp: less_eq_match_kind_def less_match_kind_def)

end

lemmas match_kind_ord = less_eq_match_kind_def less_match_kind_def

instantiation match_kind :: finite
begin

instance
proof
  have "(UNIV :: match_kind set) = {Block, Allow, ImportantBlock, ImportantAllow}"
    using match_kind.exhaust by blast
  then show "finite (UNIV :: match_kind set)" by (rule ssubst) simp
qed

end

section \<open>One source\<close>

record filter_inputs =
  in_blocked_domains :: "string list"
  in_allowlist :: "string list"
  in_custom_rules :: "string list"

record ('r, 'q, 'n) dns_filter =
  blocked_domains :: "string set"
  allowed_domains :: "string set"
  complex :: "('r, 'q, 'n) parsed_rule list"

record filter_stats =
  blocked_count :: nat
  allowed_count :: nat
  complex_count :: nat

text \<open>The loop of \<open>build\<close> over the custom rules; an unparsable line is skipped.\<close>

fun add_custom_rules ::
    "('r, 'q, 'n) parser_lib \<Rightarrow> string list \<Rightarrow> ('r, 'q, 'n) dns_filter \<Rightarrow> ('r, 'q, 'n) dns_filter" where
  "add_custom_rules L [] f = f"
| "add_custom_rules L (line # lines) f =
     add_custom_rules L lines
       (case parse_line L line of
          Inr None \<Rightarrow> f
        | Inl e \<Rightarrow> f
        | Inr (Some rule) \<Rightarrow>
            (case rule of
               DomainBlock domain mods allow \<Rightarrow>
                 (if modifiers_empty mods then
                    (if allow then f\<lparr>allowed_domains := insert domain (allowed_domains f)\<rparr>
                     else f\<lparr>blocked_domains := insert domain (blocked_domains f)\<rparr>)
                  else f\<lparr>complex := complex f @ [rule]\<rparr>)
             | _ \<Rightarrow> f\<lparr>complex := complex f @ [rule]\<rparr>))"

definition build :: "('r, 'q, 'n) parser_lib \<Rightarrow> filter_inputs \<Rightarrow> ('r, 'q, 'n) dns_filter" where
  "build L inputs =
     add_custom_rules L (in_custom_rules inputs)
       \<lparr>blocked_domains = set (map normalize_owned (in_blocked_domains inputs)),
        allowed_domains = set (map normalize_owned (in_allowlist inputs)),
        complex = []\<rparr>"

definition empty_filter :: "('r, 'q, 'n) dns_filter" where
  "empty_filter = \<lparr>blocked_domains = {}, allowed_domains = {}, complex = []\<rparr>"

definition filter_is_empty :: "('r, 'q, 'n) dns_filter \<Rightarrow> bool" where
  "filter_is_empty f \<longleftrightarrow> blocked_domains f = {} \<and> allowed_domains f = {} \<and> complex f = []"

definition stats :: "('r, 'q, 'n) dns_filter \<Rightarrow> filter_stats" where
  "stats f = \<lparr>blocked_count = card (blocked_domains f), allowed_count = card (allowed_domains f),
              complex_count = length (complex f)\<rparr>"

text \<open>\<open>BlocklistFilterBuilder\<close>: its state is the set of blocked domains so far.\<close>

definition builder_new :: "string set" where
  "builder_new = {}"

definition builder_insert :: "string \<Rightarrow> string set \<Rightarrow> string set" where
  "builder_insert domain S = insert (normalize_owned domain) S"

definition builder_finish :: "string set \<Rightarrow> ('r, 'q, 'n) dns_filter" where
  "builder_finish S = empty_filter\<lparr>blocked_domains := S\<rparr>"

definition classify :: "('r, 'q, 'n) parsed_rule \<Rightarrow> match_kind" where
  "classify rule =
     (case (important (modifiers rule), is_allow rule) of
        (True, True) \<Rightarrow> ImportantAllow
      | (True, False) \<Rightarrow> ImportantBlock
      | (False, True) \<Rightarrow> Allow
      | (False, False) \<Rightarrow> Block)"

definition upgrade :: "match_kind option \<Rightarrow> match_kind \<Rightarrow> match_kind option" where
  "upgrade cur new =
     (if (case cur of None \<Rightarrow> True | Some c \<Rightarrow> rank new > rank c) then Some new else cur)"

fun rule_matches :: "('r, 'q, 'n) parser_lib \<Rightarrow> ('r, 'q, 'n) parsed_rule \<Rightarrow> string \<Rightarrow> bool" where
  "rule_matches L (DomainBlock d _ _) domain = is_subdomain_of domain d"
| "rule_matches L (Pattern regex _ _ _) domain = regex_is_match L regex domain"
| "rule_matches L (Regex regex _ _ _) domain = regex_is_match L regex domain"

definition modifiers_apply ::
    "('r, 'q, 'n) parser_lib \<Rightarrow> ('q, 'n) rule_modifiers \<Rightarrow> 'q \<Rightarrow> ip_addr \<Rightarrow> bool" where
  "modifiers_apply L mods qtype client =
     (if (case dns_types mods of None \<Rightarrow> False | Some types \<Rightarrow> qtype \<notin> set types) then False
      else if (case clients mods of None \<Rightarrow> False
               | Some nets \<Rightarrow> \<not> list_ex (\<lambda>n. ipnetwork_contains L n client) nets) then False
      else True)"

text \<open>The loop of \<open>check\<close> over the complex rules: \<open>Inl ip\<close> is the early return of a rewrite.\<close>

fun check_complex ::
    "('r, 'q, 'n) parser_lib \<Rightarrow> string \<Rightarrow> 'q \<Rightarrow> ip_addr \<Rightarrow> match_kind option \<Rightarrow>
     ('r, 'q, 'n) parsed_rule list \<Rightarrow> ip_addr + match_kind option" where
  "check_complex L d qtype client best [] = Inr best"
| "check_complex L d qtype client best (rule # rules) =
     (if \<not> rule_matches L rule d then check_complex L d qtype client best rules
      else if \<not> modifiers_apply L (modifiers rule) qtype client
      then check_complex L d qtype client best rules
      else (case rewrite_to (modifiers rule) of
              Some ip \<Rightarrow> Inl ip
            | None \<Rightarrow> check_complex L d qtype client (upgrade best (classify rule)) rules))"

definition check ::
    "('r, 'q, 'n) parser_lib \<Rightarrow> ('r, 'q, 'n) dns_filter \<Rightarrow> string \<Rightarrow> 'q \<Rightarrow> ip_addr \<Rightarrow> match_outcome" where
  "check L f domain qtype client =
     (let d = normalize domain in
      case check_complex L d qtype client None (complex f) of
        Inl ip \<Rightarrow> Rewrite ip
      | Inr best \<Rightarrow>
          (let best = (if matches_subdomain d (allowed_domains f) then upgrade best Allow else best);
               best = (if matches_subdomain d (blocked_domains f) then upgrade best Block else best)
           in case best of None \<Rightarrow> NoMatch | Some k \<Rightarrow> Match k))"

definition check_action ::
    "('r, 'q, 'n) parser_lib \<Rightarrow> ('r, 'q, 'n) dns_filter \<Rightarrow> string \<Rightarrow> 'q \<Rightarrow> ip_addr \<Rightarrow> filter_action" where
  "check_action L f domain qtype client =
     (case check L f domain qtype client of
        Rewrite ip \<Rightarrow> RewriteTo ip
      | Match kind \<Rightarrow> (if blocks kind then BlockQuery else Pass)
      | NoMatch \<Rightarrow> Pass)"

section \<open>Profiles and devices\<close>

fun profile_loop ::
    "('r, 'q, 'n) parser_lib \<Rightarrow> string \<Rightarrow> 'q \<Rightarrow> ip_addr \<Rightarrow> match_kind option \<Rightarrow>
     ('r, 'q, 'n) dns_filter list \<Rightarrow> profile_match" where
  "profile_loop L domain qtype client best [] =
     (case best of Some k \<Rightarrow> PDecided k | None \<Rightarrow> PNone)"
| "profile_loop L domain qtype client best (f # fs) =
     (case check L f domain qtype client of
        Rewrite ip \<Rightarrow> PRewrite ip
      | Match kind \<Rightarrow>
          profile_loop L domain qtype client
            (if (case best of None \<Rightarrow> True | Some c \<Rightarrow> rank kind > rank c) then Some kind else best) fs
      | NoMatch \<Rightarrow> profile_loop L domain qtype client best fs)"

definition profile_check ::
    "('r, 'q, 'n) parser_lib \<Rightarrow> ('r, 'q, 'n) dns_filter list \<Rightarrow> string \<Rightarrow> 'q \<Rightarrow> ip_addr \<Rightarrow> profile_match" where
  "profile_check L filters domain qtype client = profile_loop L domain qtype client None filters"

fun device_loop ::
    "('r, 'q, 'n) parser_lib \<Rightarrow> string \<Rightarrow> 'q \<Rightarrow> ip_addr \<Rightarrow> match_kind option \<Rightarrow>
     ('r, 'q, 'n) dns_filter list list \<Rightarrow> filter_action" where
  "device_loop L domain qtype client best [] =
     (case best of Some k \<Rightarrow> (if blocks k then BlockQuery else Pass) | None \<Rightarrow> Pass)"
| "device_loop L domain qtype client best (p # ps) =
     (case profile_check L p domain qtype client of
        PRewrite ip \<Rightarrow> RewriteTo ip
      | PDecided kind \<Rightarrow>
          device_loop L domain qtype client
            (if (case best of None \<Rightarrow> True | Some c \<Rightarrow> rank kind > rank c) then Some kind else best) ps
      | PNone \<Rightarrow> device_loop L domain qtype client best ps)"

definition device_check ::
    "('r, 'q, 'n) parser_lib \<Rightarrow> ('r, 'q, 'n) dns_filter list list \<Rightarrow> string \<Rightarrow> 'q \<Rightarrow> ip_addr \<Rightarrow> filter_action" where
  "device_check L profiles domain qtype client = device_loop L domain qtype client None profiles"

section \<open>The join of outcomes\<close>

text \<open>
  What aggregation means: the first rewrite wins, otherwise the strongest kind. The join is
  associative, so nested loops compute the join of everything below them.
\<close>

fun join :: "match_outcome \<Rightarrow> match_outcome \<Rightarrow> match_outcome" where
  "join (Rewrite ip) y = Rewrite ip"
| "join NoMatch y = y"
| "join (Match a) NoMatch = Match a"
| "join (Match a) (Match b) = Match (max a b)"
| "join (Match a) (Rewrite ip) = Rewrite ip"

definition joins :: "match_outcome list \<Rightarrow> match_outcome" where
  "joins xs = foldr join xs NoMatch"

fun of_best :: "match_kind option \<Rightarrow> match_outcome" where
  "of_best None = NoMatch"
| "of_best (Some k) = Match k"

lemma join_NoMatch [simp]: "join x NoMatch = x"
  by (cases x) simp_all

lemma join_assoc: "join (join x y) z = join x (join y z)"
  by (cases x; cases y; cases z) (simp_all add: max.assoc)

lemma joins_simps [simp]:
  "joins [] = NoMatch"
  "joins (x # xs) = join x (joins xs)"
  by (simp_all add: joins_def)

lemma joins_append [simp]: "joins (xs @ ys) = join (joins xs) (joins ys)"
  by (induction xs) (simp_all add: join_assoc)

lemma joins_concat: "joins (concat xss) = joins (map joins xss)"
  by (induction xss) simp_all

lemma of_best_upgrade: "of_best (upgrade best k) = join (of_best best) (Match k)"
  by (cases best) (auto simp: upgrade_def max_def less_eq_match_kind_def)

definition kinds :: "match_outcome list \<Rightarrow> match_kind set" where
  "kinds xs = {k. Match k \<in> set xs}"

fun first_rewrite :: "match_outcome list \<Rightarrow> ip_addr option" where
  "first_rewrite [] = None"
| "first_rewrite (Rewrite ip # xs) = Some ip"
| "first_rewrite (x # xs) = first_rewrite xs"

lemma kinds_simps [simp]:
  "kinds [] = {}"
  "kinds (NoMatch # xs) = kinds xs"
  "kinds (Rewrite ip # xs) = kinds xs"
  "kinds (Match k # xs) = insert k (kinds xs)"
  "kinds (xs @ ys) = kinds xs \<union> kinds ys"
  by (auto simp: kinds_def)

lemma first_rewrite_append [simp]:
  "first_rewrite (xs @ ys) = (case first_rewrite xs of None \<Rightarrow> first_rewrite ys | r \<Rightarrow> r)"
  by (induction xs rule: first_rewrite.induct) simp_all

lemma joins_char:
  "joins xs = (case first_rewrite xs of
     Some ip \<Rightarrow> Rewrite ip
   | None \<Rightarrow> if kinds xs = {} then NoMatch else Match (Max (kinds xs)))"
proof (induction xs)
  case (Cons x xs)
  then show ?case
    by (cases x; cases "first_rewrite xs") simp_all
qed simp

section \<open>The contract of the three loops\<close>

locale outcome_loop =
  fixes view :: "'a \<Rightarrow> match_outcome"
    and loop :: "match_kind option \<Rightarrow> 'a list \<Rightarrow> 'b"
    and result :: "match_outcome \<Rightarrow> 'b"
  assumes loop_Nil: "loop best [] = result (of_best best)"
    and loop_Rewrite: "view x = Rewrite ip \<Longrightarrow> loop best (x # xs) = result (Rewrite ip)"
    and loop_Match: "view x = Match k \<Longrightarrow> loop best (x # xs) = loop (upgrade best k) xs"
    and loop_NoMatch: "view x = NoMatch \<Longrightarrow> loop best (x # xs) = loop best xs"
begin

lemma loop_joins: "loop best xs = result (join (of_best best) (joins (map view xs)))"
proof (induction xs arbitrary: best)
  case Nil
  then show ?case by (simp add: loop_Nil)
next
  case (Cons x xs)
  show ?case
  proof (cases "view x")
    case NoMatch
    then show ?thesis by (simp add: loop_NoMatch Cons.IH)
  next
    case (Match k)
    then show ?thesis by (simp add: loop_Match Cons.IH of_best_upgrade join_assoc)
  next
    case (Rewrite ip)
    then show ?thesis by (cases best) (simp_all add: loop_Rewrite)
  qed
qed

lemma loop_start: "loop None xs = result (joins (map view xs))"
  by (simp add: loop_joins)

end

definition rule_outcome ::
    "('r, 'q, 'n) parser_lib \<Rightarrow> string \<Rightarrow> 'q \<Rightarrow> ip_addr \<Rightarrow> ('r, 'q, 'n) parsed_rule \<Rightarrow> match_outcome" where
  "rule_outcome L d qtype client rule =
     (if rule_matches L rule d \<and> modifiers_apply L (modifiers rule) qtype client
      then (case rewrite_to (modifiers rule) of
              Some ip \<Rightarrow> Rewrite ip | None \<Rightarrow> Match (classify rule))
      else NoMatch)"

fun complex_result :: "match_outcome \<Rightarrow> ip_addr + match_kind option" where
  "complex_result NoMatch = Inr None"
| "complex_result (Match k) = Inr (Some k)"
| "complex_result (Rewrite ip) = Inl ip"

fun profile_result :: "match_outcome \<Rightarrow> profile_match" where
  "profile_result NoMatch = PNone"
| "profile_result (Match k) = PDecided k"
| "profile_result (Rewrite ip) = PRewrite ip"

fun action :: "match_outcome \<Rightarrow> filter_action" where
  "action NoMatch = Pass"
| "action (Match k) = (if blocks k then BlockQuery else Pass)"
| "action (Rewrite ip) = RewriteTo ip"

definition profile_outcome ::
    "('r, 'q, 'n) parser_lib \<Rightarrow> ('r, 'q, 'n) dns_filter list \<Rightarrow> string \<Rightarrow> 'q \<Rightarrow> ip_addr \<Rightarrow> match_outcome" where
  "profile_outcome L p domain qtype client = joins (map (\<lambda>f. check L f domain qtype client) p)"

lemma complex_result_of_best [simp]: "complex_result (of_best b) = Inr b"
  by (cases b) simp_all

interpretation rules_loop:
  outcome_loop "rule_outcome L d qtype client" "check_complex L d qtype client" complex_result
  by unfold_locales (auto simp: rule_outcome_def split: if_splits option.splits)

interpretation sources_loop:
  outcome_loop "\<lambda>f. check L f domain qtype client" "profile_loop L domain qtype client" profile_result
  by unfold_locales (auto simp: upgrade_def split: option.splits)

lemma profile_check_outcome:
  "profile_check L p domain qtype client = profile_result (profile_outcome L p domain qtype client)"
  by (simp add: profile_check_def profile_outcome_def sources_loop.loop_start)

interpretation profiles_loop:
  outcome_loop "\<lambda>p. profile_outcome L p domain qtype client" "device_loop L domain qtype client" action
  by unfold_locales (auto simp: upgrade_def profile_check_outcome split: option.splits)

section \<open>The outcome of a source\<close>

definition set_outcomes :: "('r, 'q, 'n) dns_filter \<Rightarrow> string \<Rightarrow> match_outcome list" where
  "set_outcomes f d =
     (if matches_subdomain d (allowed_domains f) then [Match Allow] else []) @
     (if matches_subdomain d (blocked_domains f) then [Match Block] else [])"

definition source_outcomes ::
    "('r, 'q, 'n) parser_lib \<Rightarrow> ('r, 'q, 'n) dns_filter \<Rightarrow> string \<Rightarrow> 'q \<Rightarrow> ip_addr \<Rightarrow> match_outcome list" where
  "source_outcomes L f domain qtype client =
     map (rule_outcome L (normalize_owned domain) qtype client) (complex f) @
     set_outcomes f (normalize_owned domain)"

lemma check_joins: "check L f domain qtype client = joins (source_outcomes L f domain qtype client)"
proof -
  let ?m = "joins (map (rule_outcome L (normalize_owned domain) qtype client) (complex f))"
  have of: "(case b of None \<Rightarrow> NoMatch | Some k \<Rightarrow> Match k) = of_best b" for b
    by (cases b) simp_all
  have "check L f domain qtype client = join ?m (joins (set_outcomes f (normalize_owned domain)))"
    unfolding check_def Let_def normalize_eq_owned rules_loop.loop_start of
    by (cases ?m) (simp_all add: set_outcomes_def of_best_upgrade max.commute max.left_commute)
  then show ?thesis by (simp add: source_outcomes_def)
qed

definition device_outcomes ::
    "('r, 'q, 'n) parser_lib \<Rightarrow> ('r, 'q, 'n) dns_filter list list \<Rightarrow> string \<Rightarrow> 'q \<Rightarrow> ip_addr \<Rightarrow>
     match_outcome list" where
  "device_outcomes L ps domain qtype client =
     concat (map (\<lambda>f. source_outcomes L f domain qtype client) (concat ps))"

lemma profile_outcome_joins:
  "profile_outcome L p domain qtype client =
   joins (concat (map (\<lambda>f. source_outcomes L f domain qtype client) p))"
  by (simp add: profile_outcome_def joins_concat check_joins comp_def)

lemma device_check_joins:
  "device_check L ps domain qtype client = action (joins (device_outcomes L ps domain qtype client))"
  by (simp add: device_check_def profiles_loop.loop_start device_outcomes_def profile_outcome_joins
      joins_concat map_concat comp_def)

section \<open>Properties\<close>

lemma Max_kinds_block:
  "K \<noteq> {} \<Longrightarrow> blocks (Max K) \<longleftrightarrow>
     ImportantAllow \<notin> K \<and> (ImportantBlock \<in> K \<or> Allow \<notin> K \<and> Block \<in> K)"
  for K :: "match_kind set"
proof -
  assume ne: "K \<noteq> {}"
  have m: "Max K \<in> K" and ge: "k \<in> K \<Longrightarrow> rank k \<le> rank (Max K)" for k
    using ne by (auto simp flip: less_eq_match_kind_def intro: Max_ge Max_in)
  show ?thesis
    using m ge [of ImportantAllow] ge [of ImportantBlock] ge [of Allow] ge [of Block]
    by (cases "Max K") auto
qed

lemma device_verdict:
  "device_check L ps domain qtype client =
     (let outs = device_outcomes L ps domain qtype client; K = kinds outs in
      case first_rewrite outs of
        Some ip \<Rightarrow> RewriteTo ip
      | None \<Rightarrow>
          if ImportantAllow \<notin> K \<and> (ImportantBlock \<in> K \<or> Allow \<notin> K \<and> Block \<in> K)
          then BlockQuery else Pass)"
  by (auto simp: device_check_joins joins_char Let_def Max_kinds_block split: option.splits)

text \<open>
  C12: the verdict for a device, over all rules of all sources of all its profiles. The first
  rewrite in order decides; otherwise the query is blocked exactly when no important exception
  matches and either an important block does, or a plain block does and no plain exception.
\<close>

theorem device_check_verdict:
  "device_check L ps domain qtype client =
     (let outs = device_outcomes L ps domain qtype client; K = kinds outs in
      case first_rewrite outs of
        Some ip \<Rightarrow> RewriteTo ip
      | None \<Rightarrow>
          if ImportantAllow \<notin> K \<and> (ImportantBlock \<in> K \<or> Allow \<notin> K \<and> Block \<in> K)
          then BlockQuery else Pass)"
  by (rule device_verdict)

text \<open>The reference: every rule the inputs contain, evaluated one by one in order.\<close>

definition parsed_rules :: "('r, 'q, 'n) parser_lib \<Rightarrow> string list \<Rightarrow> ('r, 'q, 'n) parsed_rule list" where
  "parsed_rules L lines =
     List.map_filter (\<lambda>l. case parse_line L l of Inr (Some r) \<Rightarrow> Some r | _ \<Rightarrow> None) lines"

definition domain_rule :: "bool \<Rightarrow> string \<Rightarrow> ('r, 'q, 'n) parsed_rule" where
  "domain_rule a d = DomainBlock (normalize_owned d) default_modifiers a"

definition all_rules :: "('r, 'q, 'n) parser_lib \<Rightarrow> filter_inputs \<Rightarrow> ('r, 'q, 'n) parsed_rule list" where
  "all_rules L inp =
     parsed_rules L (in_custom_rules inp) @
     map (domain_rule True) (in_allowlist inp) @ map (domain_rule False) (in_blocked_domains inp)"

definition simple :: "('r, 'q, 'n) parsed_rule \<Rightarrow> bool" where
  "simple r = (case r of DomainBlock _ m _ \<Rightarrow> modifiers_empty m | _ \<Rightarrow> False)"

definition simple_domains :: "bool \<Rightarrow> ('r, 'q, 'n) parsed_rule list \<Rightarrow> string set" where
  "simple_domains a rs = {d. \<exists>m. DomainBlock d m a \<in> set rs \<and> modifiers_empty m}"

lemma simple_domains_simps [simp]:
  "simple_domains a [] = {}"
  "simple_domains a (DomainBlock d m b # rs) =
     (if modifiers_empty m \<and> a = b then insert d (simple_domains a rs) else simple_domains a rs)"
  "simple_domains a (Pattern x l m b # rs) = simple_domains a rs"
  "simple_domains a (Regex x l m b # rs) = simple_domains a rs"
  by (auto simp: simple_domains_def)

lemma add_custom_rules_char:
  "add_custom_rules L lines f =
     f\<lparr>blocked_domains := blocked_domains f \<union> simple_domains False (parsed_rules L lines),
       allowed_domains := allowed_domains f \<union> simple_domains True (parsed_rules L lines),
       complex := complex f @ filter (\<lambda>r. \<not> simple r) (parsed_rules L lines)\<rparr>"
proof (induction lines arbitrary: f)
  case Nil
  then show ?case by (simp add: parsed_rules_def map_filter_simps)
next
  case (Cons line lines)
  then show ?case
    by (auto simp: parsed_rules_def map_filter_simps simple_def
        split: sum.splits option.splits parsed_rule.splits)
qed

lemma rule_outcome_simple:
  "modifiers_empty m \<Longrightarrow> rule_outcome L d qtype client (DomainBlock r m a) =
     (if in_subtree r d then Match (if a then Allow else Block) else NoMatch)"
  by (auto simp: rule_outcome_def modifiers_empty_def modifiers_apply_def classify_def
      is_subdomain_of_in_subtree)

lemma simpleE:
  assumes "simple r"
  obtains d m a where "r = DomainBlock d m a" "modifiers_empty m"
  using assms by (cases r) (auto simp: simple_def)

lemma first_rewrite_simple:
  "first_rewrite (map (rule_outcome L d qtype client) rs) =
   first_rewrite (map (rule_outcome L d qtype client) (filter (\<lambda>r. \<not> simple r) rs))"
proof (induction rs)
  case Nil
  then show ?case by simp
next
  case (Cons r rs)
  have fr: "first_rewrite (x # map f rs) = (case x of Rewrite ip \<Rightarrow> Some ip | _ \<Rightarrow> first_rewrite (map f rs))"
    for x and f :: "'x \<Rightarrow> _" and rs by (cases x) simp_all
  show ?case
    using Cons by (cases "simple r") (auto simp: fr rule_outcome_simple elim!: simpleE split: match_outcome.splits if_splits)
qed

lemma kinds_simple:
  "kinds (map (rule_outcome L d qtype client) rs) =
   kinds (map (rule_outcome L d qtype client) (filter (\<lambda>r. \<not> simple r) rs)) \<union>
   (if \<exists>r \<in> simple_domains True rs. in_subtree r d then {Allow} else {}) \<union>
   (if \<exists>r \<in> simple_domains False rs. in_subtree r d then {Block} else {})"
  (is "?A rs = ?B rs")
proof (induction rs)
  case Nil
  then show ?case by simp
next
  case (Cons r rs)
  let ?ro = "rule_outcome L d qtype client"
  have k: "kinds (x # xs) = (case x of Match k \<Rightarrow> {k} | _ \<Rightarrow> {}) \<union> kinds xs" for x xs
    by (cases x) auto
  show ?case
  proof (cases "simple r")
    case True
    then obtain e m a where r: "r = DomainBlock e m a" "modifiers_empty m" by (rule simpleE)
    with True Cons.IH show ?thesis
      by (cases a; cases "in_subtree e d") (auto simp: k rule_outcome_simple)
  next
    case False
    have sd: "simple_domains a (r # rs) = simple_domains a rs" for a
      using False by (cases r) (auto simp: simple_def)
    from False Cons.IH show ?thesis
      unfolding sd by (simp add: k Un_assoc)
  qed
qed

lemma domain_rules_simple:
  "simple_domains b (map (domain_rule a) ds) = (if a = b then set (map normalize_owned ds) else {})"
  by (auto simp: simple_domains_def domain_rule_def default_modifiers_def modifiers_empty_def)

lemma filter_domain_rules: "filter (\<lambda>r. \<not> simple r) (map (domain_rule a) ds) = []"
  by (induction ds) (auto simp: domain_rule_def simple_def default_modifiers_def modifiers_empty_def)

lemma simple_domains_append:
  "simple_domains a (xs @ ys) = simple_domains a xs \<union> simple_domains a ys"
  by (auto simp: simple_domains_def)

text \<open>
  C22: compiling the inputs changes no verdict. A query against the compiled source (two hash
  sets walked label by label, and the list of complex rules) has the outcome of evaluating every
  allowlist entry, block-list domain and custom rule one by one on the canonical name.
\<close>

theorem build_check_linear:
  "check L (build L inp) domain qtype client =
   joins (map (rule_outcome L (normalize_owned domain) qtype client) (all_rules L inp))"
proof -
  let ?d = "normalize_owned domain" and ?rs = "parsed_rules L (in_custom_rules inp)"
  let ?f = "build L inp" and ?ro = "rule_outcome L (normalize_owned domain) qtype client"
  have f: "complex ?f = filter (\<lambda>r. \<not> simple r) (all_rules L inp)"
    "allowed_domains ?f = simple_domains True (all_rules L inp)"
    "blocked_domains ?f = simple_domains False (all_rules L inp)"
    by (auto simp: build_def add_custom_rules_char all_rules_def filter_domain_rules
        simple_domains_append domain_rules_simple)
  have "first_rewrite (source_outcomes L ?f domain qtype client) = first_rewrite (map ?ro (all_rules L inp))"
    by (simp add: source_outcomes_def set_outcomes_def f first_rewrite_simple [of _ _ _ _ "all_rules L inp"]
        split: option.splits)
  moreover have "kinds (source_outcomes L ?f domain qtype client) = kinds (map ?ro (all_rules L inp))"
    unfolding kinds_simple [of L ?d qtype client "all_rules L inp"]
    by (simp add: source_outcomes_def set_outcomes_def f matches_subdomain_in_subtree)
  ultimately show ?thesis unfolding check_joins joins_char by (simp only:)
qed

text \<open>
  Streaming a block list into the incremental builder gives the filter that \<open>build\<close>
  gives on the collected list, whatever the order and the duplicates.
\<close>

theorem builder_eq_build:
  "builder_finish (fold builder_insert domains builder_new) =
   build L \<lparr>in_blocked_domains = domains, in_allowlist = [], in_custom_rules = []\<rparr>"
proof -
  have "fold builder_insert domains S = S \<union> normalize_owned ` set domains" for S
    by (induction domains arbitrary: S) (auto simp: builder_insert_def)
  then show ?thesis by (simp add: builder_finish_def builder_new_def build_def empty_filter_def)
qed

text \<open>
  The verdict does not depend on the spelling of the queried name: case and trailing dots
  make no difference to any source, profile or device.
\<close>

theorem device_check_spelling:
  "device_check L ps (to_ascii_uppercase domain) qtype client = device_check L ps domain qtype client \<and>
   device_check L ps (domain @ ''.'') qtype client = device_check L ps domain qtype client"
proof -
  have "normalize_owned (to_ascii_uppercase domain) =
      normalize_owned (to_ascii_lowercase (to_ascii_uppercase domain))"
    by (rule normalize_owned_lower [symmetric])
  also have "to_ascii_lowercase (to_ascii_uppercase domain) = to_ascii_lowercase domain"
    by (simp add: comp_def)
  also have "normalize_owned \<dots> = normalize_owned domain"
    by (rule normalize_owned_lower)
  finally show ?thesis
    by (simp add: device_check_joins device_outcomes_def source_outcomes_def)
qed

end
