(* ===== verification/Filter_Repo.thy ===== *)
theory Filter_Repo
  imports Dns_Filter
begin

text \<open>
  The storage of the filter subsystem (\<open>wardnetd-data/src/repository/sqlite/dns_filter.rs\<close> and
  its tables): one list per table, rows in insertion order, which is the order of the
  \<open>ORDER BY created_at\<close> queries. Row timestamps other than those the code reads back are left
  out. A constraint of the schema (primary key, \<open>UNIQUE\<close>, foreign key) that an \<open>INSERT\<close> violates
  is the error result; \<open>ON DELETE CASCADE\<close> is written out. The import of a block list writes a
  new generation of rows in batches and then flips the active generation: each transaction is
  one step, and the daemon may be killed between any two.
\<close>

section \<open>Rows\<close>

record 'u filter_profile =
  prof_id :: 'u
  prof_name :: string
  prof_description :: "string option"
  prof_builtin :: bool

record 'u blocklist =
  bl_id :: 'u
  bl_profile_id :: 'u
  bl_name :: string
  bl_url :: string
  bl_enabled :: bool
  bl_entry_count :: nat
  bl_last_updated :: "nat option"
  bl_cron_schedule :: string
  bl_last_error :: "string option"
  bl_last_error_at :: "nat option"
  bl_consecutive_failures :: nat
  bl_active_generation :: "64 word"

record 'u allowlist_entry =
  al_id :: 'u
  al_profile_id :: 'u
  al_domain :: string
  al_reason :: "string option"

record 'u custom_rule =
  cr_id :: 'u
  cr_profile_id :: 'u
  cr_rule_text :: string
  cr_enabled :: bool
  cr_comment :: "string option"

record 'u device_filter_settings =
  ds_device_id :: 'u
  ds_enabled :: bool
  ds_profile_ids :: "'u list"

record 'u filter_config =
  fc_enabled :: bool
  fc_default_profile_ids :: "'u list"
  fc_failure_alert_threshold :: nat

text \<open>
  The tables. \<open>t_devices\<close> holds the two columns of \<open>devices\<close> the queries join, the id and the
  last address; \<open>t_filtering_enabled\<close> and \<open>t_alert_threshold\<close> are the two keys of
  \<open>system_config\<close>.
\<close>

record 'u filter_db =
  t_profiles :: "'u filter_profile list"
  t_blocklists :: "'u blocklist list"
  t_blocked_domains :: "(string \<times> 'u \<times> 64 word) list"
  t_allowlist :: "'u allowlist_entry list"
  t_custom_rules :: "'u custom_rule list"
  t_device_settings :: "('u \<times> bool) list"
  t_device_profile :: "('u \<times> 'u) list"
  t_default_profile :: "'u list"
  t_filtering_enabled :: "string option"
  t_alert_threshold :: "string option"
  t_devices :: "('u \<times> string) list"

section \<open>Queries\<close>

definition list_profiles :: "'u filter_db \<Rightarrow> 'u filter_profile list" where
  "list_profiles db = filter prof_builtin (t_profiles db) @ filter (\<lambda>p. \<not> prof_builtin p) (t_profiles db)"

definition get_profile :: "'u filter_db \<Rightarrow> 'u \<Rightarrow> 'u filter_profile option" where
  "get_profile db rid = find (\<lambda>p. prof_id p = rid) (t_profiles db)"

definition list_blocklists :: "'u filter_db \<Rightarrow> 'u \<Rightarrow> 'u blocklist list" where
  "list_blocklists db pid = filter (\<lambda>b. bl_profile_id b = pid) (t_blocklists db)"

definition get_blocklist :: "'u filter_db \<Rightarrow> 'u \<Rightarrow> 'u blocklist option" where
  "get_blocklist db rid = find (\<lambda>b. bl_id b = rid) (t_blocklists db)"

text \<open>\<open>BLOCKLIST_DOMAINS_QUERY\<close>: the rows of the active generation.\<close>

definition blocklist_domains :: "'u filter_db \<Rightarrow> 'u \<Rightarrow> string list" where
  "blocklist_domains db rid =
     (case get_blocklist db rid of
        None \<Rightarrow> []
      | Some bl \<Rightarrow>
          map fst (filter (\<lambda>(d, b, g). b = rid \<and> g = bl_active_generation bl) (t_blocked_domains db)))"

definition list_allowlist :: "'u filter_db \<Rightarrow> 'u \<Rightarrow> 'u allowlist_entry list" where
  "list_allowlist db pid = filter (\<lambda>a. al_profile_id a = pid) (t_allowlist db)"

definition list_custom_rules :: "'u filter_db \<Rightarrow> 'u \<Rightarrow> 'u custom_rule list" where
  "list_custom_rules db pid = filter (\<lambda>r. cr_profile_id r = pid) (t_custom_rules db)"

definition get_custom_rule :: "'u filter_db \<Rightarrow> 'u \<Rightarrow> 'u custom_rule option" where
  "get_custom_rule db rid = find (\<lambda>r. cr_id r = rid) (t_custom_rules db)"

definition load_filter_inputs_for_profile :: "'u filter_db \<Rightarrow> 'u \<Rightarrow> string list \<times> string list" where
  "load_filter_inputs_for_profile db pid =
     (map al_domain (list_allowlist db pid),
      map cr_rule_text (filter cr_enabled (list_custom_rules db pid)))"

definition device_profile_ids :: "'u filter_db \<Rightarrow> 'u \<Rightarrow> 'u list" where
  "device_profile_ids db did = map snd (filter (\<lambda>(d, p). d = did) (t_device_profile db))"

definition find_device_settings :: "'u filter_db \<Rightarrow> 'u \<Rightarrow> 'u device_filter_settings option" where
  "find_device_settings db did =
     (let settings_row = map_of (t_device_settings db) did;
          profile_ids = device_profile_ids db did in
      if settings_row = None \<and> profile_ids = [] then None
      else Some \<lparr>ds_device_id = did,
                 ds_enabled = (case settings_row of Some e \<Rightarrow> e | None \<Rightarrow> True),
                 ds_profile_ids = profile_ids\<rparr>)"

definition list_device_settings_with_ips ::
    "'u filter_db \<Rightarrow> bool \<Rightarrow> ('u device_filter_settings \<times> string) list" where
  "list_device_settings_with_ips db only_active =
     map (\<lambda>(d, ip). (\<lparr>ds_device_id = d,
                      ds_enabled = (case map_of (t_device_settings db) d of Some e \<Rightarrow> e | None \<Rightarrow> True),
                      ds_profile_ids = device_profile_ids db d\<rparr>, ip))
       (filter (\<lambda>(d, ip). (d \<in> fst ` set (t_device_settings db) \<or> d \<in> fst ` set (t_device_profile db))
                  \<and> (only_active \<longrightarrow> (case map_of (t_device_settings db) d of Some e \<Rightarrow> e | None \<Rightarrow> True)))
          (t_devices db))"

definition default_failure_alert_threshold :: nat where
  "default_failure_alert_threshold = 5"

definition get_dns_filter_config :: "'u filter_db \<Rightarrow> 'u filter_config" where
  "get_dns_filter_config db =
     \<lparr>fc_enabled = (t_filtering_enabled db \<noteq> Some ''false''),
      fc_default_profile_ids = t_default_profile db,
      fc_failure_alert_threshold =
        (case Option.bind (t_alert_threshold db) (parse_uint (2 ^ 32 - 1)) of
           Some n \<Rightarrow> n | None \<Rightarrow> default_failure_alert_threshold)\<rparr>"

definition count_unimported_blocklists :: "'u filter_db \<Rightarrow> nat" where
  "count_unimported_blocklists db =
     length (filter (\<lambda>b. bl_enabled b \<and> bl_last_updated b = None) (t_blocklists db))"

section \<open>Writes\<close>

definition create_profile_row ::
    "'u filter_db \<Rightarrow> 'u \<Rightarrow> string \<Rightarrow> string option \<Rightarrow> string + 'u filter_db" where
  "create_profile_row db rid name descr =
     (if rid \<in> prof_id ` set (t_profiles db) \<or> name \<in> prof_name ` set (t_profiles db)
      then Inl ''UNIQUE constraint failed''
      else Inr (db\<lparr>t_profiles := t_profiles db @
        [\<lparr>prof_id = rid, prof_name = name, prof_description = descr, prof_builtin = False\<rparr>]\<rparr>))"

definition update_profile_fields ::
    "'u filter_db \<Rightarrow> 'u \<Rightarrow> string option \<Rightarrow> string option option \<Rightarrow> string + bool \<times> 'u filter_db" where
  "update_profile_fields db rid name descr =
     (if name = None \<and> descr = None then Inr (True, db)
      else if (\<exists>p \<in> set (t_profiles db). prof_id p \<noteq> rid \<and> name = Some (prof_name p)
                 \<and> rid \<in> prof_id ` set (t_profiles db))
      then Inl ''UNIQUE constraint failed''
      else Inr (rid \<in> prof_id ` set (t_profiles db),
        db\<lparr>t_profiles := map (\<lambda>p. if prof_id p = rid
             then p\<lparr>prof_name := (case name of Some n \<Rightarrow> n | None \<Rightarrow> prof_name p),
                    prof_description := (case descr of Some d \<Rightarrow> d | None \<Rightarrow> prof_description p)\<rparr>
             else p) (t_profiles db)\<rparr>))"

datatype domain_scope = AllRows | Generation "64 word" | AllExcept "64 word"

fun in_scope :: "domain_scope \<Rightarrow> 64 word \<Rightarrow> bool" where
  "in_scope AllRows g = True"
| "in_scope (Generation h) g = (g = h)"
| "in_scope (AllExcept h) g = (g \<noteq> h)"

text \<open>
  \<open>delete_domains_in_batches\<close>: each round deletes at most \<open>limit\<close> matching rows, until a round
  deletes none. \<open>remove_first\<close> is one such \<open>DELETE ... LIMIT\<close>.
\<close>

fun remove_first :: "nat \<Rightarrow> ('a \<Rightarrow> bool) \<Rightarrow> 'a list \<Rightarrow> nat \<times> 'a list" where
  "remove_first n P [] = (0, [])"
| "remove_first n P (x # xs) =
     (if P x \<and> 0 < n then (let (k, ys) = remove_first (n - 1) P xs in (Suc k, ys))
      else (let (k, ys) = remove_first n P xs in (k, x # ys)))"

lemma remove_first_count: "remove_first n P xs = (k, ys) \<Longrightarrow> length ys + k = length xs"
  by (induction xs arbitrary: n k ys) (force split: if_splits prod.splits)+

function delete_rounds :: "nat \<Rightarrow> ('a \<Rightarrow> bool) \<Rightarrow> 'a list \<Rightarrow> nat \<Rightarrow> nat \<times> 'a list" where
  "delete_rounds limit P rows removed =
     (let (affected, rows') = remove_first limit P rows in
      if affected = 0 then (removed, rows')
      else delete_rounds limit P rows' (removed + affected))"
  by pat_completeness auto
termination
  by (relation "measure (\<lambda>(limit, P, rows, removed). length rows)")
    (auto dest!: remove_first_count [OF sym])

declare delete_rounds.simps [simp del]

definition DELETE_BATCH_ROWS :: nat where
  "DELETE_BATCH_ROWS = 2000"

definition delete_domains_in_batches ::
    "'u filter_db \<Rightarrow> 'u \<Rightarrow> domain_scope \<Rightarrow> nat \<times> 'u filter_db" where
  "delete_domains_in_batches db rid scope =
     (let (n, rows) = delete_rounds DELETE_BATCH_ROWS (\<lambda>(d, b, g). b = rid \<and> in_scope scope g)
                        (t_blocked_domains db) 0
      in (n, db\<lparr>t_blocked_domains := rows\<rparr>))"

text \<open>The drain of \<open>delete_profile\<close>: at most \<open>DRAIN_MAX_PASSES\<close> passes over its block lists.\<close>

definition drain_pass :: "'u filter_db \<Rightarrow> 'u \<Rightarrow> nat \<times> 'u filter_db" where
  "drain_pass db pid =
     fold (\<lambda>bl (removed, db'). let (n, db'') = delete_domains_in_batches db' (bl_id bl) AllRows
                               in (removed + n, db'')) (list_blocklists db pid) (0, db)"

fun drain_profile :: "nat \<Rightarrow> 'u filter_db \<Rightarrow> 'u \<Rightarrow> 'u filter_db" where
  "drain_profile 0 db pid = db"
| "drain_profile (Suc n) db pid =
     (let (removed, db') = drain_pass db pid in
      if removed = 0 then db' else drain_profile n db' pid)"

definition DRAIN_MAX_PASSES :: nat where
  "DRAIN_MAX_PASSES = 5"

definition cascade_profile :: "'u filter_db \<Rightarrow> 'u \<Rightarrow> 'u filter_db" where
  "cascade_profile db pid =
     (let bls = bl_id ` set (list_blocklists db pid) in
      db\<lparr>t_profiles := filter (\<lambda>p. prof_id p \<noteq> pid) (t_profiles db),
         t_blocklists := filter (\<lambda>b. bl_profile_id b \<noteq> pid) (t_blocklists db),
         t_blocked_domains := filter (\<lambda>(d, b, g). b \<notin> bls) (t_blocked_domains db),
         t_allowlist := filter (\<lambda>a. al_profile_id a \<noteq> pid) (t_allowlist db),
         t_custom_rules := filter (\<lambda>r. cr_profile_id r \<noteq> pid) (t_custom_rules db),
         t_device_profile := filter (\<lambda>(d, p). p \<noteq> pid) (t_device_profile db),
         t_default_profile := filter (\<lambda>p. p \<noteq> pid) (t_default_profile db)\<rparr>)"

definition delete_profile_row :: "'u filter_db \<Rightarrow> 'u \<Rightarrow> bool \<times> 'u filter_db" where
  "delete_profile_row db rid =
     (if \<not> (\<exists>p \<in> set (t_profiles db). prof_id p = rid \<and> \<not> prof_builtin p) then (False, db)
      else (True, cascade_profile (drain_profile DRAIN_MAX_PASSES db rid) rid))"

definition create_blocklist_row ::
    "'u filter_db \<Rightarrow> 'u \<Rightarrow> 'u \<Rightarrow> string \<Rightarrow> string \<Rightarrow> bool \<Rightarrow> string \<Rightarrow> string + 'u filter_db" where
  "create_blocklist_row db rid pid name url enabled cron =
     (if rid \<in> bl_id ` set (t_blocklists db) \<or> (\<exists>b \<in> set (t_blocklists db). bl_profile_id b = pid \<and> bl_url b = url)
      then Inl ''UNIQUE constraint failed''
      else if pid \<notin> prof_id ` set (t_profiles db) then Inl ''FOREIGN KEY constraint failed''
      else Inr (db\<lparr>t_blocklists := t_blocklists db @
        [\<lparr>bl_id = rid, bl_profile_id = pid, bl_name = name, bl_url = url, bl_enabled = enabled,
          bl_entry_count = 0, bl_last_updated = None, bl_cron_schedule = cron, bl_last_error = None,
          bl_last_error_at = None, bl_consecutive_failures = 0, bl_active_generation = 0\<rparr>]\<rparr>))"

definition delete_blocklist_row :: "'u filter_db \<Rightarrow> 'u \<Rightarrow> bool \<times> 'u filter_db" where
  "delete_blocklist_row db rid =
     (let (_, db') = delete_domains_in_batches db rid AllRows in
      (rid \<in> bl_id ` set (t_blocklists db'),
       db'\<lparr>t_blocklists := filter (\<lambda>b. bl_id b \<noteq> rid) (t_blocklists db')\<rparr>))"

definition create_allowlist_row ::
    "'u filter_db \<Rightarrow> 'u \<Rightarrow> 'u \<Rightarrow> string \<Rightarrow> string option \<Rightarrow> string + 'u filter_db" where
  "create_allowlist_row db rid pid domain reason =
     (if rid \<in> al_id ` set (t_allowlist db) \<or>
         (\<exists>a \<in> set (t_allowlist db). al_profile_id a = pid \<and> al_domain a = domain)
      then Inl ''UNIQUE constraint failed''
      else if pid \<notin> prof_id ` set (t_profiles db) then Inl ''FOREIGN KEY constraint failed''
      else Inr (db\<lparr>t_allowlist := t_allowlist db @
        [\<lparr>al_id = rid, al_profile_id = pid, al_domain = domain, al_reason = reason\<rparr>]\<rparr>))"

definition delete_allowlist_row :: "'u filter_db \<Rightarrow> 'u \<Rightarrow> bool \<times> 'u filter_db" where
  "delete_allowlist_row db rid =
     (rid \<in> al_id ` set (t_allowlist db),
      db\<lparr>t_allowlist := filter (\<lambda>a. al_id a \<noteq> rid) (t_allowlist db)\<rparr>)"

definition create_custom_rule_row ::
    "'u filter_db \<Rightarrow> 'u \<Rightarrow> 'u \<Rightarrow> string \<Rightarrow> bool \<Rightarrow> string option \<Rightarrow> string + 'u filter_db" where
  "create_custom_rule_row db rid pid text enabled comment =
     (if rid \<in> cr_id ` set (t_custom_rules db) then Inl ''UNIQUE constraint failed''
      else if pid \<notin> prof_id ` set (t_profiles db) then Inl ''FOREIGN KEY constraint failed''
      else Inr (db\<lparr>t_custom_rules := t_custom_rules db @
        [\<lparr>cr_id = rid, cr_profile_id = pid, cr_rule_text = text, cr_enabled = enabled,
          cr_comment = comment\<rparr>]\<rparr>))"

definition update_custom_rule_row ::
    "'u filter_db \<Rightarrow> 'u \<Rightarrow> string option \<Rightarrow> bool option \<Rightarrow> string option \<Rightarrow> 'u filter_db" where
  "update_custom_rule_row db rid text enabled comment =
     db\<lparr>t_custom_rules := map (\<lambda>r. if cr_id r = rid
          then r\<lparr>cr_rule_text := (case text of Some t \<Rightarrow> t | None \<Rightarrow> cr_rule_text r),
                 cr_enabled := (case enabled of Some e \<Rightarrow> e | None \<Rightarrow> cr_enabled r),
                 cr_comment := (case comment of Some c \<Rightarrow> Some c | None \<Rightarrow> cr_comment r)\<rparr>
          else r) (t_custom_rules db)\<rparr>"

definition delete_custom_rule_row :: "'u filter_db \<Rightarrow> 'u \<Rightarrow> bool \<times> 'u filter_db" where
  "delete_custom_rule_row db rid =
     (rid \<in> cr_id ` set (t_custom_rules db),
      db\<lparr>t_custom_rules := filter (\<lambda>r. cr_id r \<noteq> rid) (t_custom_rules db)\<rparr>)"

definition update_blocklist_row ::
    "'u filter_db \<Rightarrow> 'u \<Rightarrow> string option \<Rightarrow> string option \<Rightarrow> bool option \<Rightarrow> string option \<Rightarrow>
     string + 'u filter_db" where
  "update_blocklist_row db rid name url enabled cron =
     (case get_blocklist db rid of
        Some old \<Rightarrow>
          (if \<exists>b \<in> set (t_blocklists db). bl_id b \<noteq> rid \<and> bl_profile_id b = bl_profile_id old \<and> url = Some (bl_url b)
           then Inl ''UNIQUE constraint failed''
           else Inr (db\<lparr>t_blocklists := map (\<lambda>b. if bl_id b = rid
             then (let b1 = b\<lparr>bl_name := (case name of Some n \<Rightarrow> n | None \<Rightarrow> bl_name b),
                              bl_enabled := (case enabled of Some e \<Rightarrow> e | None \<Rightarrow> bl_enabled b),
                              bl_cron_schedule := (case cron of Some c \<Rightarrow> c | None \<Rightarrow> bl_cron_schedule b)\<rparr>
                   in case url of
                        None \<Rightarrow> b1
                      | Some u \<Rightarrow> b1\<lparr>bl_url := u, bl_consecutive_failures := 0, bl_last_error := None,
                                      bl_last_error_at := None\<rparr>)
             else b) (t_blocklists db)\<rparr>))
      | None \<Rightarrow> Inr db)"

definition upsert_device_settings :: "'u filter_db \<Rightarrow> 'u \<Rightarrow> bool \<Rightarrow> string + 'u filter_db" where
  "upsert_device_settings db did enabled =
     (if did \<notin> fst ` set (t_devices db) then Inl ''FOREIGN KEY constraint failed''
      else Inr (db\<lparr>t_device_settings :=
        (if did \<in> fst ` set (t_device_settings db)
         then map (\<lambda>(d, e). if d = did then (d, enabled) else (d, e)) (t_device_settings db)
         else t_device_settings db @ [(did, enabled)])\<rparr>))"

text \<open>\<open>set_device_profiles\<close> is one transaction: a violated constraint rolls it back.\<close>

definition set_device_profiles :: "'u filter_db \<Rightarrow> 'u \<Rightarrow> 'u list \<Rightarrow> string + 'u filter_db" where
  "set_device_profiles db did pids =
     (if \<not> distinct pids then Inl ''UNIQUE constraint failed''
      else if pids \<noteq> [] \<and> (did \<notin> fst ` set (t_devices db) \<or> \<not> set pids \<subseteq> prof_id ` set (t_profiles db))
      then Inl ''FOREIGN KEY constraint failed''
      else Inr (db\<lparr>t_device_profile :=
        filter (\<lambda>(d, p). d \<noteq> did) (t_device_profile db) @ map (\<lambda>p. (did, p)) pids\<rparr>))"

definition set_dns_filter_config :: "'u filter_db \<Rightarrow> 'u filter_config \<Rightarrow> string + 'u filter_db" where
  "set_dns_filter_config db cfg =
     (if \<not> distinct (fc_default_profile_ids cfg) then Inl ''UNIQUE constraint failed''
      else if \<not> set (fc_default_profile_ids cfg) \<subseteq> prof_id ` set (t_profiles db)
      then Inl ''FOREIGN KEY constraint failed''
      else Inr (db\<lparr>t_filtering_enabled := Some (if fc_enabled cfg then ''true'' else ''false''),
                   t_alert_threshold := Some (show_nat (fc_failure_alert_threshold cfg)),
                   t_default_profile := fc_default_profile_ids cfg\<rparr>))"

definition set_blocklist_error :: "'u filter_db \<Rightarrow> nat \<Rightarrow> 'u \<Rightarrow> string option \<Rightarrow> 'u filter_db" where
  "set_blocklist_error db now rid err =
     db\<lparr>t_blocklists := map (\<lambda>b. if bl_id b = rid
          then (case err of
                  Some msg \<Rightarrow> b\<lparr>bl_last_error := Some msg, bl_last_error_at := Some now,
                                 bl_consecutive_failures := bl_consecutive_failures b + 1\<rparr>
                | None \<Rightarrow> b\<lparr>bl_last_error := None, bl_last_error_at := None,
                             bl_consecutive_failures := 0\<rparr>)
          else b) (t_blocklists db)\<rparr>"

end
