(* ===== verification/Blocklist_Import.thy ===== *)
theory Blocklist_Import
  imports Filter_Repo
begin

text \<open>
  Block lists from the feed to the table: the batched, generation-based import
  (\<open>replace_blocklist_domains\<close> of \<open>sqlite/dns_filter.rs\<close>) as a function and as a step relation
  with one step per transaction, the refresh around it (\<open>blocklist_downloader.rs\<close>) and the
  retry hold-off of the cron runner (\<open>dns_filter/runner.rs\<close>).
\<close>

section \<open>The import\<close>

definition IMPORT_BATCH_ROWS :: nat where
  "IMPORT_BATCH_ROWS = 2000"

fun dedupe :: "'a set \<Rightarrow> 'a list \<Rightarrow> 'a list" where
  "dedupe seen [] = []"
| "dedupe seen (x # xs) = (if x \<in> seen then dedupe seen xs else x # dedupe (insert x seen) xs)"

function chunks :: "nat \<Rightarrow> 'a list \<Rightarrow> 'a list list" where
  "chunks n xs = (if n = 0 \<or> xs = [] then [] else take n xs # chunks n (drop n xs))"
  by pat_completeness auto
termination
  by (relation "measure (\<lambda>(n, xs). length xs)") auto

declare chunks.simps [simp del]

definition insert_batch :: "'u \<Rightarrow> 64 word \<Rightarrow> string list \<Rightarrow> 'u filter_db \<Rightarrow> 'u filter_db" where
  "insert_batch rid next batch db =
     db\<lparr>t_blocked_domains := t_blocked_domains db @ map (\<lambda>d. (d, rid, next)) batch\<rparr>"

text \<open>An \<open>INSERT\<close> that repeats a primary key aborts the whole import.\<close>

definition batch_conflicts :: "'u \<Rightarrow> 64 word \<Rightarrow> string list \<Rightarrow> 'u filter_db \<Rightarrow> bool" where
  "batch_conflicts rid next batch db \<longleftrightarrow>
     \<not> distinct batch \<or> (\<exists>d \<in> set batch. (d, rid, next) \<in> set (t_blocked_domains db))"

definition flip_generation :: "'u \<Rightarrow> 64 word \<Rightarrow> nat \<Rightarrow> nat \<Rightarrow> 'u filter_db \<Rightarrow> 'u filter_db" where
  "flip_generation rid next count now db =
     db\<lparr>t_blocklists := map (\<lambda>b. if bl_id b = rid
          then b\<lparr>bl_active_generation := next, bl_entry_count := count, bl_last_updated := Some now,
                 bl_last_error := None, bl_last_error_at := None, bl_consecutive_failures := 0\<rparr>
          else b) (t_blocklists db)\<rparr>"

fun insert_batches :: "'u \<Rightarrow> 64 word \<Rightarrow> string list list \<Rightarrow> 'u filter_db \<Rightarrow> string + 'u filter_db" where
  "insert_batches rid next [] db = Inr db"
| "insert_batches rid next (b # bs) db =
     (if batch_conflicts rid next b db then Inl ''UNIQUE constraint failed''
      else insert_batches rid next bs (insert_batch rid next b db))"

definition replace_blocklist_domains ::
    "'u filter_db \<Rightarrow> nat \<Rightarrow> 'u \<Rightarrow> string list \<Rightarrow> string + nat \<times> 'u filter_db" where
  "replace_blocklist_domains db now rid domains0 =
     (let domains = dedupe {} domains0; count = length domains in
      case get_blocklist db rid of
        None \<Rightarrow> Inl ''blocklist not found''
      | Some bl \<Rightarrow>
          (let next = bl_active_generation bl + 1;
               (_, db1) = delete_domains_in_batches db rid (Generation next) in
           case insert_batches rid next (chunks IMPORT_BATCH_ROWS domains) db1 of
             Inl e \<Rightarrow> Inl e
           | Inr db2 \<Rightarrow>
               (let db3 = flip_generation rid next count now db2;
                    (_, db4) = delete_domains_in_batches db3 rid (AllExcept next)
                in Inr (count, db4))))"

text \<open>
  The same import one transaction at a time. The daemon can stop after any of them, so every
  state reachable by these steps can be the one a restart finds; a failed clean-up is ignored.
\<close>

datatype import_phase = Clearing | Inserting "string list list" | Reclaiming | Imported

inductive import_step ::
    "'u \<Rightarrow> 64 word \<Rightarrow> string list \<Rightarrow> nat \<Rightarrow> import_phase \<times> 'u filter_db \<Rightarrow> import_phase \<times> 'u filter_db \<Rightarrow> bool"
  for rid :: 'u and "next" :: "64 word" and domains :: "string list" and now :: nat where
  clear_round:
    "remove_first DELETE_BATCH_ROWS (\<lambda>(d, b, g). b = rid \<and> g = next) (t_blocked_domains db) = (Suc n, rows) \<Longrightarrow>
     import_step rid next domains now (Clearing, db) (Clearing, db\<lparr>t_blocked_domains := rows\<rparr>)"
| clear_done:
    "remove_first DELETE_BATCH_ROWS (\<lambda>(d, b, g). b = rid \<and> g = next) (t_blocked_domains db) = (0, rows) \<Longrightarrow>
     import_step rid next domains now (Clearing, db) (Inserting (chunks IMPORT_BATCH_ROWS domains), db)"
| insert:
    "\<not> batch_conflicts rid next b db \<Longrightarrow>
     import_step rid next domains now (Inserting (b # bs), db) (Inserting bs, insert_batch rid next b db)"
| flip:
    "import_step rid next domains now (Inserting [], db)
       (Reclaiming, flip_generation rid next (length domains) now db)"
| reclaim_round:
    "remove_first DELETE_BATCH_ROWS (\<lambda>(d, b, g). b = rid \<and> g \<noteq> next) (t_blocked_domains db) = (Suc n, rows) \<Longrightarrow>
     import_step rid next domains now (Reclaiming, db) (Reclaiming, db\<lparr>t_blocked_domains := rows\<rparr>)"
| reclaim_done:
    "import_step rid next domains now (Reclaiming, db) (Imported, db)"

inductive_cases import_stepE: "import_step rid next domains now c c'"

section \<open>Refreshing a block list\<close>

text \<open>
  \<open>refresh_blocklist\<close> of \<open>blocklist_downloader.rs\<close>. The HTTP client is the parameter \<open>fetch\<close>;
  the job's progress reports are left out. \<open>HashSet\<close> iteration yields the elements in some order,
  here that of first insertion.
\<close>

definition block_domain :: "('r, 'q, 'n) parser_lib \<Rightarrow> string \<Rightarrow> string option" where
  "block_domain L line =
     (case parse_line L line of
        Inr (Some (DomainBlock domain mods allow)) \<Rightarrow>
          (if \<not> allow \<and> modifiers_empty mods then Some domain else None)
      | _ \<Rightarrow> None)"

definition parse_blocklist_body :: "('r, 'q, 'n) parser_lib \<Rightarrow> string \<Rightarrow> string list" where
  "parse_blocklist_body L body = dedupe {} (List.map_filter (block_domain L) (str_lines body))"

datatype 'u refresh_event = DnsFilterBlocklistUpdated 'u nat

definition refresh_blocklist ::
    "('r, 'q, 'n) parser_lib \<Rightarrow> (string \<Rightarrow> string + string) \<Rightarrow> nat \<Rightarrow> 'u blocklist \<Rightarrow> 'u filter_db \<Rightarrow>
     (string + nat) \<times> 'u filter_db \<times> 'u refresh_event list" where
  "refresh_blocklist L fetch now bl db =
     (case fetch (bl_url bl) of
        Inl e \<Rightarrow> (Inl e, set_blocklist_error db now (bl_id bl) (Some (''download failed: '' @ e)), [])
      | Inr body \<Rightarrow>
          (let domains = parse_blocklist_body L body; count = length domains in
           if count = 0 then
             (let msg = ''parsed 0 domains from response (check the URL - it may redirect to an HTML page)''
              in (Inl msg, set_blocklist_error db now (bl_id bl) (Some msg), []))
           else (case replace_blocklist_domains db now (bl_id bl) domains of
                   Inl e \<Rightarrow> (Inl e, set_blocklist_error db now (bl_id bl) (Some (''failed to store domains: '' @ e)), [])
                 | Inr (_, db') \<Rightarrow>
                     (Inr count, set_blocklist_error db' now (bl_id bl) None,
                      [DnsFilterBlocklistUpdated (bl_id bl) count]))))"

text \<open>
  The cron runner's hold-off after failures (\<open>retry_not_before\<close> of \<open>runner.rs\<close>), in minutes
  after the last error; \<open>now\<close> and the result are in seconds.
\<close>

definition REFRESH_BACKOFF_BASE_MINS :: nat where
  "REFRESH_BACKOFF_BASE_MINS = 5"

definition REFRESH_BACKOFF_MAX_MINS :: nat where
  "REFRESH_BACKOFF_MAX_MINS = 360"

definition backoff_mins :: "nat \<Rightarrow> nat" where
  "backoff_mins failures =
     (let steps = min (failures - 1) 16 in
      min REFRESH_BACKOFF_MAX_MINS
        (max REFRESH_BACKOFF_BASE_MINS (REFRESH_BACKOFF_BASE_MINS * 2 ^ steps)))"

definition retry_not_before :: "'u blocklist \<Rightarrow> nat option" where
  "retry_not_before bl =
     (if bl_consecutive_failures bl = 0 then None
      else (case bl_last_error_at bl of
              None \<Rightarrow> None
            | Some t \<Rightarrow> Some (t + 60 * backoff_mins (bl_consecutive_failures bl))))"

section \<open>Batched deletion\<close>

lemma remove_first_sublist:
  "remove_first n P xs = (k, ys) \<Longrightarrow>
     filter (\<lambda>x. \<not> P x) ys = filter (\<lambda>x. \<not> P x) xs \<and> set ys \<subseteq> set xs \<and> (k = 0 \<and> 0 < n \<longrightarrow> ys = filter (\<lambda>x. \<not> P x) xs \<and> (\<forall>x \<in> set xs. \<not> P x))"
proof (induction xs arbitrary: n k ys)
  case Nil
  then show ?case by simp
next
  case (Cons x xs)
  show ?case
  proof (cases "P x \<and> 0 < n")
    case True
    then obtain k' where "remove_first (n - 1) P xs = (k', ys)" "k = Suc k'"
      using Cons.prems by (auto split: prod.splits)
    with Cons.IH [of "n - 1" k' ys] True show ?thesis by auto
  next
    case False
    then obtain ys' where "remove_first n P xs = (k, ys')" "ys = x # ys'"
      using Cons.prems by (auto split: prod.splits)
    with Cons.IH [of n k ys'] False show ?thesis by auto
  qed
qed

lemma delete_rounds_filter:
  "0 < limit \<Longrightarrow> snd (delete_rounds limit P rows removed) = filter (\<lambda>x. \<not> P x) rows"
proof (induction limit P rows removed rule: delete_rounds.induct)
  case (1 limit P rows removed)
  obtain k ys where r: "remove_first limit P rows = (k, ys)" by force
  note s = remove_first_sublist [OF r]
  show ?case
  proof (cases k)
    case 0
    with r s "1.prems" show ?thesis by (subst delete_rounds.simps) simp
  next
    case (Suc j)
    with r "1.IH" [OF r [symmetric] refl] "1.prems" s show ?thesis
      by (subst delete_rounds.simps) simp
  qed
qed

lemma delete_domains_in_batches_filter:
  "snd (delete_domains_in_batches db rid scope) =
     db\<lparr>t_blocked_domains := filter (\<lambda>(d, b, g). \<not> (b = rid \<and> in_scope scope g)) (t_blocked_domains db)\<rparr>"
  by (simp add: delete_domains_in_batches_def split_def delete_rounds_filter DELETE_BATCH_ROWS_def)

section \<open>What readers see\<close>

definition rows_at :: "'u filter_db \<Rightarrow> 'u \<Rightarrow> 64 word \<Rightarrow> string set" where
  "rows_at db rid g = {d. (d, rid, g) \<in> set (t_blocked_domains db)}"

lemma visible_rows:
  "get_blocklist db rid = Some bl \<Longrightarrow> set (blocklist_domains db rid) = rows_at db rid (bl_active_generation bl)"
  by (force simp: blocklist_domains_def rows_at_def)

lemma concat_chunks: "0 < n \<Longrightarrow> concat (chunks n xs) = xs"
proof (induction n xs rule: chunks.induct)
  case (1 n xs)
  then show ?case by (cases "xs = []") (subst chunks.simps, simp)+
qed

lemma dedupe_set: "set (dedupe seen xs) = set xs - seen"
  by (induction seen xs rule: dedupe.induct) auto

lemma dedupe_distinct: "distinct (dedupe seen xs)"
  by (induction seen xs rule: dedupe.induct) (auto simp: dedupe_set)

lemma find_map_same:
  "(\<And>x. P (f x) = P x) \<Longrightarrow> find P (map f xs) = map_option f (find P xs)"
  by (induction xs) auto

lemma get_blocklist_flip:
  "get_blocklist (flip_generation rid next count now db) r =
     map_option (\<lambda>b. if r = rid
       then b\<lparr>bl_active_generation := next, bl_entry_count := count, bl_last_updated := Some now,
              bl_last_error := None, bl_last_error_at := None, bl_consecutive_failures := 0\<rparr>
       else b) (get_blocklist db r)"
proof -
  let ?f = "\<lambda>b. if bl_id b = rid
     then b\<lparr>bl_active_generation := next, bl_entry_count := count, bl_last_updated := Some now,
            bl_last_error := None, bl_last_error_at := None, bl_consecutive_failures := 0\<rparr> else b"
  have "find (\<lambda>b. bl_id b = r) (map ?f (t_blocklists db)) = map_option ?f (find (\<lambda>b. bl_id b = r) (t_blocklists db))"
    by (rule find_map_same) simp
  moreover have "find (\<lambda>b. bl_id b = r) xs = Some b \<Longrightarrow> bl_id b = r" for xs and b :: "'a blocklist"
    by (induction xs) (auto split: if_splits)
  ultimately show ?thesis
    by (cases "find (\<lambda>b. bl_id b = r) (t_blocklists db)") (auto simp: get_blocklist_def flip_generation_def)
qed

lemma get_blocklist_rows [simp]: "get_blocklist (db\<lparr>t_blocked_domains := rows\<rparr>) r = get_blocklist db r"
  by (simp add: get_blocklist_def)

lemma get_blocklist_insert [simp]: "get_blocklist (insert_batch rid next b db) r = get_blocklist db r"
  by (simp add: insert_batch_def)

lemma rows_at_insert:
  "rows_at (insert_batch rid next b db) r g =
     rows_at db r g \<union> (if r = rid \<and> g = next then set b else {})"
  by (auto simp: rows_at_def insert_batch_def)

lemma rows_at_flip [simp]: "rows_at (flip_generation rid next count now db) r g = rows_at db r g"
  by (simp add: rows_at_def flip_generation_def)

lemma blocklist_domains_insert:
  "r \<noteq> rid \<Longrightarrow> blocklist_domains (insert_batch rid next b db) r = blocklist_domains db r"
  by (auto simp: blocklist_domains_def insert_batch_def split: option.splits)

lemma blocklist_domains_flip:
  "r \<noteq> rid \<Longrightarrow> blocklist_domains (flip_generation rid next count now db) r = blocklist_domains db r"
  by (auto simp: blocklist_domains_def get_blocklist_flip split: option.splits)
     (simp add: flip_generation_def)

lemma blocklist_domains_remove:
  assumes "remove_first n (\<lambda>(d, b, g). b = rid \<and> P g) (t_blocked_domains db) = (k, rows)" and "r \<noteq> rid"
  shows "blocklist_domains (db\<lparr>t_blocked_domains := rows\<rparr>) r = blocklist_domains db r"
proof -
  let ?Q = "\<lambda>x. \<not> (case x of (d, b, g) \<Rightarrow> b = rid \<and> P g)"
  have q: "filter (\<lambda>(d, b, g). b = r \<and> g = a) xs = filter (\<lambda>(d, b, g). b = r \<and> g = a) (filter ?Q xs)" for xs a
    using assms(2) by (induction xs) auto
  have "filter ?Q rows = filter ?Q (t_blocked_domains db)"
    using remove_first_sublist [OF assms(1)] by blast
  then show ?thesis
    by (simp add: blocklist_domains_def q [of _ rows] q [of _ "t_blocked_domains db"] split: option.splits)
qed

lemma rows_at_remove:
  assumes "remove_first n (\<lambda>(d, b, g). b = rid \<and> P g) (t_blocked_domains db) = (k, rows)"
  shows "\<not> P g \<Longrightarrow> rows_at (db\<lparr>t_blocked_domains := rows\<rparr>) rid g = rows_at db rid g"
    and "k = 0 \<Longrightarrow> 0 < n \<Longrightarrow> P g \<Longrightarrow> rows_at db rid g = {}"
proof -
  let ?Q = "\<lambda>x. \<not> (case x of (d, b, g) \<Rightarrow> b = rid \<and> P g)"
  note s = remove_first_sublist [OF assms]
  show "rows_at (db\<lparr>t_blocked_domains := rows\<rparr>) rid g = rows_at db rid g" if "\<not> P g"
  proof -
    have "{x \<in> set rows. ?Q x} = {x \<in> set (t_blocked_domains db). ?Q x}"
      using s by (simp flip: set_filter)
    then have "(d, rid, g) \<in> {x \<in> set rows. ?Q x} \<longleftrightarrow> (d, rid, g) \<in> {x \<in> set (t_blocked_domains db). ?Q x}"
      for d by (rule arg_cong)
    then show ?thesis using that by (simp add: rows_at_def)
  qed
  show "rows_at db rid g = {}" if "k = 0" "0 < n" "P g"
  proof -
    have "\<forall>x \<in> set (t_blocked_domains db). ?Q x" using s that by blast
    then show ?thesis using that by (auto simp: rows_at_def)
  qed
qed

definition import_inv ::
    "'u filter_db \<Rightarrow> 'u \<Rightarrow> 64 word \<Rightarrow> 64 word \<Rightarrow> string list \<Rightarrow> import_phase \<times> 'u filter_db \<Rightarrow> bool" where
  "import_inv db0 rid old next domains = (\<lambda>(ph, db).
     (\<forall>r. r \<noteq> rid \<longrightarrow> blocklist_domains db r = blocklist_domains db0 r) \<and>
     (case ph of
        Clearing \<Rightarrow> get_blocklist db rid = get_blocklist db0 rid \<and> rows_at db rid old = rows_at db0 rid old
      | Inserting bs \<Rightarrow>
          get_blocklist db rid = get_blocklist db0 rid \<and> rows_at db rid old = rows_at db0 rid old \<and>
          distinct (concat bs) \<and> rows_at db rid next \<inter> set (concat bs) = {} \<and>
          rows_at db rid next \<union> set (concat bs) = set domains
      | _ \<Rightarrow> rows_at db rid next = set domains \<and>
             map_option bl_active_generation (get_blocklist db rid) = Some next))"

lemma import_inv_step:
  assumes "import_step rid next domains now c c'" and "import_inv db0 rid old next domains c"
    and "old \<noteq> next" and "distinct domains" and "get_blocklist db0 rid \<noteq> None"
  shows "import_inv db0 rid old next domains c'"
  using assms(1,2)
proof cases
  case (clear_round db n rows)
  have "r \<noteq> rid \<Longrightarrow> blocklist_domains (db\<lparr>t_blocked_domains := rows\<rparr>) r = blocklist_domains db r" for r
    using clear_round(3) by (rule blocklist_domains_remove [where P = "\<lambda>g. g = next"])
  moreover have "\<not> g = next \<Longrightarrow> rows_at (db\<lparr>t_blocked_domains := rows\<rparr>) rid g = rows_at db rid g" for g
    using clear_round(3) by (rule rows_at_remove(1) [where P = "\<lambda>g. g = next"])
  ultimately show ?thesis
    using clear_round assms(2,3) by (simp add: import_inv_def)
next
  case (clear_done db rows)
  then have "rows_at db rid next = {}"
    using rows_at_remove(2) [of DELETE_BATCH_ROWS rid "\<lambda>g. g = next" db 0 rows "next"]
    by (simp add: DELETE_BATCH_ROWS_def)
  with clear_done show ?thesis
    using assms by (simp add: import_inv_def concat_chunks IMPORT_BATCH_ROWS_def)
next
  case (insert b db bs)
  then show ?thesis
    using assms by (auto simp: import_inv_def rows_at_insert blocklist_domains_insert)
next
  case (flip db)
  then show ?thesis
    using assms by (auto simp: import_inv_def blocklist_domains_flip get_blocklist_flip)
next
  case (reclaim_round db n rows)
  have "r \<noteq> rid \<Longrightarrow> blocklist_domains (db\<lparr>t_blocked_domains := rows\<rparr>) r = blocklist_domains db r" for r
    using reclaim_round(3) by (rule blocklist_domains_remove [where P = "\<lambda>g. g \<noteq> next"])
  moreover have "\<not> g \<noteq> next \<Longrightarrow> rows_at (db\<lparr>t_blocked_domains := rows\<rparr>) rid g = rows_at db rid g" for g
    using reclaim_round(3) by (rule rows_at_remove(1) [where P = "\<lambda>g. g \<noteq> next"])
  ultimately show ?thesis
    using reclaim_round assms(2,3) by (simp add: import_inv_def)
next
  case (reclaim_done db)
  then show ?thesis using assms by (simp add: import_inv_def)
qed

lemma import_inv_reachable:
  assumes "(import_step rid next domains now)\<^sup>*\<^sup>* (Clearing, db) c"
    and "get_blocklist db rid = Some bl" and "next = bl_active_generation bl + 1" and "distinct domains"
  shows "import_inv db rid (bl_active_generation bl) next domains c"
  using assms(1)
proof (induction rule: rtranclp_induct)
  case base
  then show ?case by (simp add: import_inv_def)
next
  case (step c c')
  from step.hyps(2) step.IH show ?case
    by (rule import_inv_step) (use assms in auto)
qed

text \<open>
  C13: a block-list import is atomic for readers, wherever the daemon stops. In every state
  reachable transaction by transaction, a reader sees the old domains until the generation is
  flipped and exactly the new ones from then on; the other block lists never change; and no
  insert can hit a duplicate key.
\<close>

theorem import_atomic:
  assumes "get_blocklist db rid = Some bl" and "domains = dedupe {} domains0"
    and "(import_step rid (bl_active_generation bl + 1) domains now)\<^sup>*\<^sup>* (Clearing, db) (ph, db')"
  shows "set (blocklist_domains db' rid) =
      (if ph \<in> {Reclaiming, Imported} then set domains0 else set (blocklist_domains db rid)) \<and>
    (\<forall>r. r \<noteq> rid \<longrightarrow> blocklist_domains db' r = blocklist_domains db r) \<and>
    (\<forall>b bs. ph = Inserting (b # bs) \<longrightarrow> \<not> batch_conflicts rid (bl_active_generation bl + 1) b db')"
proof -
  have d: "distinct domains" "set domains = set domains0"
    using assms(2) by (simp_all add: dedupe_distinct dedupe_set)
  have inv: "import_inv db rid (bl_active_generation bl) (bl_active_generation bl + 1) domains (ph, db')"
    by (rule import_inv_reachable [OF assms(3,1) refl d(1)])
  show ?thesis
  proof (cases ph)
    case (Inserting bs)
    then show ?thesis
      using inv assms(1) d
      by (auto simp: import_inv_def visible_rows batch_conflicts_def rows_at_def)
  qed (use inv assms(1) d in \<open>auto simp: import_inv_def visible_rows\<close>)
qed

definition ex_blocklist :: "nat blocklist" where
  "ex_blocklist = \<lparr>bl_id = 1, bl_profile_id = 7, bl_name = ''feed'', bl_url = ''http://feed'', bl_enabled = True,
     bl_entry_count = 1, bl_last_updated = None, bl_cron_schedule = ''0 3 * * *'', bl_last_error = None,
     bl_last_error_at = None, bl_consecutive_failures = 2, bl_active_generation = 4\<rparr>"

definition ex_import_db :: "nat filter_db" where
  "ex_import_db = \<lparr>t_profiles = [], t_blocklists = [ex_blocklist],
     t_blocked_domains = [(''old.com'', 1, 4)], t_allowlist = [], t_custom_rules = [],
     t_device_settings = [], t_device_profile = [], t_default_profile = [],
     t_filtering_enabled = None, t_alert_threshold = None, t_devices = []\<rparr>"

theorem import_atomic_witness:
  "set (blocklist_domains (flip_generation 1 5 1 99 (insert_batch 1 5 [''a.com''] ex_import_db)) 1) = {''a.com''}
   \<and> blocklist_domains ex_import_db 1 = [''old.com'']"
proof -
  let ?db1 = "insert_batch 1 5 [''a.com''] ex_import_db"
  let ?S = "import_step 1 5 [''a.com''] 99"
  have g: "get_blocklist ex_import_db 1 = Some ex_blocklist"
    by (simp add: get_blocklist_def ex_import_db_def ex_blocklist_def)
  have n: "bl_active_generation ex_blocklist + 1 = 5" by (simp add: ex_blocklist_def)
  have c: "chunks IMPORT_BATCH_ROWS [''a.com''] = [[''a.com'']]"
    by (simp add: chunks.simps IMPORT_BATCH_ROWS_def)
  have s1: "?S (Clearing, ex_import_db) (Inserting [[''a.com'']], ex_import_db)"
    by (rule import_step.clear_done [of 1 5 ex_import_db "t_blocked_domains ex_import_db" "[''a.com'']" 99, unfolded c])
      (simp add: ex_import_db_def)
  have s2: "?S (Inserting [[''a.com'']], ex_import_db) (Inserting [], ?db1)"
    by (rule import_step.insert) (simp add: batch_conflicts_def ex_import_db_def)
  have s3: "?S (Inserting [], ?db1) (Reclaiming, flip_generation 1 5 1 99 ?db1)"
    using import_step.flip [of 1 5 "[''a.com'']" 99 ?db1] by simp
  have star: "?S\<^sup>*\<^sup>* (Clearing, ex_import_db) (Reclaiming, flip_generation 1 5 1 99 ?db1)"
    by (rule converse_rtranclp_into_rtranclp [of ?S, OF s1], rule converse_rtranclp_into_rtranclp [of ?S, OF s2],
        rule r_into_rtranclp [of ?S, OF s3])
  have d: "[''a.com''] = dedupe {} [''a.com'']" by simp
  have "set (blocklist_domains (flip_generation 1 5 1 99 ?db1) 1) = set [''a.com'']"
    using import_atomic [OF g d, unfolded n, OF star] by simp
  moreover have "blocklist_domains ex_import_db 1 = [''old.com'']"
    unfolding blocklist_domains_def g option.case by (simp add: ex_import_db_def ex_blocklist_def)
  ultimately show ?thesis by simp
qed

lemma insert_batches_ok:
  "distinct (concat bs) \<Longrightarrow> rows_at db rid next \<inter> set (concat bs) = {} \<Longrightarrow>
   insert_batches rid next bs db =
     Inr (db\<lparr>t_blocked_domains := t_blocked_domains db @ map (\<lambda>d. (d, rid, next)) (concat bs)\<rparr>)"
proof (induction bs arbitrary: db)
  case Nil
  then show ?case by simp
next
  case (Cons b bs)
  have "\<not> batch_conflicts rid next b db"
    using Cons.prems by (auto simp: batch_conflicts_def rows_at_def)
  moreover have "rows_at (insert_batch rid next b db) rid next \<inter> set (concat bs) = {}"
    using Cons.prems by (auto simp: rows_at_insert)
  ultimately show ?case
    using Cons.prems(1) Cons.IH by (simp add: insert_batch_def)
qed

lemma replace_ok:
  assumes "get_blocklist db rid = Some bl"
  shows "\<exists>db'. replace_blocklist_domains db now rid domains = Inr (card (set domains), db') \<and>
    set (blocklist_domains db' rid) = set domains \<and>
    (\<forall>g. g \<noteq> bl_active_generation bl + 1 \<longrightarrow> rows_at db' rid g = {})"
proof -
  let ?next = "bl_active_generation bl + 1" and ?ds = "dedupe {} domains"
  let ?db1 = "snd (delete_domains_in_batches db rid (Generation ?next))"
  define db2 where "db2 = ?db1\<lparr>t_blocked_domains := t_blocked_domains ?db1 @ map (\<lambda>d. (d, rid, ?next)) ?ds\<rparr>"
  define db3 where "db3 = flip_generation rid ?next (length ?ds) now db2"
  define db4 where "db4 = snd (delete_domains_in_batches db3 rid (AllExcept ?next))"
  have empty: "rows_at ?db1 rid ?next = {}"
    by (auto simp: delete_domains_in_batches_filter rows_at_def)
  then have "insert_batches rid ?next (chunks IMPORT_BATCH_ROWS ?ds) ?db1 = Inr db2"
    by (subst insert_batches_ok) (simp_all add: concat_chunks IMPORT_BATCH_ROWS_def dedupe_distinct db2_def)
  then have r: "replace_blocklist_domains db now rid domains = Inr (length ?ds, db4)"
    by (simp add: replace_blocklist_domains_def assms Let_def split_def db3_def db4_def)
  have len: "length ?ds = card (set domains)"
    using distinct_card [OF dedupe_distinct, of "{}" domains] by (simp add: dedupe_set)
  have rows2: "rows_at db2 rid ?next = set domains"
    using empty by (auto simp: db2_def rows_at_def dedupe_set)
  have rows4: "rows_at db4 rid g = (if g = ?next then set domains else {})" for g
    using rows2 rows_at_flip [of rid ?next "length ?ds" now db2 rid g]
    by (auto simp: db4_def db3_def delete_domains_in_batches_filter rows_at_def)
  have "get_blocklist db2 rid = Some bl"
    by (simp add: db2_def delete_domains_in_batches_filter assms)
  then obtain bl' where "get_blocklist db4 rid = Some bl'" "bl_active_generation bl' = ?next"
    by (auto simp: db4_def db3_def delete_domains_in_batches_filter get_blocklist_flip)
  with rows4 have "set (blocklist_domains db4 rid) = set domains" by (simp add: visible_rows)
  with r len rows4 show ?thesis by simp
qed

text \<open>
  C23: an import that is not interrupted succeeds for every list of domains, duplicates
  included. It reports the number of distinct domains, readers then see exactly these, and no
  row of another generation of the block list is left, however many interrupted imports came
  before.
\<close>

theorem replace_blocklist_domains_ok:
  assumes "get_blocklist db rid = Some bl"
  shows "\<exists>db'. replace_blocklist_domains db now rid domains = Inr (card (set domains), db') \<and>
    set (blocklist_domains db' rid) = set domains \<and>
    (\<forall>g. g \<noteq> bl_active_generation bl + 1 \<longrightarrow> rows_at db' rid g = {})"
  using assms by (rule replace_ok)

theorem replace_blocklist_domains_ok_witness:
  "\<exists>db'. replace_blocklist_domains ex_import_db 99 1 [''a.com'', ''a.com'', ''b.com''] = Inr (2, db') \<and>
     set (blocklist_domains db' 1) = {''a.com'', ''b.com''} \<and> rows_at db' 1 4 = {}"
proof -
  let ?ds = "[''a.com'', ''a.com'', ''b.com'']"
  have g: "get_blocklist ex_import_db 1 = Some ex_blocklist"
    by (simp add: get_blocklist_def ex_import_db_def ex_blocklist_def)
  have c: "card (set ?ds) = 2" by simp
  have n: "(4 :: 64 word) \<noteq> bl_active_generation ex_blocklist + 1" by (simp add: ex_blocklist_def)
  obtain db' where r: "replace_blocklist_domains ex_import_db 99 1 ?ds = Inr (card (set ?ds), db')"
    and v: "set (blocklist_domains db' 1) = set ?ds"
    and o: "\<forall>g. g \<noteq> bl_active_generation ex_blocklist + 1 \<longrightarrow> rows_at db' 1 g = {}"
    using replace_blocklist_domains_ok [OF g] by blast
  have "set ?ds = {''a.com'', ''b.com''}" by simp
  with r [unfolded c] v o n show ?thesis by metis
qed

text \<open>The compiled filter of a block list, as the service rebuilds it from the stored rows.\<close>

definition compiled_blocklist :: "'u filter_db \<Rightarrow> 'u \<Rightarrow> ('r, 'q, 'n) dns_filter" where
  "compiled_blocklist db rid = builder_finish (fold builder_insert (blocklist_domains db rid) builder_new)"

lemma compiled_blocklist_alt:
  "compiled_blocklist db rid =
     \<lparr>blocked_domains = normalize_owned ` set (blocklist_domains db rid), allowed_domains = {}, complex = []\<rparr>"
proof -
  have "fold builder_insert ds S = S \<union> normalize_owned ` set ds" for ds S
    by (induction ds arbitrary: S) (auto simp: builder_insert_def)
  then show ?thesis by (simp add: compiled_blocklist_def builder_finish_def builder_new_def empty_filter_def)
qed

lemma block_domain_Some:
  "block_domain L line = Some d \<longleftrightarrow>
     (\<exists>m. parse_line L line = Inr (Some (DomainBlock d m False)) \<and> modifiers_empty m)"
  by (auto simp: block_domain_def split: sum.splits option.splits parsed_rule.splits if_splits)

lemma block_domain_canonical: "block_domain L line = Some d \<Longrightarrow> normalize_owned d = d"
  by (auto simp: block_domain_Some rule_domain_ok_def normalize_owned_id dest: parse_line_rule_ok)

lemma set_parse_blocklist_body:
  "set (parse_blocklist_body L body) = {d. \<exists>line \<in> set (str_lines body). block_domain L line = Some d}"
  by (force simp: parse_blocklist_body_def dedupe_set List.map_filter_def)

lemma check_blocked_only:
  "check L \<lparr>blocked_domains = S, allowed_domains = {}, complex = []\<rparr> domain qtype client =
     (if \<exists>r \<in> S. in_subtree r (normalize_owned domain) then Match Block else NoMatch)"
  by (simp add: check_joins source_outcomes_def set_outcomes_def matches_subdomain_in_subtree)

lemma blocklist_domains_error:
  "blocklist_domains (set_blocklist_error db now rid e) r = blocklist_domains db r"
proof -
  let ?f = "\<lambda>b. if bl_id b = rid
     then (case e of
             Some msg \<Rightarrow> b\<lparr>bl_last_error := Some msg, bl_last_error_at := Some now,
                            bl_consecutive_failures := bl_consecutive_failures b + 1\<rparr>
           | None \<Rightarrow> b\<lparr>bl_last_error := None, bl_last_error_at := None, bl_consecutive_failures := 0\<rparr>)
     else b"
  have "find (\<lambda>b. bl_id b = r) (map ?f (t_blocklists db)) = map_option ?f (find (\<lambda>b. bl_id b = r) (t_blocklists db))"
    by (rule find_map_same) (simp split: option.splits)
  moreover have "bl_active_generation (?f b) = bl_active_generation b" for b :: "'a blocklist"
    by (simp split: option.splits)
  ultimately show ?thesis
    by (simp add: blocklist_domains_def get_blocklist_def set_blocklist_error_def split: option.splits)
qed

text \<open>
  C14: from the feed to the verdict. When a refresh succeeds, the filter compiled from the
  stored rows blocks a name exactly when some line of the fetched text is a plain block rule for
  the name or one of its parents, and has no opinion otherwise.
\<close>

theorem feed_to_verdict:
  assumes "fetch (bl_url bl) = Inr body"
    and "refresh_blocklist L fetch now bl db = (Inr n, db', evs)"
    and "get_blocklist db (bl_id bl) = Some bl0"
  shows "check L (compiled_blocklist db' (bl_id bl)) domain qtype client =
      (if \<exists>line \<in> set (str_lines body). \<exists>d m. parse_line L line = Inr (Some (DomainBlock d m False)) \<and>
            modifiers_empty m \<and> in_subtree d (normalize_owned domain)
       then Match Block else NoMatch) \<and>
    evs = [DnsFilterBlocklistUpdated (bl_id bl) n]"
proof -
  let ?ds = "parse_blocklist_body L body"
  obtain db1 where r: "replace_blocklist_domains db now (bl_id bl) ?ds = Inr (card (set ?ds), db1)"
    and v: "set (blocklist_domains db1 (bl_id bl)) = set ?ds"
    using replace_ok [OF assms(3)] by blast
  from assms(1,2) r have e: "db' = set_blocklist_error db1 now (bl_id bl) None"
      "evs = [DnsFilterBlocklistUpdated (bl_id bl) n]"
    by (auto simp: refresh_blocklist_def Let_def split: if_splits)
  have "set (blocklist_domains db' (bl_id bl)) = set ?ds"
    by (simp add: e blocklist_domains_error v)
  moreover have "normalize_owned ` set ?ds = set ?ds"
    by (force simp: set_parse_blocklist_body block_domain_canonical)
  ultimately have "check L (compiled_blocklist db' (bl_id bl)) domain qtype client =
      (if \<exists>r \<in> set ?ds. in_subtree r (normalize_owned domain) then Match Block else NoMatch)"
    by (simp add: compiled_blocklist_alt check_blocked_only)
  with e(2) show ?thesis by (auto simp: set_parse_blocklist_body block_domain_Some)
qed

theorem feed_to_verdict_witness:
  "\<exists>n db' evs.
     refresh_blocklist ex_parser_lib (\<lambda>_. Inr ''||ads.com^'') 99 ex_blocklist ex_import_db = (Inr n, db', evs) \<and>
     check ex_parser_lib (compiled_blocklist db' 1) ''x.ads.com'' ''A'' (V4 0) = Match Block"
proof -
  let ?fetch = "\<lambda>_. Inr ''||ads.com^''"
  have pd: "plain_domain ''ads.com''" by code_simp
  have nm: "normalize_owned ''ads.com'' = ''ads.com''" "normalize_owned ''x.ads.com'' = ''x.ads.com''"
    by code_simp+
  have p: "parse_line ex_parser_lib ''||ads.com^'' = Inr (Some (DomainBlock ''ads.com'' default_modifiers False))"
    using parse_adblock_line [OF pd, of ex_parser_lib] nm by simp
  have ls: "str_lines ''||ads.com^'' = [''||ads.com^'']" by code_simp
  have me: "modifiers_empty (default_modifiers :: (string, ip_addr) rule_modifiers)"
    by (simp add: modifiers_empty_def default_modifiers_def)
  have ds: "parse_blocklist_body ex_parser_lib ''||ads.com^'' = [''ads.com'']"
    by (simp add: parse_blocklist_body_def ls block_domain_def p me map_filter_simps)
  have id: "bl_id ex_blocklist = 1" by (simp add: ex_blocklist_def)
  have g: "get_blocklist ex_import_db (bl_id ex_blocklist) = Some ex_blocklist"
    by (simp add: get_blocklist_def ex_import_db_def ex_blocklist_def)
  from replace_ok [OF g, of 99 "[''ads.com'']"]
  obtain db1 where "replace_blocklist_domains ex_import_db 99 (bl_id ex_blocklist) [''ads.com''] = Inr (1, db1)"
    by auto
  then obtain n db' evs where
    r: "refresh_blocklist ex_parser_lib ?fetch 99 ex_blocklist ex_import_db = (Inr n, db', evs)"
    by (auto simp: refresh_blocklist_def ds Let_def)
  have "in_subtree ''ads.com'' ''x.ads.com''" by (simp add: in_subtree_def)
  then have "check ex_parser_lib (compiled_blocklist db' (bl_id ex_blocklist)) ''x.ads.com'' ''A'' (V4 0) = Match Block"
    using feed_to_verdict [where fetch = ?fetch, OF refl r g, of "''x.ads.com''" "''A''" "V4 0"] p me ls nm by auto
  with r id show ?thesis by auto
qed

text \<open>
  A refresh that fails, in the download, in the parser or in the store, leaves what the
  filter is compiled from untouched, publishes nothing and counts one more failure.
\<close>

theorem refresh_failure_keeps_domains:
  assumes "refresh_blocklist L fetch now bl db = (Inl e, db', evs)"
  shows "blocklist_domains db' r = blocklist_domains db r \<and> evs = [] \<and>
    (\<forall>b'. get_blocklist db' (bl_id bl) = Some b' \<longrightarrow>
       (\<exists>b. get_blocklist db (bl_id bl) = Some b \<and>
            bl_consecutive_failures b' = bl_consecutive_failures b + 1 \<and> bl_last_error_at b' = Some now))"
proof -
  from assms obtain msg where d: "db' = set_blocklist_error db now (bl_id bl) (Some msg)" "evs = []"
    by (auto simp: refresh_blocklist_def Let_def split: sum.splits if_splits)
  let ?f = "\<lambda>b. if bl_id b = bl_id bl
     then b\<lparr>bl_last_error := Some msg, bl_last_error_at := Some now,
            bl_consecutive_failures := bl_consecutive_failures b + 1\<rparr> else b"
  have g: "get_blocklist db' (bl_id bl) = map_option ?f (get_blocklist db (bl_id bl))"
    unfolding get_blocklist_def d(1) set_blocklist_error_def by (simp add: find_map_same cong: if_cong)
  have id: "get_blocklist db r = Some b \<Longrightarrow> bl_id b = r" for r b
    by (auto simp: get_blocklist_def find_Some_iff)
  have "\<exists>b. get_blocklist db (bl_id bl) = Some b \<and>
      bl_consecutive_failures b' = bl_consecutive_failures b + 1 \<and> bl_last_error_at b' = Some now"
    if b': "get_blocklist db' (bl_id bl) = Some b'" for b'
  proof -
    from g b' obtain b where b: "get_blocklist db (bl_id bl) = Some b" "b' = ?f b"
      by (cases "get_blocklist db (bl_id bl)") simp_all
    with id [OF b(1)] show ?thesis by simp
  qed
  then show ?thesis by (simp add: d blocklist_domains_error)
qed

theorem refresh_failure_keeps_domains_witness:
  "\<exists>db'. refresh_blocklist ex_parser_lib (\<lambda>_. Inl ''timeout'') 99 ex_blocklist ex_import_db = (Inl ''timeout'', db', []) \<and>
     blocklist_domains db' 1 = blocklist_domains ex_import_db 1"
proof -
  obtain db' where
    r: "refresh_blocklist ex_parser_lib (\<lambda>_. Inl ''timeout'') 99 ex_blocklist ex_import_db = (Inl ''timeout'', db', [])"
    by (simp add: refresh_blocklist_def)
  from refresh_failure_keeps_domains [OF r, of 1] r show ?thesis by blast
qed

text \<open>
  The hold-off doubles from 5 minutes per consecutive failure and stops at 6 hours: it lies
  within these bounds, never shrinks with more failures, is \<open>5 * 2 ^ (n - 1)\<close> up to the seventh
  failure and 6 hours from the eighth on.
\<close>

theorem backoff_schedule:
  "5 \<le> backoff_mins n \<and> backoff_mins n \<le> 360 \<and> backoff_mins n \<le> backoff_mins (Suc n) \<and>
   backoff_mins n = (if n \<le> 7 then 5 * 2 ^ (n - 1) else 360)"
proof -
  have c: "backoff_mins n = (if n \<le> 7 then 5 * 2 ^ (n - 1) else 360)" for n
  proof (cases "n \<le> 7")
    case True
    then have "n \<in> {0, 1, 2, 3, 4, 5, 6, 7}" by auto
    then show ?thesis
      by (auto simp: backoff_mins_def REFRESH_BACKOFF_BASE_MINS_def REFRESH_BACKOFF_MAX_MINS_def)
  next
    case False
    have "(2 :: nat) ^ 7 \<le> 2 ^ min (n - 1) 16"
      using False by (intro power_increasing) auto
    then show ?thesis
      using False by (simp add: backoff_mins_def REFRESH_BACKOFF_BASE_MINS_def REFRESH_BACKOFF_MAX_MINS_def)
  qed
  have "(2 :: nat) ^ (n - 1) \<le> 2 ^ 6" if "n \<le> 7" using that by (intro power_increasing) auto
  moreover have "(2 :: nat) ^ (n - 1) \<le> 2 ^ n" by (intro power_increasing) auto
  ultimately show ?thesis by (auto simp: c)
qed

end
