(* ===== verification/Auth_Context.thy ===== *)
theory Auth_Context
  imports Prelude
begin

text \<open>
  The application error type (\<open>wardnetd-services/src/error.rs\<close>), the caller's identity
  (\<open>wardnet-common/src/auth.rs\<close>) and the two guards every service method starts with
  (\<open>auth_context.rs\<close>), with the combinators the handlers are written with. The task-local
  context is an argument; \<open>None\<close> is a task without one.
\<close>

datatype app_error =
    NotFound string
  | Unauthorized string
  | Forbidden string
  | BadRequest string
  | Conflict string
  | TooManyRequests string nat
  | UpstreamUnavailable string
  | Internal string
  | Database string

datatype user_role = AdminRole | MemberRole

fun role_as_str :: "user_role \<Rightarrow> string" where
  "role_as_str AdminRole = ''admin''"
| "role_as_str MemberRole = ''member''"

definition role_parse :: "string \<Rightarrow> user_role option" where
  "role_parse raw =
     (if raw = ''admin'' then Some AdminRole else if raw = ''member'' then Some MemberRole else None)"

datatype 'u auth_context = User 'u user_role | DeviceCaller string | Anonymous

fun is_admin :: "'u auth_context \<Rightarrow> bool" where
  "is_admin (User _ r) = (r = AdminRole)"
| "is_admin (DeviceCaller _) = False"
| "is_admin Anonymous = False"

fun is_authenticated :: "'u auth_context \<Rightarrow> bool" where
  "is_authenticated (User _ _) = True"
| "is_authenticated (DeviceCaller _) = True"
| "is_authenticated Anonymous = False"

fun device_mac :: "'u auth_context \<Rightarrow> string option" where
  "device_mac (DeviceCaller mac) = Some mac"
| "device_mac (User _ _) = None"
| "device_mac Anonymous = None"

definition require_admin :: "'u auth_context option \<Rightarrow> app_error + unit" where
  "require_admin ctx =
     (let c = (case ctx of Some c \<Rightarrow> c | None \<Rightarrow> Anonymous) in
      if \<not> is_admin c then Inl (Forbidden ''admin privileges required'') else Inr ())"

definition require_authenticated :: "'u auth_context option \<Rightarrow> app_error + unit" where
  "require_authenticated ctx =
     (let c = (case ctx of Some c \<Rightarrow> c | None \<Rightarrow> Anonymous) in
      if \<not> is_authenticated c then Inl (Forbidden ''authentication required'') else Inr ())"

lemma role_parse_as_str [simp]: "role_parse (role_as_str r) = Some r"
  by (cases r) (simp_all add: role_parse_def)

lemma require_admin_Inr [simp]: "require_admin ctx = Inr u \<longleftrightarrow> (\<exists>i. ctx = Some (User i AdminRole))"
proof -
  have "is_admin c \<longleftrightarrow> (\<exists>i. c = User i AdminRole)" for c :: "'a auth_context"
    by (cases c) auto
  then show ?thesis by (auto simp: require_admin_def Let_def split: option.splits)
qed

section \<open>How a handler goes on and stops\<close>

text \<open>The \<open>?\<close> operator: stop with the error and the state reached, or go on.\<close>

definition attempt :: "'e + 'a \<Rightarrow> 's \<Rightarrow> ('a \<Rightarrow> ('e + 'b) \<times> 's) \<Rightarrow> ('e + 'b) \<times> 's" where
  "attempt r s k = (case r of Inl e \<Rightarrow> (Inl e, s) | Inr x \<Rightarrow> k x)"

definition internal :: "string + 'a \<Rightarrow> app_error + 'a" where
  "internal r = (case r of Inl e \<Rightarrow> Inl (Internal e) | Inr x \<Rightarrow> Inr x)"

definition ok_or :: "app_error \<Rightarrow> 'a option \<Rightarrow> app_error + 'a" where
  "ok_or e x = (case x of None \<Rightarrow> Inl e | Some y \<Rightarrow> Inr y)"

definition require :: "bool \<Rightarrow> app_error \<Rightarrow> app_error + unit" where
  "require b e = (if b then Inr () else Inl e)"

fun validate_opt :: "('a \<Rightarrow> app_error + unit) \<Rightarrow> 'a option \<Rightarrow> app_error + unit" where
  "validate_opt f None = Inr ()"
| "validate_opt f (Some x) = f x"

definition quoted :: "string \<Rightarrow> string" where
  "quoted s = CHR 0x27 # s @ [CHR 0x27]"

lemma attempt_failed:
  "attempt r s k = (Inl e, S') \<Longrightarrow> s = S \<Longrightarrow> (\<And>x. r = Inr x \<Longrightarrow> k x = (Inl e, S') \<Longrightarrow> S' = S) \<Longrightarrow> S' = S"
  by (auto simp: attempt_def split: sum.splits)

lemma attempt_ok_or: "attempt (ok_or e y) s k = (case y of None \<Rightarrow> (Inl e, s) | Some x \<Rightarrow> k x)"
  by (simp add: attempt_def ok_or_def split: option.splits)

end
