(* ===== verification/Filter_Service.thy ===== *)
theory Filter_Service
  imports Blocklist_Import Auth_Context
begin

text \<open>
  The filter service (\<open>dns_filter/service.rs\<close>): the compiled filters held in shared slots, the
  rebuild operations, the hot-path check, the admin operations that change the stored
  configuration and publish an event, and the runner that answers an event with a rebuild
  (\<open>dns_filter/runner.rs\<close>). An \<open>Arc<ArcSwap<T>>\<close> is an address into a heap; a clone of the \<open>Arc\<close> is
  the same address, so a store is visible through every holder. An operation that reads the
  repository several times reads one snapshot of it. A repository call fails only on a violated
  constraint.
\<close>

section \<open>State\<close>

record device_context =
  ctx_enabled :: bool
  ctx_profiles :: "nat list"

record 'u runtime_profile =
  rp_id :: 'u
  rp_name :: string
  rp_filters :: "nat list"

datatype 'u filter_change =
    ProfileContent 'u
  | ProfileMembership 'u
  | DeviceAssignment 'u
  | DefaultProfile
  | GlobalToggle

datatype 'u filter_event = DnsFilterChanged "'u filter_change" | DnsFilterRebuilt

record ('u, 'r, 'q, 'n) filter_svc =
  filter_heap :: "nat \<Rightarrow> ('r, 'q, 'n) dns_filter"
  filter_next :: nat
  profile_heap :: "nat \<Rightarrow> 'u runtime_profile"
  profile_next :: nat
  blocklist_filters :: "'u \<Rightarrow> nat option"
  profile_aux_filters :: "'u \<Rightarrow> nat option"
  svc_profiles :: "'u \<Rightarrow> nat option"
  contexts :: "ip_addr \<Rightarrow> device_context option"
  device_contexts :: "'u \<Rightarrow> device_context option"
  default_context :: device_context
  svc_config :: "'u filter_config"
  bootstrapped :: bool
  events :: "'u filter_event list"

record check_outcome =
  co_action :: filter_action
  co_would_have_blocked :: bool

definition unfiltered :: device_context where
  "unfiltered = \<lparr>ctx_enabled = True, ctx_profiles = []\<rparr>"

definition publish :: "'u filter_event \<Rightarrow> ('u, 'r, 'q, 'n) filter_svc \<Rightarrow> ('u, 'r, 'q, 'n) filter_svc" where
  "publish e s = s\<lparr>events := events s @ [e]\<rparr>"

section \<open>Rebuilding\<close>

definition put_filter ::
    "('u \<Rightarrow> nat option) \<Rightarrow> 'u \<Rightarrow> ('r, 'q, 'n) dns_filter \<Rightarrow> ('u, 'r, 'q, 'n) filter_svc \<Rightarrow>
     nat \<times> ('u \<Rightarrow> nat option) \<times> ('u, 'r, 'q, 'n) filter_svc" where
  "put_filter m k f s =
     (case m k of
        Some a \<Rightarrow> (a, m, s\<lparr>filter_heap := (filter_heap s)(a := f)\<rparr>)
      | None \<Rightarrow> (filter_next s, m(k \<mapsto> filter_next s),
                 s\<lparr>filter_heap := (filter_heap s)(filter_next s := f), filter_next := filter_next s + 1\<rparr>))"

definition rebuild_blocklist_inner ::
    "'u filter_db \<Rightarrow> 'u \<Rightarrow> ('u, 'r, 'q, 'n) filter_svc \<Rightarrow> ('u, 'r, 'q, 'n) filter_svc" where
  "rebuild_blocklist_inner db b s =
     (case get_blocklist db b of
        None \<Rightarrow> s\<lparr>blocklist_filters := (blocklist_filters s)(b := None)\<rparr>
      | Some bl \<Rightarrow>
          (let new_filter = (if bl_enabled bl
                             then builder_finish (fold builder_insert (blocklist_domains db b) builder_new)
                             else empty_filter);
               (a, m, s') = put_filter (blocklist_filters s) b new_filter s
           in publish DnsFilterRebuilt (s'\<lparr>blocklist_filters := m\<rparr>)))"

text \<open>The loop of \<open>rebuild_profile_inner\<close> that collects the slots of the enabled block lists.\<close>

fun stitch ::
    "'u filter_db \<Rightarrow> 'u blocklist list \<Rightarrow> nat list \<Rightarrow> ('u, 'r, 'q, 'n) filter_svc \<Rightarrow>
     nat list \<times> ('u, 'r, 'q, 'n) filter_svc" where
  "stitch db [] filters s = (filters, s)"
| "stitch db (bl # bls) filters s =
     (if \<not> bl_enabled bl then stitch db bls filters s
      else (case blocklist_filters s (bl_id bl) of
              Some a \<Rightarrow> stitch db bls (filters @ [a]) s
            | None \<Rightarrow>
                (let s' = rebuild_blocklist_inner db (bl_id bl) s in
                 case blocklist_filters s' (bl_id bl) of
                   Some a \<Rightarrow> stitch db bls (filters @ [a]) s'
                 | None \<Rightarrow> stitch db bls filters s')))"

definition rebuild_profile_inner ::
    "('r, 'q, 'n) parser_lib \<Rightarrow> 'u filter_db \<Rightarrow> 'u \<Rightarrow> ('u, 'r, 'q, 'n) filter_svc \<Rightarrow>
     ('u, 'r, 'q, 'n) filter_svc" where
  "rebuild_profile_inner L db pid s =
     (case get_profile db pid of
        None \<Rightarrow> s\<lparr>svc_profiles := (svc_profiles s)(pid := None),
                   profile_aux_filters := (profile_aux_filters s)(pid := None)\<rparr>
      | Some profile \<Rightarrow>
          (let (allowlist, custom_rules) = load_filter_inputs_for_profile db pid;
               aux_filter = build L \<lparr>in_blocked_domains = [], in_allowlist = allowlist,
                                      in_custom_rules = custom_rules\<rparr>;
               (aux_arc, m, s1) = put_filter (profile_aux_filters s) pid aux_filter s;
               s2 = s1\<lparr>profile_aux_filters := m\<rparr>;
               (filters, s3) = stitch db (list_blocklists db pid) [] s2;
               runtime = \<lparr>rp_id = prof_id profile, rp_name = prof_name profile,
                          rp_filters = filters @ [aux_arc]\<rparr>;
               s4 = (case svc_profiles s3 pid of
                       Some a \<Rightarrow> s3\<lparr>profile_heap := (profile_heap s3)(a := runtime)\<rparr>
                     | None \<Rightarrow> s3\<lparr>profile_heap := (profile_heap s3)(profile_next s3 := runtime),
                                  svc_profiles := (svc_profiles s3)(pid \<mapsto> profile_next s3),
                                  profile_next := profile_next s3 + 1\<rparr>)
           in publish DnsFilterRebuilt s4))"

definition materialise_context ::
    "('u, 'r, 'q, 'n) filter_svc \<Rightarrow> 'u device_filter_settings \<Rightarrow> device_context" where
  "materialise_context s settings =
     (if \<not> ds_enabled settings then \<lparr>ctx_enabled = False, ctx_profiles = []\<rparr>
      else \<lparr>ctx_enabled = True,
             ctx_profiles = (if ds_profile_ids settings = [] then []
                             else List.map_filter (svc_profiles s) (ds_profile_ids settings))\<rparr>)"

text \<open>\<open>last_ip\<close> is the address \<open>device_repo.find_by_id\<close> returns, if the device exists.\<close>

definition rebuild_device_inner ::
    "'u filter_db \<Rightarrow> 'u \<Rightarrow> ('u, 'r, 'q, 'n) filter_svc \<Rightarrow> ('u, 'r, 'q, 'n) filter_svc" where
  "rebuild_device_inner db did s =
     (let context = (case find_device_settings db did of
                       None \<Rightarrow> unfiltered
                     | Some st \<Rightarrow> materialise_context s st);
          new_ip = Option.bind (map_of (t_devices db) did) parse_ip;
          s1 = (case new_ip of
                  Some ip \<Rightarrow> s\<lparr>contexts := (contexts s)(ip \<mapsto> context)\<rparr>
                | None \<Rightarrow> s)
      in publish DnsFilterRebuilt (s1\<lparr>device_contexts := (device_contexts s1)(did \<mapsto> context)\<rparr>))"

definition rebuild_default_context_inner ::
    "('u, 'r, 'q, 'n) filter_svc \<Rightarrow> ('u, 'r, 'q, 'n) filter_svc" where
  "rebuild_default_context_inner s =
     (let ids = fc_default_profile_ids (svc_config s);
          new_ctx = (if ids = [] then unfiltered
                     else (let profiles = List.map_filter (svc_profiles s) ids in
                           if profiles = [] then unfiltered
                           else \<lparr>ctx_enabled = True, ctx_profiles = profiles\<rparr>))
      in publish DnsFilterRebuilt (s\<lparr>default_context := new_ctx\<rparr>))"

definition refresh_config ::
    "'u filter_db \<Rightarrow> ('u, 'r, 'q, 'n) filter_svc \<Rightarrow> ('u, 'r, 'q, 'n) filter_svc" where
  "refresh_config db s = s\<lparr>svc_config := get_dns_filter_config db\<rparr>"

text \<open>The public operations. \<open>guarded\<close> is the \<open>require_admin()?\<close> each of them starts with.\<close>

definition guarded ::
    "'v auth_context option \<Rightarrow> ('s \<Rightarrow> 's) \<Rightarrow> 's \<Rightarrow> (app_error + unit) \<times> 's" where
  "guarded auth f s =
     (case require_admin auth of Inl e \<Rightarrow> (Inl e, s) | Inr _ \<Rightarrow> (Inr (), f s))"

definition clear_caches :: "('u, 'r, 'q, 'n) filter_svc \<Rightarrow> ('u, 'r, 'q, 'n) filter_svc" where
  "clear_caches s =
     s\<lparr>blocklist_filters := Map.empty, profile_aux_filters := Map.empty, svc_profiles := Map.empty,
       contexts := Map.empty, device_contexts := Map.empty\<rparr>"

definition rebuild_one_profile ::
    "('r, 'q, 'n) parser_lib \<Rightarrow> 'u filter_db \<Rightarrow> 'u \<Rightarrow> ('u, 'r, 'q, 'n) filter_svc \<Rightarrow>
     ('u, 'r, 'q, 'n) filter_svc" where
  "rebuild_one_profile L db pid s =
     rebuild_profile_inner L db pid
       (fold (\<lambda>bl. rebuild_blocklist_inner db (bl_id bl)) (list_blocklists db pid) s)"

definition install_context ::
    "'u device_filter_settings \<times> string \<Rightarrow> ('u, 'r, 'q, 'n) filter_svc \<Rightarrow> ('u, 'r, 'q, 'n) filter_svc" where
  "install_context entry s =
     (let (st, ip) = entry; ctx = materialise_context s st;
          s1 = (case parse_ip ip of Some a \<Rightarrow> s\<lparr>contexts := (contexts s)(a \<mapsto> ctx)\<rparr> | None \<Rightarrow> s)
      in s1\<lparr>device_contexts := (device_contexts s1)(ds_device_id st \<mapsto> ctx)\<rparr>)"

definition rebuild_all ::
    "('r, 'q, 'n) parser_lib \<Rightarrow> 'v auth_context option \<Rightarrow> 'u filter_db \<Rightarrow> ('u, 'r, 'q, 'n) filter_svc \<Rightarrow>
     (app_error + unit) \<times> ('u, 'r, 'q, 'n) filter_svc" where
  "rebuild_all L auth db =
     guarded auth (\<lambda>s.
       (let s1 = clear_caches (refresh_config db s);
            s2 = fold (\<lambda>p. rebuild_one_profile L db (prof_id p)) (list_profiles db) s1;
            s3 = fold install_context (list_device_settings_with_ips db False) s2
        in (rebuild_default_context_inner s3)\<lparr>bootstrapped := True\<rparr>))"

definition rebuild_blocklist_filter ::
    "('r, 'q, 'n) parser_lib \<Rightarrow> 'v auth_context option \<Rightarrow> 'u filter_db \<Rightarrow> 'u \<Rightarrow>
     ('u, 'r, 'q, 'n) filter_svc \<Rightarrow> (app_error + unit) \<times> ('u, 'r, 'q, 'n) filter_svc" where
  "rebuild_blocklist_filter L auth db b =
     guarded auth (\<lambda>s.
       (let s1 = rebuild_blocklist_inner db b s in
        case get_blocklist db b of
          Some bl \<Rightarrow> rebuild_profile_inner L db (bl_profile_id bl) s1
        | None \<Rightarrow> s1))"

definition rebuild_profile ::
    "('r, 'q, 'n) parser_lib \<Rightarrow> 'v auth_context option \<Rightarrow> 'u filter_db \<Rightarrow> 'u \<Rightarrow>
     ('u, 'r, 'q, 'n) filter_svc \<Rightarrow> (app_error + unit) \<times> ('u, 'r, 'q, 'n) filter_svc" where
  "rebuild_profile L auth db pid =
     guarded auth (\<lambda>s.
       (let s1 = rebuild_one_profile L db pid s;
            s2 = (if pid \<in> set (fc_default_profile_ids (svc_config s1))
                  then rebuild_default_context_inner s1 else s1)
        in fold (\<lambda>(st, ip) s'. if pid \<in> set (ds_profile_ids st)
                               then rebuild_device_inner db (ds_device_id st) s' else s')
             (list_device_settings_with_ips db False) s2))"

definition rebuild_device ::
    "'v auth_context option \<Rightarrow> 'u filter_db \<Rightarrow> 'u \<Rightarrow> ('u, 'r, 'q, 'n) filter_svc \<Rightarrow>
     (app_error + unit) \<times> ('u, 'r, 'q, 'n) filter_svc" where
  "rebuild_device auth db did = guarded auth (rebuild_device_inner db did)"

definition rebuild_default_context ::
    "'v auth_context option \<Rightarrow> 'u filter_db \<Rightarrow> ('u, 'r, 'q, 'n) filter_svc \<Rightarrow>
     (app_error + unit) \<times> ('u, 'r, 'q, 'n) filter_svc" where
  "rebuild_default_context auth db =
     guarded auth (\<lambda>s. rebuild_default_context_inner (refresh_config db s))"

definition handle_device_ip_changed ::
    "'v auth_context option \<Rightarrow> 'u filter_db \<Rightarrow> 'u \<Rightarrow> string \<Rightarrow> string \<Rightarrow> ('u, 'r, 'q, 'n) filter_svc \<Rightarrow>
     (app_error + unit) \<times> ('u, 'r, 'q, 'n) filter_svc" where
  "handle_device_ip_changed auth db did old_ip new_ip =
     guarded auth (\<lambda>s.
       (let (entry, s1) = (case parse_ip old_ip of
                             Some ip \<Rightarrow> (contexts s ip, s\<lparr>contexts := (contexts s)(ip := None)\<rparr>)
                           | None \<Rightarrow> (None, s))
        in case (parse_ip new_ip, entry) of
             (Some new, Some ctx) \<Rightarrow> s1\<lparr>contexts := (contexts s1)(new \<mapsto> ctx)\<rparr>
           | _ \<Rightarrow> rebuild_device_inner db did s1))"

text \<open>The runner's reaction to one event (\<open>handle_filter_change\<close>); it runs as the system actor.\<close>

definition handle_filter_change ::
    "('r, 'q, 'n) parser_lib \<Rightarrow> 'v auth_context option \<Rightarrow> 'u filter_db \<Rightarrow> 'u filter_change \<Rightarrow>
     ('u, 'r, 'q, 'n) filter_svc \<Rightarrow> (app_error + unit) \<times> ('u, 'r, 'q, 'n) filter_svc" where
  "handle_filter_change L auth db change s =
     (case change of
        ProfileContent pid \<Rightarrow> rebuild_profile L auth db pid s
      | ProfileMembership pid \<Rightarrow> rebuild_profile L auth db pid s
      | DeviceAssignment did \<Rightarrow> rebuild_device auth db did s
      | DefaultProfile \<Rightarrow> rebuild_default_context auth db s
      | GlobalToggle \<Rightarrow> rebuild_default_context auth db s)"

section \<open>The hot path\<close>

text \<open>\<open>DeviceFilterContext::check\<close> on the slots' current contents.\<close>

definition context_filters ::
    "('u, 'r, 'q, 'n) filter_svc \<Rightarrow> device_context \<Rightarrow> ('r, 'q, 'n) dns_filter list list" where
  "context_filters s ctx =
     map (\<lambda>p. map (filter_heap s) (rp_filters (profile_heap s p))) (ctx_profiles ctx)"

definition outcome_with_context ::
    "('r, 'q, 'n) parser_lib \<Rightarrow> ('u, 'r, 'q, 'n) filter_svc \<Rightarrow> device_context option \<Rightarrow> string \<Rightarrow> 'q \<Rightarrow>
     ip_addr \<Rightarrow> check_outcome" where
  "outcome_with_context L s context domain qtype client =
     (let device_enabled = (case context of None \<Rightarrow> True | Some c \<Rightarrow> ctx_enabled c);
          global_enabled = fc_enabled (svc_config s);
          ctx_for_check = (case context of
                             Some c \<Rightarrow> (if ctx_profiles c \<noteq> [] then c else default_context s)
                           | None \<Rightarrow> default_context s);
          effective_action = device_check L (context_filters s ctx_for_check) domain qtype client
      in if \<not> global_enabled \<or> \<not> device_enabled
         then \<lparr>co_action = Pass, co_would_have_blocked = (effective_action \<noteq> Pass)\<rparr>
         else \<lparr>co_action = effective_action, co_would_have_blocked = False\<rparr>)"

definition service_check ::
    "('r, 'q, 'n) parser_lib \<Rightarrow> ('u, 'r, 'q, 'n) filter_svc \<Rightarrow> string \<Rightarrow> 'q \<Rightarrow> ip_addr \<Rightarrow> check_outcome" where
  "service_check L s domain qtype client = outcome_with_context L s (contexts s client) domain qtype client"

definition check_for_device ::
    "('r, 'q, 'n) parser_lib \<Rightarrow> ('u, 'r, 'q, 'n) filter_svc \<Rightarrow> string \<Rightarrow> 'q \<Rightarrow> 'u \<Rightarrow> ip_addr \<Rightarrow> check_outcome" where
  "check_for_device L s domain qtype did client =
     (let context = (case device_contexts s did of Some c \<Rightarrow> Some c | None \<Rightarrow> contexts s client)
      in outcome_with_context L s context domain qtype client)"

section \<open>What the stored configuration means\<close>

text \<open>
  The verdict read directly off the tables: the filters of a profile are those of its enabled
  block lists and one for its allowlist and enabled rules; a device uses its own profiles, or
  the default ones when it has none that exist.
\<close>

definition spec_blocklist :: "'u filter_db \<Rightarrow> 'u \<Rightarrow> ('r, 'q, 'n) dns_filter" where
  "spec_blocklist db b =
     (case get_blocklist db b of
        Some bl \<Rightarrow> (if bl_enabled bl then compiled_blocklist db b else empty_filter)
      | None \<Rightarrow> empty_filter)"

definition spec_aux :: "('r, 'q, 'n) parser_lib \<Rightarrow> 'u filter_db \<Rightarrow> 'u \<Rightarrow> ('r, 'q, 'n) dns_filter" where
  "spec_aux L db pid =
     build L \<lparr>in_blocked_domains = [],
              in_allowlist = map al_domain (list_allowlist db pid),
              in_custom_rules = map cr_rule_text (filter cr_enabled (list_custom_rules db pid))\<rparr>"

definition spec_profile :: "('r, 'q, 'n) parser_lib \<Rightarrow> 'u filter_db \<Rightarrow> 'u \<Rightarrow> ('r, 'q, 'n) dns_filter list" where
  "spec_profile L db pid =
     map (\<lambda>bl. compiled_blocklist db (bl_id bl)) (filter bl_enabled (list_blocklists db pid)) @
     [spec_aux L db pid]"

definition existing :: "'u filter_db \<Rightarrow> 'u list \<Rightarrow> 'u list" where
  "existing db ids = filter (\<lambda>p. get_profile db p \<noteq> None) ids"

definition spec_outcome ::
    "('r, 'q, 'n) parser_lib \<Rightarrow> 'u filter_db \<Rightarrow> 'u device_filter_settings option \<Rightarrow> string \<Rightarrow> 'q \<Rightarrow> ip_addr \<Rightarrow>
     check_outcome" where
  "spec_outcome L db st domain qtype client =
     (let device_enabled = (case st of None \<Rightarrow> True | Some x \<Rightarrow> ds_enabled x);
          own = (case st of None \<Rightarrow> [] | Some x \<Rightarrow> if ds_enabled x then existing db (ds_profile_ids x) else []);
          cfg = get_dns_filter_config db;
          ps = (if own \<noteq> [] then own else existing db (fc_default_profile_ids cfg));
          act = device_check L (map (spec_profile L db) ps) domain qtype client
      in if fc_enabled cfg \<and> device_enabled then \<lparr>co_action = act, co_would_have_blocked = False\<rparr>
         else \<lparr>co_action = Pass, co_would_have_blocked = (act \<noteq> Pass)\<rparr>)"

definition spec_settings :: "'u filter_db \<Rightarrow> ip_addr \<Rightarrow> 'u device_filter_settings option" where
  "spec_settings db client =
     map_of (rev (List.map_filter (\<lambda>(st, ip). map_option (\<lambda>a. (a, st)) (parse_ip ip))
       (list_device_settings_with_ips db False))) client"

definition spec_device_settings :: "'u filter_db \<Rightarrow> 'u \<Rightarrow> 'u device_filter_settings option" where
  "spec_device_settings db did =
     map_of (rev (map (\<lambda>(st, ip). (ds_device_id st, st)) (list_device_settings_with_ips db False))) did"

section \<open>The slots hold what the tables say\<close>

text \<open>
  Three invariants over a filter heap \<open>h\<close> with \<open>n\<close> slots in use. They survive growth of the heap.
\<close>

definition map_ok :: "('u \<Rightarrow> 'f) \<Rightarrow> (nat \<Rightarrow> 'f) \<Rightarrow> nat \<Rightarrow> ('u \<Rightarrow> nat option) \<Rightarrow> bool" where
  "map_ok spec h n m \<longleftrightarrow> (\<forall>k a. m k = Some a \<longrightarrow> a < n \<and> h a = spec k)"

definition profiles_ok ::
    "('r, 'q, 'n) parser_lib \<Rightarrow> 'u filter_db \<Rightarrow> (nat \<Rightarrow> ('r, 'q, 'n) dns_filter) \<Rightarrow> nat \<Rightarrow>
     (nat \<Rightarrow> 'u runtime_profile) \<Rightarrow> nat \<Rightarrow> ('u \<Rightarrow> nat option) \<Rightarrow> bool" where
  "profiles_ok L db h n ph pn sp \<longleftrightarrow>
     (\<forall>p a. sp p = Some a \<longrightarrow> a < pn \<and> (\<forall>f \<in> set (rp_filters (ph a)). f < n) \<and>
        map h (rp_filters (ph a)) = spec_profile L db p) \<and>
     (\<forall>p p' a. sp p = Some a \<and> sp p' = Some a \<longrightarrow> p = p')"

definition slots_ok ::
    "('r, 'q, 'n) parser_lib \<Rightarrow> 'u filter_db \<Rightarrow> ('u, 'r, 'q, 'n) filter_svc \<Rightarrow> bool" where
  "slots_ok L db s \<longleftrightarrow>
     map_ok (spec_blocklist db) (filter_heap s) (filter_next s) (blocklist_filters s) \<and>
     map_ok (spec_aux L db) (filter_heap s) (filter_next s) (profile_aux_filters s) \<and>
     profiles_ok L db (filter_heap s) (filter_next s) (profile_heap s) (profile_next s) (svc_profiles s)"

definition heap_grows :: "(nat \<Rightarrow> 'f) \<Rightarrow> nat \<Rightarrow> (nat \<Rightarrow> 'f) \<Rightarrow> nat \<Rightarrow> bool" where
  "heap_grows h n h' n' \<longleftrightarrow> n \<le> n' \<and> (\<forall>x < n. h' x = h x)"

lemma heap_grows_refl [simp]: "heap_grows h n h n"
  by (simp add: heap_grows_def)

lemma heap_grows_trans: "heap_grows h n h' n' \<Longrightarrow> heap_grows h' n' h'' n'' \<Longrightarrow> heap_grows h n h'' n''"
  by (auto simp: heap_grows_def)

lemma map_ok_grows: "map_ok spec h n m \<Longrightarrow> heap_grows h n h' n' \<Longrightarrow> map_ok spec h' n' m"
  by (force simp: map_ok_def heap_grows_def)

lemma map_ok_upd: "map_ok spec h n m \<Longrightarrow> a < n \<Longrightarrow> h a = spec k \<Longrightarrow> map_ok spec h n (m(k \<mapsto> a))"
  by (auto simp: map_ok_def)

lemma map_ok_remove: "map_ok spec h n m \<Longrightarrow> map_ok spec h n (m(k := None))"
  by (auto simp: map_ok_def)

lemma map_grows:
  "\<forall>f \<in> set xs. f < n \<Longrightarrow> heap_grows h n h' n' \<Longrightarrow> map h' xs = map h xs \<and> (\<forall>f \<in> set xs. f < n')"
  by (force simp: heap_grows_def)

lemma profiles_ok_grows:
  assumes "profiles_ok L db h n ph pn sp" and "heap_grows h n h' n'"
  shows "profiles_ok L db h' n' ph pn sp"
  using assms(1) map_grows [OF _ assms(2)] unfolding profiles_ok_def by metis

lemma profiles_ok_new:
  assumes "profiles_ok L db h n ph pn sp" and "\<forall>f \<in> set (rp_filters rt). f < n"
    and "map h (rp_filters rt) = spec_profile L db pid"
  shows "profiles_ok L db h n (ph(pn := rt)) (Suc pn) (sp(pid \<mapsto> pn))"
proof -
  have "a < pn" if "sp p = Some a" for p a using assms(1) that by (auto simp: profiles_ok_def)
  then have "a < Suc pn \<and> a \<noteq> pn" if "sp p = Some a" for p a using that by force
  with assms show ?thesis by (auto simp: profiles_ok_def)
qed

lemma profiles_ok_store:
  assumes "profiles_ok L db h n ph pn sp" and "\<forall>f \<in> set (rp_filters rt). f < n"
    and "map h (rp_filters rt) = spec_profile L db pid" and "sp pid = Some x"
  shows "profiles_ok L db h n (ph(x := rt)) pn sp"
proof -
  have own: "a < pn \<and> (\<forall>f \<in> set (rp_filters ((ph(x := rt)) a)). f < n) \<and>
      map h (rp_filters ((ph(x := rt)) a)) = spec_profile L db p" if p: "sp p = Some a" for p a
  proof (cases "a = x")
    case True
    with p assms(1,4) have "p = pid" "a < pn" unfolding profiles_ok_def by blast+
    with True assms(2,3) show ?thesis by simp
  next
    case False
    with p assms(1) show ?thesis by (simp add: profiles_ok_def)
  qed
  moreover have "p = p'" if "sp p = Some a" "sp p' = Some a" for p p' a
    using assms(1) that unfolding profiles_ok_def by blast
  ultimately show ?thesis unfolding profiles_ok_def by blast
qed

lemma put_filter_ok:
  assumes "put_filter m k (spec k) s = (a, m', s')"
    and "map_ok spec (filter_heap s) (filter_next s) m"
  obtains h' n' where "s' = s\<lparr>filter_heap := h', filter_next := n'\<rparr>" and "a < n'" and "h' a = spec k"
    and "m' = m(k \<mapsto> a)" and "heap_grows (filter_heap s) (filter_next s) h' n'"
proof (cases "m k")
  case None
  with assms(1) show ?thesis
    by (intro that [where h' = "(filter_heap s)(filter_next s := spec k)" and n' = "Suc (filter_next s)"])
      (auto simp: put_filter_def heap_grows_def)
next
  case (Some b)
  with assms(2) have b: "b < filter_next s" "filter_heap s b = spec k" by (auto simp: map_ok_def)
  then have "(filter_heap s)(b := spec k) = filter_heap s" by auto
  with Some assms(1) b show ?thesis
    by (intro that [where h' = "filter_heap s" and n' = "filter_next s"]) (auto simp: put_filter_def)
qed

text \<open>What a rebuild step may change while the invariant holds.\<close>

definition same_rest :: "('u, 'r, 'q, 'n) filter_svc \<Rightarrow> ('u, 'r, 'q, 'n) filter_svc \<Rightarrow> bool" where
  "same_rest s s' \<longleftrightarrow>
     contexts s' = contexts s \<and> device_contexts s' = device_contexts s \<and>
     default_context s' = default_context s \<and> svc_config s' = svc_config s"

definition grows :: "('u, 'r, 'q, 'n) filter_svc \<Rightarrow> ('u, 'r, 'q, 'n) filter_svc \<Rightarrow> bool" where
  "grows s s' \<longleftrightarrow> heap_grows (filter_heap s) (filter_next s) (filter_heap s') (filter_next s') \<and>
     same_rest s s'"

lemma grows_trans: "grows s s' \<Longrightarrow> grows s' s'' \<Longrightarrow> grows s s''"
  by (auto simp: grows_def same_rest_def intro: heap_grows_trans)

lemma grows_refl [simp]: "grows s s"
  by (simp add: grows_def same_rest_def)

lemma rebuild_blocklist_inner_ok:
  assumes "slots_ok L db s"
  shows "slots_ok L db (rebuild_blocklist_inner db b s) \<and> grows s (rebuild_blocklist_inner db b s) \<and>
    svc_profiles (rebuild_blocklist_inner db b s) = svc_profiles s \<and>
    profile_aux_filters (rebuild_blocklist_inner db b s) = profile_aux_filters s \<and>
    (get_blocklist db b \<noteq> None \<longrightarrow> blocklist_filters (rebuild_blocklist_inner db b s) b \<noteq> None) \<and>
    (\<forall>c. c \<noteq> b \<longrightarrow> blocklist_filters (rebuild_blocklist_inner db b s) c = blocklist_filters s c)"
proof (cases "get_blocklist db b")
  case None
  with assms show ?thesis
    by (simp add: rebuild_blocklist_inner_def slots_ok_def map_ok_remove grows_def same_rest_def)
next
  case (Some bl)
  obtain a m s1 where p: "put_filter (blocklist_filters s) b (spec_blocklist db b) s = (a, m, s1)"
    by (cases "put_filter (blocklist_filters s) b (spec_blocklist db b) s") auto
  have ok: "map_ok (spec_blocklist db) (filter_heap s) (filter_next s) (blocklist_filters s)"
    using assms by (simp add: slots_ok_def)
  from p ok obtain h' n' where q: "s1 = s\<lparr>filter_heap := h', filter_next := n'\<rparr>" "a < n'"
      "h' a = spec_blocklist db b" "m = (blocklist_filters s)(b \<mapsto> a)"
    and g: "heap_grows (filter_heap s) (filter_next s) h' n'" by (rule put_filter_ok)
  have r: "rebuild_blocklist_inner db b s = publish DnsFilterRebuilt (s1\<lparr>blocklist_filters := m\<rparr>)"
    using Some p by (auto simp: rebuild_blocklist_inner_def spec_blocklist_def compiled_blocklist_def)
  have "map_ok (spec_blocklist db) h' n' m"
    unfolding q(4) by (intro map_ok_upd map_ok_grows [OF ok g] q)
  then show ?thesis
    using assms q g map_ok_grows [OF _ g] profiles_ok_grows [OF _ g]
    by (auto simp: r publish_def slots_ok_def grows_def same_rest_def)
qed

lemma find_key:
  "distinct (map k xs) \<Longrightarrow> x \<in> set xs \<Longrightarrow> find (\<lambda>y. k y = k x) xs = Some x"
proof (induction xs)
  case Nil
  then show ?case by simp
next
  case (Cons y ys)
  then show ?case by (cases "x = y") (auto simp: image_iff)
qed

lemma spec_blocklist_enabled:
  "get_blocklist db (bl_id bl) = Some bl \<Longrightarrow> bl_enabled bl \<Longrightarrow>
   spec_blocklist db (bl_id bl) = compiled_blocklist db (bl_id bl)"
  by (simp add: spec_blocklist_def)

lemma stitch_ok:
  assumes "stitch db bls acc s = (fs, s')" and "slots_ok L db s"
    and "\<forall>f \<in> set acc. f < filter_next s"
    and "\<forall>bl \<in> set bls. get_blocklist db (bl_id bl) = Some bl"
  shows "slots_ok L db s' \<and> grows s s' \<and> svc_profiles s' = svc_profiles s \<and>
    profile_aux_filters s' = profile_aux_filters s \<and> (\<forall>f \<in> set fs. f < filter_next s') \<and>
    map (filter_heap s') fs = map (filter_heap s) acc @
      map (\<lambda>bl. compiled_blocklist db (bl_id bl)) (filter bl_enabled bls)"
  using assms
proof (induction db bls acc s arbitrary: fs s' rule: stitch.induct)
  case (1 db acc s)
  then show ?case by simp
next
  case (2 db bl bls acc s)
  have bl: "get_blocklist db (bl_id bl) = Some bl" using "2.prems"(4) by simp
  consider "\<not> bl_enabled bl"
    | a where "bl_enabled bl" "blocklist_filters s (bl_id bl) = Some a"
    | "bl_enabled bl" "blocklist_filters s (bl_id bl) = None" by blast
  then show ?case
  proof cases
    case 1
    then show ?thesis using "2.IH"(1) "2.prems" by simp
  next
    case (2 a)
    have a: "a < filter_next s" "filter_heap s a = compiled_blocklist db (bl_id bl)"
      using "2.prems"(2) 2 spec_blocklist_enabled [OF bl] by (auto simp: slots_ok_def map_ok_def)
    have "stitch db bls (acc @ [a]) s = (fs, s')" using "2.prems"(1) 2 by simp
    from "2.IH"(4) [OF _ 2(2) this "2.prems"(2)] show ?thesis
      using "2.prems"(3,4) a 2 by simp
  next
    case 3
    let ?s = "rebuild_blocklist_inner db (bl_id bl) s"
    note r = rebuild_blocklist_inner_ok [OF "2.prems"(2), of "bl_id bl"]
    obtain a where b: "blocklist_filters ?s (bl_id bl) = Some a" using r bl by auto
    have g: "heap_grows (filter_heap s) (filter_next s) (filter_heap ?s) (filter_next ?s)"
      using r by (simp add: grows_def)
    have a: "a < filter_next ?s" "filter_heap ?s a = compiled_blocklist db (bl_id bl)"
      using r b 3 spec_blocklist_enabled [OF bl] by (auto simp: slots_ok_def map_ok_def)
    note acc = map_grows [OF "2.prems"(3) g]
    have st: "stitch db bls (acc @ [a]) ?s = (fs, s')" using "2.prems"(1) 3 b by (simp add: Let_def)
    have "\<forall>f \<in> set (acc @ [a]). f < filter_next ?s" using acc a by simp
    from "2.IH"(3) [OF _ 3(2) refl b st _ this] show ?thesis
      using "2.prems"(4) r acc a 3 by (auto intro: grows_trans)
  qed
qed

lemma rebuild_profile_inner_ok:
  assumes "slots_ok L db s" and "get_profile db pid = Some prof"
    and "distinct (map bl_id (t_blocklists db))"
  shows "slots_ok L db (rebuild_profile_inner L db pid s) \<and> same_rest s (rebuild_profile_inner L db pid s) \<and>
    svc_profiles (rebuild_profile_inner L db pid s) pid \<noteq> None \<and>
    (\<forall>p. p \<noteq> pid \<longrightarrow> svc_profiles (rebuild_profile_inner L db pid s) p = svc_profiles s p)"
proof -
  obtain a m s1 where p: "put_filter (profile_aux_filters s) pid (spec_aux L db pid) s = (a, m, s1)"
    by (cases "put_filter (profile_aux_filters s) pid (spec_aux L db pid) s") auto
  have ok: "map_ok (spec_aux L db) (filter_heap s) (filter_next s) (profile_aux_filters s)"
    using assms(1) by (simp add: slots_ok_def)
  from p ok obtain h' n' where q: "s1 = s\<lparr>filter_heap := h', filter_next := n'\<rparr>" "a < n'"
      "h' a = spec_aux L db pid" "m = (profile_aux_filters s)(pid \<mapsto> a)"
    and g: "heap_grows (filter_heap s) (filter_next s) h' n'" by (rule put_filter_ok)
  define s2 where "s2 = s1\<lparr>profile_aux_filters := m\<rparr>"
  have "map_ok (spec_aux L db) h' n' m"
    unfolding q(4) by (intro map_ok_upd map_ok_grows [OF ok g] q)
  then have ok2: "slots_ok L db s2"
    using assms(1) map_ok_grows [OF _ g] profiles_ok_grows [OF _ g]
    by (auto simp: s2_def q(1) slots_ok_def)
  obtain fs s3 where st: "stitch db (list_blocklists db pid) [] s2 = (fs, s3)" by force
  have "\<forall>bl \<in> set (list_blocklists db pid). get_blocklist db (bl_id bl) = Some bl"
    using find_key [OF assms(3)] by (auto simp: list_blocklists_def get_blocklist_def)
  from stitch_ok [OF st ok2 _ this]
  have s3: "slots_ok L db s3" "grows s2 s3" "svc_profiles s3 = svc_profiles s2"
    "\<forall>f \<in> set fs. f < filter_next s3"
    "map (filter_heap s3) fs = map (\<lambda>bl. compiled_blocklist db (bl_id bl)) (filter bl_enabled (list_blocklists db pid))"
    by auto
  have a: "a < filter_next s3" "filter_heap s3 a = spec_aux L db pid"
    using q s3(2) by (auto simp: grows_def heap_grows_def s2_def)
  let ?rt = "\<lparr>rp_id = prof_id prof, rp_name = prof_name prof, rp_filters = fs @ [a]\<rparr>"
  have rt: "\<forall>f \<in> set (rp_filters ?rt). f < filter_next s3"
    "map (filter_heap s3) (rp_filters ?rt) = spec_profile L db pid"
    using s3 a by (simp_all add: spec_profile_def)
  have r: "rebuild_profile_inner L db pid s = publish DnsFilterRebuilt
     (case svc_profiles s3 pid of
        Some x \<Rightarrow> s3\<lparr>profile_heap := (profile_heap s3)(x := ?rt)\<rparr>
      | None \<Rightarrow> s3\<lparr>profile_heap := (profile_heap s3)(profile_next s3 := ?rt),
                   svc_profiles := (svc_profiles s3)(pid \<mapsto> profile_next s3),
                   profile_next := profile_next s3 + 1\<rparr>)"
    using assms(2) p st
    by (simp add: rebuild_profile_inner_def load_filter_inputs_for_profile_def spec_aux_def s2_def Let_def)
  have sr: "same_rest s s3" using s3(2) by (simp add: grows_def same_rest_def s2_def q(1))
  have pk: "profiles_ok L db (filter_heap s3) (filter_next s3) (profile_heap s3) (profile_next s3) (svc_profiles s3)"
    using s3(1) by (simp add: slots_ok_def)
  show ?thesis
  proof (cases "svc_profiles s3 pid")
    case None
    then show ?thesis
      using s3(1,3) profiles_ok_new [OF pk rt] sr q(1) r
      by (simp add: publish_def slots_ok_def same_rest_def s2_def)
  next
    case (Some x)
    then show ?thesis
      using s3(1,3) profiles_ok_store [OF pk rt Some] sr q(1) r
      by (simp add: publish_def slots_ok_def same_rest_def s2_def)
  qed
qed

lemma fold_rebuild_blocklists_ok:
  assumes "slots_ok L db s"
  shows "slots_ok L db (fold (\<lambda>bl. rebuild_blocklist_inner db (bl_id bl)) bls s) \<and>
    same_rest s (fold (\<lambda>bl. rebuild_blocklist_inner db (bl_id bl)) bls s) \<and>
    svc_profiles (fold (\<lambda>bl. rebuild_blocklist_inner db (bl_id bl)) bls s) = svc_profiles s"
  using assms
proof (induction bls arbitrary: s)
  case Nil
  then show ?case by (simp add: same_rest_def)
next
  case (Cons bl bls)
  note r = rebuild_blocklist_inner_ok [OF Cons.prems, of "bl_id bl"]
  with Cons.IH [of "rebuild_blocklist_inner db (bl_id bl) s"] show ?case
    by (simp add: grows_def same_rest_def)
qed

lemma rebuild_one_profile_ok:
  assumes "slots_ok L db s" and "get_profile db pid \<noteq> None" and "distinct (map bl_id (t_blocklists db))"
  shows "slots_ok L db (rebuild_one_profile L db pid s) \<and> same_rest s (rebuild_one_profile L db pid s) \<and>
    svc_profiles (rebuild_one_profile L db pid s) pid \<noteq> None \<and>
    (\<forall>p. p \<noteq> pid \<longrightarrow> svc_profiles (rebuild_one_profile L db pid s) p = svc_profiles s p)"
proof -
  let ?s = "fold (\<lambda>bl. rebuild_blocklist_inner db (bl_id bl)) (list_blocklists db pid) s"
  note f = fold_rebuild_blocklists_ok [OF assms(1), of "list_blocklists db pid"]
  obtain prof where prof: "get_profile db pid = Some prof" using assms(2) by auto
  have ok: "slots_ok L db ?s" using f by blast
  show ?thesis
    using rebuild_profile_inner_ok [OF ok prof assms(3)] f
    by (simp add: rebuild_one_profile_def same_rest_def)
qed

lemma fold_rebuild_profiles_ok:
  assumes "slots_ok L db s" and "distinct (map bl_id (t_blocklists db))"
    and "\<forall>p \<in> set ps. get_profile db (prof_id p) \<noteq> None"
  shows "slots_ok L db (fold (\<lambda>p. rebuild_one_profile L db (prof_id p)) ps s) \<and>
    same_rest s (fold (\<lambda>p. rebuild_one_profile L db (prof_id p)) ps s) \<and>
    (\<forall>q. svc_profiles (fold (\<lambda>p. rebuild_one_profile L db (prof_id p)) ps s) q \<noteq> None \<longleftrightarrow>
       svc_profiles s q \<noteq> None \<or> q \<in> prof_id ` set ps)"
  using assms
proof (induction ps arbitrary: s)
  case Nil
  then show ?case by (simp add: same_rest_def)
next
  case (Cons p ps)
  let ?s = "rebuild_one_profile L db (prof_id p) s"
  note r = rebuild_one_profile_ok [OF Cons.prems(1) _ Cons.prems(2), of "prof_id p"]
  have r': "slots_ok L db ?s" "same_rest s ?s" "svc_profiles ?s (prof_id p) \<noteq> None"
    "\<forall>q. q \<noteq> prof_id p \<longrightarrow> svc_profiles ?s q = svc_profiles s q"
    using r Cons.prems(3) by auto
  have "(svc_profiles ?s q \<noteq> None) = (svc_profiles s q \<noteq> None \<or> q = prof_id p)" for q
    using r'(3,4) by (cases "q = prof_id p") auto
  with Cons.IH [OF r'(1) Cons.prems(2)] Cons.prems(3) r'(2) show ?case
    by (auto simp: same_rest_def)
qed

lemma context_view:
  assumes "slots_ok L db s" and "\<forall>q. svc_profiles s q \<noteq> None \<longleftrightarrow> get_profile db q \<noteq> None"
  shows "map (\<lambda>p. map (filter_heap s) (rp_filters (profile_heap s p))) (List.map_filter (svc_profiles s) ids) =
    map (spec_profile L db) (existing db ids)"
proof (induction ids)
  case Nil
  then show ?case by (simp add: existing_def map_filter_simps)
next
  case (Cons q ids)
  show ?case
  proof (cases "svc_profiles s q")
    case None
    then show ?thesis using Cons assms(2) [rule_format, of q] by (simp add: existing_def map_filter_simps)
  next
    case (Some a)
    then have "map (filter_heap s) (rp_filters (profile_heap s a)) = spec_profile L db q"
      using assms(1) by (simp add: slots_ok_def profiles_ok_def)
    then show ?thesis using Cons Some assms(2) [rule_format, of q]
      by (auto simp: existing_def map_filter_simps)
  qed
qed

lemma fold_install_contexts:
  "fold install_context es s =
     s\<lparr>contexts := (\<lambda>ip. case map_of (rev (List.map_filter (\<lambda>(st, ip). map_option (\<lambda>a. (a, st)) (parse_ip ip)) es)) ip of
          Some st \<Rightarrow> Some (materialise_context s st) | None \<Rightarrow> contexts s ip),
       device_contexts := (\<lambda>d. case map_of (rev (map (\<lambda>(st, ip). (ds_device_id st, st)) es)) d of
          Some st \<Rightarrow> Some (materialise_context s st) | None \<Rightarrow> device_contexts s d)\<rparr>"
proof (induction es arbitrary: s)
  case Nil
  then show ?case by (simp add: map_filter_simps)
next
  case (Cons e es)
  obtain st ip where e: "e = (st, ip)" by force
  have m: "materialise_context (install_context (st, ip) s) = materialise_context s"
    by (simp add: materialise_context_def install_context_def Let_def fun_eq_iff split: option.splits)
  have c: "contexts (install_context (st, ip) s) =
      (case parse_ip ip of Some a \<Rightarrow> (contexts s)(a \<mapsto> materialise_context s st) | None \<Rightarrow> contexts s)"
    "device_contexts (install_context (st, ip) s) = (device_contexts s)(ds_device_id st \<mapsto> materialise_context s st)"
    by (simp_all add: install_context_def Let_def split: option.splits)
  have r: "install_context (st, ip) s\<lparr>contexts := x, device_contexts := y\<rparr> = s\<lparr>contexts := x, device_contexts := y\<rparr>" for x y
    by (simp add: install_context_def Let_def split: option.splits)
  show ?case
    unfolding e fold.simps comp_apply Cons.IH m c r
    by (rule arg_cong2 [where f = "\<lambda>x y. s\<lparr>contexts := x, device_contexts := y\<rparr>"])
      (auto simp: map_filter_simps map_add_def fun_eq_iff split: option.splits)
qed

lemma rebuild_default_context_alt:
  "rebuild_default_context_inner s = publish DnsFilterRebuilt (s\<lparr>default_context :=
     \<lparr>ctx_enabled = True, ctx_profiles = List.map_filter (svc_profiles s) (fc_default_profile_ids (svc_config s))\<rparr>\<rparr>)"
  by (simp add: rebuild_default_context_inner_def unfiltered_def map_filter_simps Let_def)

text \<open>
  The service is in sync with the tables: every slot is current, the profile map holds exactly the
  stored profiles, and the configuration and the default context are those of the tables.
\<close>

definition in_sync ::
    "('r, 'q, 'n) parser_lib \<Rightarrow> 'u filter_db \<Rightarrow> ('u, 'r, 'q, 'n) filter_svc \<Rightarrow> bool" where
  "in_sync L db s \<longleftrightarrow>
     slots_ok L db s \<and> (\<forall>q. svc_profiles s q \<noteq> None \<longleftrightarrow> get_profile db q \<noteq> None) \<and>
     svc_config s = get_dns_filter_config db \<and>
     default_context s = \<lparr>ctx_enabled = True, ctx_profiles =
       List.map_filter (svc_profiles s) (fc_default_profile_ids (get_dns_filter_config db))\<rparr>"

lemma outcome_spec:
  assumes sync: "in_sync L db s"
  shows "outcome_with_context L s (map_option (materialise_context s) st) domain qtype client =
    spec_outcome L db st domain qtype client"
proof -
  note assms = sync [unfolded in_sync_def, THEN conjunct1]
    sync [unfolded in_sync_def, THEN conjunct2, THEN conjunct1]
    sync [unfolded in_sync_def, THEN conjunct2, THEN conjunct2, THEN conjunct1]
    sync [unfolded in_sync_def, THEN conjunct2, THEN conjunct2, THEN conjunct2]
  note v = context_view [OF assms(1,2)]
  have e: "List.map_filter (svc_profiles s) ids = [] \<longleftrightarrow> existing db ids = []" for ids
    using v [of ids] by (metis map_is_Nil_conv)
  have d: "context_filters s (default_context s) =
      map (spec_profile L db) (existing db (fc_default_profile_ids (get_dns_filter_config db)))"
    by (simp add: context_filters_def assms(4) v)
  have c: "context_filters s \<lparr>ctx_enabled = b, ctx_profiles = List.map_filter (svc_profiles s) ids\<rparr> =
      map (spec_profile L db) (existing db ids)" for b ids
    by (simp add: context_filters_def v)
  have n: "existing db [] = []" by (simp add: existing_def)
  show ?thesis
  proof (cases st)
    case None
    then show ?thesis by (simp add: outcome_with_context_def spec_outcome_def assms(3) d Let_def)
  next
    case (Some x)
    then show ?thesis
      by (cases "ds_enabled x"; cases "ds_profile_ids x = []"; cases "existing db (ds_profile_ids x) = []")
        (simp_all add: outcome_with_context_def spec_outcome_def materialise_context_def assms(3) d c e n Let_def)
  qed
qed

subsection \<open>A configuration to evaluate\<close>

text \<open>A small configuration: one profile with one rule, assigned to one device.\<close>

definition ex_filter_db :: "nat filter_db" where
  "ex_filter_db = \<lparr>
     t_profiles = [\<lparr>prof_id = 5, prof_name = ''kids'', prof_description = None, prof_builtin = False\<rparr>],
     t_blocklists = [], t_blocked_domains = [], t_allowlist = [],
     t_custom_rules = [\<lparr>cr_id = 3, cr_profile_id = 5, cr_rule_text = ''||ads.com^'', cr_enabled = True,
                         cr_comment = None\<rparr>],
     t_device_settings = [(9, True)], t_device_profile = [(9, 5)], t_default_profile = [],
     t_filtering_enabled = Some ''true'', t_alert_threshold = None, t_devices = [(9, ''10.0.0.9'')]\<rparr>"

definition ex_svc :: "(nat, string, string, ip_addr) filter_svc" where
  "ex_svc = \<lparr>filter_heap = (\<lambda>_. \<lparr>blocked_domains = {''ads.com''}, allowed_domains = {}, complex = []\<rparr>),
     filter_next = 1, profile_heap = (\<lambda>_. \<lparr>rp_id = 5, rp_name = ''kids'', rp_filters = [0]\<rparr>), profile_next = 1,
     blocklist_filters = Map.empty, profile_aux_filters = [5 \<mapsto> 0], svc_profiles = [5 \<mapsto> 0],
     contexts = [V4 1 \<mapsto> \<lparr>ctx_enabled = True, ctx_profiles = [0]\<rparr>, V4 2 \<mapsto> unfiltered],
     device_contexts = Map.empty, default_context = unfiltered,
     svc_config = \<lparr>fc_enabled = True, fc_default_profile_ids = [], fc_failure_alert_threshold = 5\<rparr>,
     bootstrapped = True, events = []\<rparr>"

definition ex_admin :: "nat auth_context option" where
  "ex_admin = Some (User 0 AdminRole)"

lemma ex_admin_ok: "require_admin ex_admin = Inr ()"
  by (simp add: ex_admin_def)

lemma ex_svc_blocks:
  "co_action (service_check ex_parser_lib ex_svc ''ads.com'' ''A'' (V4 1)) = BlockQuery"
proof -
  have n: "normalize_owned ''ads.com'' = ''ads.com''" by code_simp
  have m: "matches_subdomain ''ads.com'' {''ads.com''}" "\<not> matches_subdomain ''ads.com'' {}"
    by (simp_all add: matches_subdomain_in_subtree)
  show ?thesis
    by (simp add: service_check_def outcome_with_context_def context_filters_def ex_svc_def
        device_verdict device_outcomes_def source_outcomes_def set_outcomes_def n m)
qed

lemma rebuild_all_state:
  assumes "distinct (map bl_id (t_blocklists db))" and "require_admin auth = Inr ()"
    and "rebuild_all L auth db s = (r, s')"
  shows "r = Inr ()" and "in_sync L db s'"
    and "contexts s' ip = map_option (materialise_context s') (spec_settings db ip)"
    and "device_contexts s' d = map_option (materialise_context s') (spec_device_settings db d)"
proof -
  define s1 where "s1 = clear_caches (refresh_config db s)"
  define s2 where "s2 = fold (\<lambda>p. rebuild_one_profile L db (prof_id p)) (list_profiles db) s1"
  define s3 where "s3 = fold install_context (list_device_settings_with_ips db False) s2"
  have r: "r = Inr ()" and s': "s' = (rebuild_default_context_inner s3)\<lparr>bootstrapped := True\<rparr>"
    using assms(3) unfolding rebuild_all_def guarded_def assms(2)
    by (auto simp: s1_def s2_def s3_def Let_def)
  have "slots_ok L db s1"
    by (simp add: s1_def clear_caches_def slots_ok_def map_ok_def profiles_ok_def)
  moreover have "\<forall>p \<in> set (list_profiles db). get_profile db (prof_id p) \<noteq> None"
    by (auto simp: list_profiles_def get_profile_def find_None_iff)
  ultimately have s2: "slots_ok L db s2" "same_rest s1 s2"
    "\<forall>q. svc_profiles s2 q \<noteq> None \<longleftrightarrow> svc_profiles s1 q \<noteq> None \<or> q \<in> prof_id ` set (list_profiles db)"
    unfolding s2_def using fold_rebuild_profiles_ok [OF _ assms(1)] by blast+
  have ids: "svc_profiles s2 q \<noteq> None \<longleftrightarrow> get_profile db q \<noteq> None" for q
    using s2(3) by (auto simp: s1_def clear_caches_def list_profiles_def get_profile_def find_None_iff)
  have cfg: "svc_config s2 = get_dns_filter_config db" "contexts s2 = Map.empty" "device_contexts s2 = Map.empty"
    using s2(2) by (simp_all add: same_rest_def s1_def clear_caches_def refresh_config_def)
  let ?D = "List.map_filter (svc_profiles s2) (fc_default_profile_ids (get_dns_filter_config db))"
  have s'': "s' = s3\<lparr>default_context := \<lparr>ctx_enabled = True, ctx_profiles = ?D\<rparr>,
      events := events s3 @ [DnsFilterRebuilt], bootstrapped := True\<rparr>"
    by (simp add: s' rebuild_default_context_alt s3_def fold_install_contexts cfg publish_def)
  have ok: "slots_ok L db s'" using s2(1) by (simp add: s'' s3_def fold_install_contexts slots_ok_def)
  have p: "svc_profiles s' = svc_profiles s2" by (simp add: s'' s3_def fold_install_contexts)
  have m: "materialise_context s2 = materialise_context s'"
    by (simp add: materialise_context_def p fun_eq_iff)
  show "contexts s' ip = map_option (materialise_context s') (spec_settings db ip)"
    by (simp add: s'' s3_def fold_install_contexts cfg spec_settings_def m [symmetric] split: option.splits)
       (simp add: materialise_context_def)
  show "device_contexts s' d = map_option (materialise_context s') (spec_device_settings db d)"
    by (simp add: s'' s3_def fold_install_contexts cfg spec_device_settings_def m [symmetric] split: option.splits)
       (simp add: materialise_context_def)
  show "in_sync L db s'"
    using ok ids by (simp add: in_sync_def p) (simp add: s'' s3_def fold_install_contexts cfg)
  show "r = Inr ()" by (fact r)
qed

text \<open>
  C1: bootstrapping is correct. After \<open>rebuild_all\<close>, from whatever state, the hot path answers
  every query of every client and of every device exactly as the stored configuration says:
  with the block lists, allowlists and enabled rules of the device's profiles, or of the default
  profiles, subject to the device's and the global kill switch.
\<close>

theorem rebuild_all_correct:
  assumes "distinct (map bl_id (t_blocklists db))" and "require_admin auth = Inr ()"
    and "rebuild_all L auth db s = (r, s')"
  shows "r = Inr () \<and>
    service_check L s' domain qtype client = spec_outcome L db (spec_settings db client) domain qtype client \<and>
    check_for_device L s' domain qtype did client =
      spec_outcome L db (case spec_device_settings db did of None \<Rightarrow> spec_settings db client | Some st \<Rightarrow> Some st)
        domain qtype client"
proof -
  note st = rebuild_all_state [OF assms]
  show ?thesis
    unfolding service_check_def check_for_device_def Let_def st(3,4)
    using st(1) outcome_spec [OF st(2), of "spec_settings db client"]
      outcome_spec [OF st(2), of "spec_device_settings db did"]
    by (cases "spec_device_settings db did") simp_all
qed

theorem rebuild_all_correct_witness:
  "\<exists>s'. rebuild_all ex_parser_lib ex_admin ex_filter_db ex_svc = (Inr (), s') \<and>
     service_check ex_parser_lib s' ''ads.com'' ''A'' (V4 1) =
       spec_outcome ex_parser_lib ex_filter_db (spec_settings ex_filter_db (V4 1)) ''ads.com'' ''A'' (V4 1)"
proof -
  have d: "distinct (map bl_id (t_blocklists ex_filter_db))" by (simp add: ex_filter_db_def)
  obtain r s' where e: "rebuild_all ex_parser_lib ex_admin ex_filter_db ex_svc = (r, s')" by force
  from rebuild_all_correct [OF d ex_admin_ok e, of "''ads.com''" "''A''" "V4 1"] e show ?thesis by auto
qed

section \<open>Removing sources and profiles\<close>

definition block_only :: "('r, 'q, 'n) dns_filter \<Rightarrow> bool" where
  "block_only f \<longleftrightarrow> allowed_domains f = {} \<and> complex f = []"

lemma block_only_outcomes:
  "block_only f \<Longrightarrow> source_outcomes L f domain qtype client =
     (if \<exists>r \<in> blocked_domains f. in_subtree r (normalize_owned domain) then [Match Block] else [])"
  by (simp add: source_outcomes_def set_outcomes_def block_only_def matches_subdomain_in_subtree)

text \<open>
  Removing a block list never turns a passing query into a blocked one. Whatever the other
  sources of the device are, dropping a source that holds only blocked domains keeps every
  \<open>Pass\<close>; so answers cached as passing stay valid when a block list disappears.
\<close>

theorem removing_blocklist_keeps_pass:
  assumes "block_only f"
    and "device_check L (qs @ (xs @ f # ys) # ps) domain qtype client = Pass"
  shows "device_check L (qs @ (xs @ ys) # ps) domain qtype client = Pass"
proof -
  let ?o = "\<lambda>fs. concat (map (\<lambda>f. source_outcomes L f domain qtype client) fs)"
  let ?A = "?o (concat qs @ xs)" and ?B = "?o (ys @ concat ps)"
    and ?F = "source_outcomes L f domain qtype client"
  have w: "device_outcomes L (qs @ (xs @ f # ys) # ps) domain qtype client = ?A @ ?F @ ?B"
    and wo: "device_outcomes L (qs @ (xs @ ys) # ps) domain qtype client = ?A @ ?B"
    by (simp_all add: device_outcomes_def)
  have F: "?F = [Match Block] \<or> ?F = []" using block_only_outcomes [OF assms(1)] by metis
  then show ?thesis
    using assms(2) unfolding device_verdict w wo
    by (elim disjE) (auto simp: Let_def split: option.splits if_splits)
qed

theorem removing_blocklist_keeps_pass_witness:
  "device_check ex_parser_lib [[empty_filter, builder_finish {''ads.com''}]] ''x.org'' ''A'' (V4 1) = Pass \<and>
   device_check ex_parser_lib [[empty_filter]] ''x.org'' ''A'' (V4 1) = Pass"
proof -
  have n: "normalize_owned ''x.org'' = ''x.org''" by code_simp
  have m: "\<not> matches_subdomain ''x.org'' {''ads.com''}"
    by (auto simp: matches_subdomain_in_subtree dest: in_subtree_length)
  have e: "\<not> matches_subdomain ''x.org'' {}" by (simp add: matches_subdomain_in_subtree)
  have b: "block_only (builder_finish {''ads.com''} :: (string, string, ip_addr) dns_filter)"
    by (simp add: block_only_def builder_finish_def empty_filter_def)
  have "device_check ex_parser_lib [[empty_filter, builder_finish {''ads.com''}]] ''x.org'' ''A'' (V4 1) = Pass"
    by (simp add: device_verdict device_outcomes_def source_outcomes_def set_outcomes_def
        empty_filter_def builder_finish_def n m e)
  with removing_blocklist_keeps_pass [OF b, of ex_parser_lib "[]" "[empty_filter]" "[]" "[]" "''x.org''" "''A''" "V4 1"]
  show ?thesis by simp
qed

text \<open>
  The same does not hold for a profile, which may carry exceptions. There are profiles
  such that a query passes with both and is blocked once one of them is gone.
\<close>

theorem removing_profile_can_block:
  "\<exists>p q :: ('r, 'q, 'n) dns_filter list.
     device_check L [p, q] ''ads.com'' qtype client = Pass \<and>
     device_check L [p] ''ads.com'' qtype client = BlockQuery"
proof (intro exI conjI)
  let ?p = "[\<lparr>blocked_domains = {''ads.com''}, allowed_domains = {}, complex = []\<rparr>] :: ('r, 'q, 'n) dns_filter list"
  let ?q = "[\<lparr>blocked_domains = {}, allowed_domains = {''ads.com''}, complex = []\<rparr>] :: ('r, 'q, 'n) dns_filter list"
  have n: "normalize_owned ''ads.com'' = ''ads.com''" by code_simp
  have m: "matches_subdomain ''ads.com'' {''ads.com''}" "\<not> matches_subdomain ''ads.com'' {}"
    by (simp_all add: matches_subdomain_in_subtree)
  show "device_check L [?p, ?q] ''ads.com'' qtype client = Pass"
    "device_check L [?p] ''ads.com'' qtype client = BlockQuery"
    by (simp_all add: device_verdict device_outcomes_def source_outcomes_def set_outcomes_def n m)
qed

section \<open>Deleting a profile\<close>

lemma delete_domains_frame:
  "\<exists>rows. snd (delete_domains_in_batches db rid scope) = db\<lparr>t_blocked_domains := rows\<rparr> \<and>
     set rows \<subseteq> set (t_blocked_domains db)"
  by (rule exI, rule conjI, rule delete_domains_in_batches_filter) auto

lemma drain_pass_frame:
  "\<exists>rows. snd (drain_pass db pid) = db\<lparr>t_blocked_domains := rows\<rparr> \<and> set rows \<subseteq> set (t_blocked_domains db)"
proof -
  have "\<exists>rows. snd (fold (\<lambda>bl (removed, db'). let (n, db'') = delete_domains_in_batches db' (bl_id bl) AllRows
       in (removed + n, db'')) bls (k, db\<lparr>t_blocked_domains := r\<rparr>)) = db\<lparr>t_blocked_domains := rows\<rparr> \<and> set rows \<subseteq> set r" for bls k r
  proof (induction bls arbitrary: k r)
    case Nil
    then show ?case by auto
  next
    case (Cons bl bls)
    obtain n rows where rows: "delete_domains_in_batches (db\<lparr>t_blocked_domains := r\<rparr>) (bl_id bl) AllRows =
        (n, db\<lparr>t_blocked_domains := rows\<rparr>)" "set rows \<subseteq> set r"
      using delete_domains_frame [of "db\<lparr>t_blocked_domains := r\<rparr>" "bl_id bl" AllRows]
      by (cases "delete_domains_in_batches (db\<lparr>t_blocked_domains := r\<rparr>) (bl_id bl) AllRows") auto
    from Cons [of "k + n" rows] rows show ?case by auto
  qed
  from this [of "list_blocklists db pid" 0 "t_blocked_domains db"] show ?thesis by (simp add: drain_pass_def)
qed

lemma drain_profile_frame:
  "\<exists>rows. drain_profile n db pid = db\<lparr>t_blocked_domains := rows\<rparr> \<and> set rows \<subseteq> set (t_blocked_domains db)"
proof (induction n arbitrary: db)
  case 0
  show ?case by (auto intro: exI [of _ "t_blocked_domains db"])
next
  case (Suc n)
  obtain k rows where r: "drain_pass db pid = (k, db\<lparr>t_blocked_domains := rows\<rparr>)" "set rows \<subseteq> set (t_blocked_domains db)"
    using drain_pass_frame [of db pid] by (cases "drain_pass db pid") auto
  show ?case
    using Suc [of "db\<lparr>t_blocked_domains := rows\<rparr>"] r by auto
qed

lemma delete_profile_row_frame:
  assumes "delete_profile_row db pid = (True, db')"
  obtains rows where "db' = cascade_profile (db\<lparr>t_blocked_domains := rows\<rparr>) pid"
    and "set rows \<subseteq> set (t_blocked_domains db)"
    and "\<exists>p \<in> set (t_profiles db). prof_id p = pid \<and> \<not> prof_builtin p"
  using assms drain_profile_frame [of DRAIN_MAX_PASSES db pid] that
  by (auto simp: delete_profile_row_def split: if_splits)

lemma delete_profile_row_gone:
  assumes "delete_profile_row db pid = (True, db')"
  shows "get_profile db' pid = None" and "list_blocklists db' pid = []"
    and "\<And>did. pid \<notin> set (device_profile_ids db' did)"
proof -
  obtain rows where d: "db' = cascade_profile (db\<lparr>t_blocked_domains := rows\<rparr>) pid"
    using delete_profile_row_frame [OF assms] by blast
  show "get_profile db' pid = None"
    by (auto simp: d get_profile_def cascade_profile_def Let_def find_None_iff)
  show "list_blocklists db' pid = []"
    by (auto simp: d list_blocklists_def cascade_profile_def Let_def filter_empty_conv)
  show "pid \<notin> set (device_profile_ids db' did)" for did
    by (auto simp: d device_profile_ids_def cascade_profile_def Let_def)
qed

lemma fold_no_change:
  "\<forall>x \<in> set xs. f x = (\<lambda>s. s) \<Longrightarrow> fold f xs s = s"
  by (induction xs arbitrary: s) auto



text \<open>
  Two devices that swap addresses end up with wrong contexts. Handling the two address
  changes in order leaves the first device's context at the second device's new address and
  none at the first device's own, which then falls back to the default profiles.
\<close>

theorem address_swap_misplaces_contexts:
  assumes "require_admin auth = Inr ()" and "parse_ip a = Some ipa" and "parse_ip b = Some ipb"
    and "ipa \<noteq> ipb" and "contexts s ipa = Some ca" and "contexts s ipb = Some cb"
    and "handle_device_ip_changed auth db da a b s = (r1, s1)"
    and "handle_device_ip_changed auth db db_dev b a s1 = (r2, s2)"
  shows "contexts s2 ipa = Some ca \<and> contexts s2 ipb = None"
proof -
  have "s1 = s\<lparr>contexts := (contexts s)(ipa := None, ipb \<mapsto> ca)\<rparr>"
    using assms(7) unfolding handle_device_ip_changed_def guarded_def assms(1)
    by (simp add: assms(2,3,5))
  moreover from this have "s2 = s1\<lparr>contexts := (contexts s1)(ipb := None, ipa \<mapsto> ca)\<rparr>"
    using assms(8) unfolding handle_device_ip_changed_def guarded_def assms(1)
    by (simp add: assms(2,3))
  ultimately show ?thesis using assms(4) by simp
qed

theorem address_swap_misplaces_contexts_witness:
  "\<exists>r1 s1 r2 s2. handle_device_ip_changed ex_admin ex_filter_db 9 (ipv4_to_string 1) (ipv4_to_string 2) ex_svc = (r1, s1) \<and>
     handle_device_ip_changed ex_admin ex_filter_db 8 (ipv4_to_string 2) (ipv4_to_string 1) s1 = (r2, s2) \<and>
     contexts s2 (V4 1) = contexts ex_svc (V4 1) \<and> contexts s2 (V4 2) = None"
proof -
  have p: "parse_ip (ipv4_to_string 1) = Some (V4 1)" "parse_ip (ipv4_to_string 2) = Some (V4 2)"
    by (simp_all add: parse_ip_V4 parse_ipv4_to_string)
  obtain r1 s1 where h1: "handle_device_ip_changed ex_admin ex_filter_db 9 (ipv4_to_string 1) (ipv4_to_string 2) ex_svc = (r1, s1)"
    by force
  obtain r2 s2 where h2: "handle_device_ip_changed ex_admin ex_filter_db 8 (ipv4_to_string 2) (ipv4_to_string 1) s1 = (r2, s2)"
    by force
  have c: "contexts ex_svc (V4 1) = Some \<lparr>ctx_enabled = True, ctx_profiles = [0]\<rparr>"
    "contexts ex_svc (V4 2) = Some unfiltered" by (simp_all add: ex_svc_def)
  have "contexts s2 (V4 1) = Some \<lparr>ctx_enabled = True, ctx_profiles = [0]\<rparr> \<and> contexts s2 (V4 2) = None"
    by (rule address_swap_misplaces_contexts [OF ex_admin_ok p _ c h1 h2]) simp
  with h1 h2 c show ?thesis by auto
qed

text \<open>
  A change of a device's assignment takes effect. When the slots agree with the stored
  configuration, rebuilding the device makes the hot path answer queries from its current
  address, and queries authenticated as the device, as its stored settings say.
\<close>

theorem rebuild_device_correct:
  assumes "in_sync L db s"
    and "map_of (t_devices db) did = Some last_ip" and "parse_ip last_ip = Some ip"
    and "require_admin auth = Inr ()" and "rebuild_device auth db did s = (r, s')"
  shows "service_check L s' domain qtype ip = spec_outcome L db (find_device_settings db did) domain qtype ip \<and>
    check_for_device L s' domain qtype did client =
      spec_outcome L db (find_device_settings db did) domain qtype client"
proof -
  let ?c = "case find_device_settings db did of None \<Rightarrow> unfiltered | Some st \<Rightarrow> materialise_context s st"
  have s': "s' = s\<lparr>contexts := (contexts s)(ip \<mapsto> ?c), device_contexts := (device_contexts s)(did \<mapsto> ?c),
      events := events s @ [DnsFilterRebuilt]\<rparr>"
    using assms(5) unfolding rebuild_device_def guarded_def assms(4)
    by (simp add: rebuild_device_inner_def assms(2,3) publish_def Let_def)
  have ok: "in_sync L db s'" using assms(1) by (simp add: in_sync_def slots_ok_def s')
  have m: "materialise_context s = materialise_context s'"
    by (simp add: materialise_context_def s' fun_eq_iff)
  note o = outcome_spec [OF ok]
  have u: "outcome_with_context L s' (Some unfiltered) domain qtype x = outcome_with_context L s' None domain qtype x" for x
    by (simp add: outcome_with_context_def unfiltered_def)
  have c: "contexts s' ip = Some ?c" "device_contexts s' did = Some ?c" by (simp_all add: s')
  have both: "outcome_with_context L s' (Some ?c) domain qtype x =
      spec_outcome L db (find_device_settings db did) domain qtype x" for x
  proof (cases "find_device_settings db did")
    case None
    then show ?thesis using u [of x] o [of None domain qtype x] by simp
  next
    case (Some st)
    then show ?thesis using o [of "Some st" domain qtype x] by (simp add: m)
  qed
  then show ?thesis by (simp add: service_check_def check_for_device_def c)
qed

theorem rebuild_device_correct_witness:
  "\<exists>s1 r2 s2. let db = ex_filter_db\<lparr>t_devices := [(9, ipv4_to_string 1)]\<rparr>
     in rebuild_all ex_parser_lib ex_admin db ex_svc = (Inr (), s1) \<and>
        rebuild_device ex_admin db 9 s1 = (r2, s2) \<and>
        service_check ex_parser_lib s2 ''ads.com'' ''A'' (V4 1) =
          spec_outcome ex_parser_lib db (find_device_settings db 9) ''ads.com'' ''A'' (V4 1)"
proof -
  let ?db = "ex_filter_db\<lparr>t_devices := [(9, ipv4_to_string 1)]\<rparr>"
  obtain r1 s1 where e1: "rebuild_all ex_parser_lib ex_admin ?db ex_svc = (r1, s1)" by force
  obtain r2 s2 where e2: "rebuild_device ex_admin ?db 9 s1 = (r2, s2)" by force
  have "distinct (map bl_id (t_blocklists ?db))" by (simp add: ex_filter_db_def)
  note st = rebuild_all_state [OF this ex_admin_ok e1]
  have "map_of (t_devices ?db) 9 = Some (ipv4_to_string 1)" "parse_ip (ipv4_to_string 1) = Some (V4 1)"
    by (simp_all add: parse_ip_V4 parse_ipv4_to_string)
  from rebuild_device_correct [OF st(2) this ex_admin_ok e2] e1 e2 st(1) show ?thesis
    unfolding Let_def by blast
qed

end
