(* ===== verification/Filter_Admin.thy ===== *)
theory Filter_Admin
  imports Filter_Service
begin

text \<open>
  The admin operations of the filter service (\<open>dns_filter/service.rs\<close>): validation, the guards on
  ownership and builtin profiles, the repository writes in the order the handlers make them, and
  the event each handler publishes. A freshly drawn \<open>Uuid\<close> is the argument \<open>rid\<close>; how a \<open>Uuid\<close>
  prints and what the cron library accepts are the fields of \<open>admin_lib\<close>. The confirmation
  messages of the responses are left out. The in-memory service and the tables form one state,
  together with the \<open>managed\<close> column of \<open>devices\<close> that one handler sets.
\<close>

section \<open>State, errors and validation\<close>

record 'u admin_lib =
  uuid_str :: "'u \<Rightarrow> string"
  cron_from_str :: "string \<Rightarrow> string + unit"

record ('u, 'r, 'q, 'n) filter_sys =
  fs_db :: "'u filter_db"
  fs_svc :: "('u, 'r, 'q, 'n) filter_svc"
  fs_managed :: "'u set"

fun parse_error_str :: "parse_error \<Rightarrow> string" where
  "parse_error_str Empty = ''rule is empty after trimming''"
| "parse_error_str (InvalidHostsIp s) =
     ''hosts-file rule must use 0.0.0.0, 127.0.0.1, ::, or ::1 (got `'' @ s @ ''`)''"
| "parse_error_str (InvalidDomain s) = ''invalid domain: `'' @ s @ ''`''"
| "parse_error_str (InvalidRegex pat err) = ''invalid regex `'' @ pat @ ''`: '' @ err"
| "parse_error_str (UnknownModifier s) = ''unknown modifier: `'' @ s @ ''`''"
| "parse_error_str (InvalidModifierValue name v) = ''invalid `'' @ name @ ''` modifier value: `'' @ v @ ''`''"
| "parse_error_str (MissingModifierValue s) = ''modifier `'' @ s @ ''` requires a value''"
| "parse_error_str (InvalidClient s) = ''invalid CIDR or IP for $client: `'' @ s @ ''`''"
| "parse_error_str (InvalidRewrite s) = ''invalid rewrite IP for $dnsrewrite: `'' @ s @ ''`''"
| "parse_error_str (Unrecognized s) = ''unrecognized rule format: `'' @ s @ ''`''"

definition validate_domain :: "string \<Rightarrow> app_error + unit" where
  "validate_domain domain =
     (if domain = [] then Inl (BadRequest ''domain must not be empty'')
      else if length domain > 253 then Inl (BadRequest ''domain must be <= 253 characters'')
      else if CHR ''.'' \<notin> set domain then Inl (BadRequest (''domain must contain at least one '' @ quoted ''.''))
      else if \<not> list_all domain_char domain
      then Inl (BadRequest (''domain contains invalid characters (allowed: alphanumeric, '' @ quoted ''.'' @
             '', '' @ quoted ''-'' @ '', '' @ quoted ''_'' @ '')''))
      else Inr ())"

definition validate_url :: "string \<Rightarrow> app_error + unit" where
  "validate_url url =
     (if \<not> starts_with ''http://'' url \<and> \<not> starts_with ''https://'' url
      then Inl (BadRequest ''URL must start with http:// or https://'') else Inr ())"

text \<open>\<open>dns/cron_parse.rs\<close>: a five-field expression gets a leading seconds field.\<close>

definition parse_schedule :: "'u admin_lib \<Rightarrow> string \<Rightarrow> string + unit" where
  "parse_schedule A expr =
     (let trimmed = trim expr in
      if length (split_whitespace trimmed) = 5 then cron_from_str A (''0 '' @ trimmed)
      else cron_from_str A trimmed)"

definition validate_cron :: "'u admin_lib \<Rightarrow> string \<Rightarrow> app_error + unit" where
  "validate_cron A schedule =
     (case parse_schedule A schedule of
        Inl e \<Rightarrow> Inl (BadRequest (''Invalid cron expression: '' @ e)) | Inr _ \<Rightarrow> Inr ())"

definition validate_rule_text :: "('r, 'q, 'n) parser_lib \<Rightarrow> string \<Rightarrow> app_error + unit" where
  "validate_rule_text L rule_text =
     (case parse_line L rule_text of
        Inl e \<Rightarrow> Inl (BadRequest (''Invalid filter rule: '' @ parse_error_str e))
      | Inr None \<Rightarrow> Inl (BadRequest ''Rule parses as a comment or blank line'')
      | Inr (Some _) \<Rightarrow> Inr ())"

definition ensure_profile_exists :: "'u admin_lib \<Rightarrow> 'u filter_db \<Rightarrow> 'u \<Rightarrow> app_error + 'u filter_profile" where
  "ensure_profile_exists A db pid =
     ok_or (NotFound (''profile '' @ uuid_str A pid @ '' not found'')) (get_profile db pid)"

definition ensure_blocklist_in_profile ::
    "'u admin_lib \<Rightarrow> 'u filter_db \<Rightarrow> 'u \<Rightarrow> 'u \<Rightarrow> app_error + 'u blocklist" where
  "ensure_blocklist_in_profile A db pid rid =
     (case get_blocklist db rid of
        None \<Rightarrow> Inl (NotFound (''blocklist '' @ uuid_str A rid @ '' not found''))
      | Some bl \<Rightarrow>
          (if bl_profile_id bl \<noteq> pid
           then Inl (NotFound (''blocklist '' @ uuid_str A rid @ '' not found in profile '' @ uuid_str A pid))
           else Inr bl))"

definition ensure_rule_in_profile ::
    "'u admin_lib \<Rightarrow> 'u filter_db \<Rightarrow> 'u \<Rightarrow> 'u \<Rightarrow> app_error + 'u custom_rule" where
  "ensure_rule_in_profile A db pid rid =
     (case get_custom_rule db rid of
        None \<Rightarrow> Inl (NotFound (''rule '' @ uuid_str A rid @ '' not found''))
      | Some rule \<Rightarrow>
          (if cr_profile_id rule \<noteq> pid
           then Inl (NotFound (''rule '' @ uuid_str A rid @ '' not found in profile '' @ uuid_str A pid))
           else Inr rule))"

definition announce :: "'u filter_change \<Rightarrow> ('u, 'r, 'q, 'n) filter_sys \<Rightarrow> ('u, 'r, 'q, 'n) filter_sys" where
  "announce change S = S\<lparr>fs_svc := publish (DnsFilterChanged change) (fs_svc S)\<rparr>"

section \<open>Profiles\<close>

definition create_profile ::
    "'u admin_lib \<Rightarrow> 'v auth_context option \<Rightarrow> 'u \<Rightarrow> string \<Rightarrow> string option \<Rightarrow>
     ('u, 'r, 'q, 'n) filter_sys \<Rightarrow> (app_error + 'u) \<times> ('u, 'r, 'q, 'n) filter_sys" where
  "create_profile A auth rid name descr S =
     attempt (require_admin auth) S (\<lambda>_.
     attempt (require (trim name \<noteq> []) (BadRequest ''name must not be empty'')) S (\<lambda>_.
     attempt (require (\<forall>d \<in> set_option descr. length d \<le> 200)
                (BadRequest ''description must not exceed 200 characters'')) S (\<lambda>_.
     attempt (internal (create_profile_row (fs_db S) rid name descr)) S (\<lambda>db.
       (Inr rid, announce (ProfileMembership rid) (S\<lparr>fs_db := db\<rparr>))))))"

definition update_profile ::
    "'u admin_lib \<Rightarrow> 'v auth_context option \<Rightarrow> 'u \<Rightarrow> string option \<Rightarrow> string option option \<Rightarrow>
     ('u, 'r, 'q, 'n) filter_sys \<Rightarrow> (app_error + 'u filter_profile) \<times> ('u, 'r, 'q, 'n) filter_sys" where
  "update_profile A auth rid name descr S =
     attempt (require_admin auth) S (\<lambda>_.
     attempt (ensure_profile_exists A (fs_db S) rid) S (\<lambda>existing.
     attempt (require (\<not> prof_builtin existing) (Conflict ''builtin profiles cannot be modified'')) S (\<lambda>_.
     attempt (require (\<forall>n \<in> set_option name. trim n \<noteq> []) (BadRequest ''name must not be empty'')) S (\<lambda>_.
     attempt (require (\<forall>d \<in> set_option (Option.bind descr (\<lambda>d. d)). length d \<le> 200)
                (BadRequest ''description must not exceed 200 characters'')) S (\<lambda>_.
     attempt (internal (update_profile_fields (fs_db S) rid name descr)) S (\<lambda>(_, db).
       (Inr (case get_profile db rid of Some p \<Rightarrow> p | None \<Rightarrow> existing),
        announce (ProfileMembership rid) (S\<lparr>fs_db := db\<rparr>))))))))"

definition delete_profile ::
    "'u admin_lib \<Rightarrow> 'v auth_context option \<Rightarrow> 'u \<Rightarrow> ('u, 'r, 'q, 'n) filter_sys \<Rightarrow>
     (app_error + unit) \<times> ('u, 'r, 'q, 'n) filter_sys" where
  "delete_profile A auth rid S =
     attempt (require_admin auth) S (\<lambda>_.
     attempt (ensure_profile_exists A (fs_db S) rid) S (\<lambda>existing.
     attempt (require (\<not> prof_builtin existing) (Conflict ''builtin profiles cannot be deleted'')) S (\<lambda>_.
       (let (deleted, db) = delete_profile_row (fs_db S) rid; S' = S\<lparr>fs_db := db\<rparr> in
        if \<not> deleted then (Inl (NotFound (''profile '' @ uuid_str A rid @ '' not found'')), S')
        else (Inr (), announce (ProfileMembership rid) S')))))"

section \<open>Block lists\<close>

definition create_blocklist ::
    "'u admin_lib \<Rightarrow> 'v auth_context option \<Rightarrow> 'u \<Rightarrow> 'u \<Rightarrow> string \<Rightarrow> string \<Rightarrow> bool \<Rightarrow> string \<Rightarrow>
     ('u, 'r, 'q, 'n) filter_sys \<Rightarrow> (app_error + 'u blocklist) \<times> ('u, 'r, 'q, 'n) filter_sys" where
  "create_blocklist A auth rid pid name url enabled cron S =
     attempt (require_admin auth) S (\<lambda>_.
     attempt (ensure_profile_exists A (fs_db S) pid) S (\<lambda>_.
     attempt (validate_url url) S (\<lambda>_.
     attempt (validate_cron A cron) S (\<lambda>_.
     attempt (internal (create_blocklist_row (fs_db S) rid pid name url enabled cron)) S (\<lambda>db.
     attempt (ok_or (Internal ''blocklist not found after insert'') (get_blocklist db rid)) (S\<lparr>fs_db := db\<rparr>) (\<lambda>bl.
       (Inr bl, announce (ProfileContent pid) (S\<lparr>fs_db := db\<rparr>))))))))"

definition update_blocklist ::
    "'u admin_lib \<Rightarrow> 'v auth_context option \<Rightarrow> 'u \<Rightarrow> 'u \<Rightarrow> string option \<Rightarrow> string option \<Rightarrow> bool option \<Rightarrow>
     string option \<Rightarrow> ('u, 'r, 'q, 'n) filter_sys \<Rightarrow>
     (app_error + 'u blocklist) \<times> ('u, 'r, 'q, 'n) filter_sys" where
  "update_blocklist A auth pid rid name url enabled cron S =
     attempt (require_admin auth) S (\<lambda>_.
     attempt (ensure_blocklist_in_profile A (fs_db S) pid rid) S (\<lambda>_.
     attempt (validate_opt validate_url url) S (\<lambda>_.
     attempt (validate_opt (validate_cron A) cron) S (\<lambda>_.
     attempt (internal (update_blocklist_row (fs_db S) rid name url enabled cron)) S (\<lambda>db.
     attempt (ok_or (Internal ''blocklist not found after update'') (get_blocklist db rid)) (S\<lparr>fs_db := db\<rparr>) (\<lambda>bl.
       (Inr bl, announce (ProfileContent pid) (S\<lparr>fs_db := db\<rparr>))))))))"

definition delete_blocklist ::
    "'u admin_lib \<Rightarrow> 'v auth_context option \<Rightarrow> 'u \<Rightarrow> 'u \<Rightarrow> ('u, 'r, 'q, 'n) filter_sys \<Rightarrow>
     (app_error + unit) \<times> ('u, 'r, 'q, 'n) filter_sys" where
  "delete_blocklist A auth pid rid S =
     attempt (require_admin auth) S (\<lambda>_.
     attempt (ensure_blocklist_in_profile A (fs_db S) pid rid) S (\<lambda>_.
       (let (deleted, db) = delete_blocklist_row (fs_db S) rid; S' = S\<lparr>fs_db := db\<rparr> in
        if \<not> deleted then (Inl (NotFound (''blocklist '' @ uuid_str A rid @ '' not found'')), S')
        else (Inr (), announce (ProfileContent pid) S'))))"

section \<open>Allowlist and custom rules\<close>

definition create_allowlist_entry ::
    "'u admin_lib \<Rightarrow> 'v auth_context option \<Rightarrow> 'u \<Rightarrow> 'u \<Rightarrow> string \<Rightarrow> string option \<Rightarrow>
     ('u, 'r, 'q, 'n) filter_sys \<Rightarrow> (app_error + 'u allowlist_entry) \<times> ('u, 'r, 'q, 'n) filter_sys" where
  "create_allowlist_entry A auth rid pid domain reason S =
     attempt (require_admin auth) S (\<lambda>_.
     attempt (ensure_profile_exists A (fs_db S) pid) S (\<lambda>_.
     attempt (validate_domain domain) S (\<lambda>_.
     attempt (internal (create_allowlist_row (fs_db S) rid pid domain reason)) S (\<lambda>db.
     attempt (ok_or (Internal ''allowlist entry not found after insert'')
                (find (\<lambda>e. al_id e = rid) (list_allowlist db pid))) (S\<lparr>fs_db := db\<rparr>) (\<lambda>e.
       (Inr e, announce (ProfileContent pid) (S\<lparr>fs_db := db\<rparr>)))))))"

definition delete_allowlist_entry ::
    "'u admin_lib \<Rightarrow> 'v auth_context option \<Rightarrow> 'u \<Rightarrow> 'u \<Rightarrow> ('u, 'r, 'q, 'n) filter_sys \<Rightarrow>
     (app_error + unit) \<times> ('u, 'r, 'q, 'n) filter_sys" where
  "delete_allowlist_entry A auth pid rid S =
     attempt (require_admin auth) S (\<lambda>_.
     attempt (ensure_profile_exists A (fs_db S) pid) S (\<lambda>_.
       (let (deleted, db) = delete_allowlist_row (fs_db S) rid; S' = S\<lparr>fs_db := db\<rparr> in
        if \<not> deleted then (Inl (NotFound (''allowlist entry '' @ uuid_str A rid @ '' not found'')), S')
        else (Inr (), announce (ProfileContent pid) S'))))"

definition create_custom_rule ::
    "('r, 'q, 'n) parser_lib \<Rightarrow> 'u admin_lib \<Rightarrow> 'v auth_context option \<Rightarrow> 'u \<Rightarrow> 'u \<Rightarrow> string \<Rightarrow> bool \<Rightarrow>
     string option \<Rightarrow> ('u, 'r, 'q, 'n) filter_sys \<Rightarrow>
     (app_error + 'u custom_rule) \<times> ('u, 'r, 'q, 'n) filter_sys" where
  "create_custom_rule L A auth rid pid rule_text enabled comment S =
     attempt (require_admin auth) S (\<lambda>_.
     attempt (ensure_profile_exists A (fs_db S) pid) S (\<lambda>_.
     attempt (validate_rule_text L rule_text) S (\<lambda>_.
     attempt (internal (create_custom_rule_row (fs_db S) rid pid rule_text enabled comment)) S (\<lambda>db.
     attempt (ok_or (Internal ''custom rule not found after insert'') (get_custom_rule db rid)) (S\<lparr>fs_db := db\<rparr>) (\<lambda>r.
       (Inr r, announce (ProfileContent pid) (S\<lparr>fs_db := db\<rparr>)))))))"

definition update_custom_rule ::
    "('r, 'q, 'n) parser_lib \<Rightarrow> 'u admin_lib \<Rightarrow> 'v auth_context option \<Rightarrow> 'u \<Rightarrow> 'u \<Rightarrow> string option \<Rightarrow>
     bool option \<Rightarrow> string option \<Rightarrow> ('u, 'r, 'q, 'n) filter_sys \<Rightarrow>
     (app_error + 'u custom_rule) \<times> ('u, 'r, 'q, 'n) filter_sys" where
  "update_custom_rule L A auth pid rid rule_text enabled comment S =
     attempt (require_admin auth) S (\<lambda>_.
     attempt (ensure_rule_in_profile A (fs_db S) pid rid) S (\<lambda>_.
     attempt (validate_opt (validate_rule_text L) rule_text) S (\<lambda>_.
       (let db = update_custom_rule_row (fs_db S) rid rule_text enabled comment in
        attempt (ok_or (Internal ''custom rule not found after update'') (get_custom_rule db rid)) (S\<lparr>fs_db := db\<rparr>) (\<lambda>r.
          (Inr r, announce (ProfileContent pid) (S\<lparr>fs_db := db\<rparr>)))))))"

definition delete_custom_rule ::
    "'u admin_lib \<Rightarrow> 'v auth_context option \<Rightarrow> 'u \<Rightarrow> 'u \<Rightarrow> ('u, 'r, 'q, 'n) filter_sys \<Rightarrow>
     (app_error + unit) \<times> ('u, 'r, 'q, 'n) filter_sys" where
  "delete_custom_rule A auth pid rid S =
     attempt (require_admin auth) S (\<lambda>_.
     attempt (ensure_rule_in_profile A (fs_db S) pid rid) S (\<lambda>_.
       (let (deleted, db) = delete_custom_rule_row (fs_db S) rid; S' = S\<lparr>fs_db := db\<rparr> in
        if \<not> deleted then (Inl (NotFound (''rule '' @ uuid_str A rid @ '' not found'')), S')
        else (Inr (), announce (ProfileContent pid) S'))))"

section \<open>Device settings and the global configuration\<close>

fun ensure_all_exist :: "'u admin_lib \<Rightarrow> 'u filter_db \<Rightarrow> 'u list \<Rightarrow> app_error + unit" where
  "ensure_all_exist A db [] = Inr ()"
| "ensure_all_exist A db (pid # pids) =
     (case ensure_profile_exists A db pid of Inl e \<Rightarrow> Inl e | Inr _ \<Rightarrow> ensure_all_exist A db pids)"

definition default_settings :: "'u \<Rightarrow> 'u device_filter_settings" where
  "default_settings did = \<lparr>ds_device_id = did, ds_enabled = True, ds_profile_ids = []\<rparr>"

text \<open>The two writes are separate statements: the second can fail with the first one stored.\<close>

definition update_device_settings ::
    "'u admin_lib \<Rightarrow> 'v auth_context option \<Rightarrow> 'u \<Rightarrow> bool \<Rightarrow> 'u list \<Rightarrow> ('u, 'r, 'q, 'n) filter_sys \<Rightarrow>
     (app_error + 'u device_filter_settings) \<times> ('u, 'r, 'q, 'n) filter_sys" where
  "update_device_settings A auth did enabled pids S =
     attempt (require_admin auth) S (\<lambda>_.
     attempt (ensure_all_exist A (fs_db S) pids) S (\<lambda>_.
     attempt (internal (upsert_device_settings (fs_db S) did enabled)) S (\<lambda>db1.
     attempt (internal (set_device_profiles db1 did pids)) (S\<lparr>fs_db := db1\<rparr>) (\<lambda>db2.
       (let managed = (if did \<in> fst ` set (t_devices db2) then insert did (fs_managed S) else fs_managed S)
        in (Inr (case find_device_settings db2 did of Some st \<Rightarrow> st | None \<Rightarrow> default_settings did),
            announce (DeviceAssignment did) (S\<lparr>fs_db := db2, fs_managed := managed\<rparr>)))))))"

record 'u config_report =
  rep_config :: "'u filter_config"
  rep_filters_ready :: bool
  rep_pending_blocklists :: nat

definition config_response :: "('u, 'r, 'q, 'n) filter_sys \<Rightarrow> 'u filter_config \<Rightarrow> 'u config_report" where
  "config_response S config =
     (let pending = count_unimported_blocklists (fs_db S) in
      \<lparr>rep_config = config, rep_filters_ready = (bootstrapped (fs_svc S) \<and> pending = 0),
       rep_pending_blocklists = (if pending < 2 ^ 32 then pending else 2 ^ 32 - 1)\<rparr>)"

definition update_filter_config ::
    "'u::linorder admin_lib \<Rightarrow> 'v auth_context option \<Rightarrow> bool option \<Rightarrow> 'u list option \<Rightarrow> nat option \<Rightarrow>
     ('u, 'r, 'q, 'n) filter_sys \<Rightarrow> (app_error + 'u config_report) \<times> ('u, 'r, 'q, 'n) filter_sys" where
  "update_filter_config A auth enabled default_ids threshold S =
     attempt (require_admin auth) S (\<lambda>_.
       (let current0 = get_dns_filter_config (fs_db S);
            changed_global = (case enabled of Some e \<Rightarrow> fc_enabled current0 \<noteq> e | None \<Rightarrow> False);
            current1 = (case enabled of Some e \<Rightarrow> current0\<lparr>fc_enabled := e\<rparr> | None \<Rightarrow> current0);
            current2 = (case threshold of Some t \<Rightarrow> current1\<lparr>fc_failure_alert_threshold := t\<rparr> | None \<Rightarrow> current1);
            ids = map_option (\<lambda>xs. remdups_adj (sort xs)) default_ids;
            changed_default = (case ids of Some xs \<Rightarrow> sort (fc_default_profile_ids current2) \<noteq> xs | None \<Rightarrow> False);
            current = (case ids of Some xs \<Rightarrow> current2\<lparr>fc_default_profile_ids := xs\<rparr> | None \<Rightarrow> current2)
        in attempt (validate_opt (ensure_all_exist A (fs_db S)) ids) S (\<lambda>_.
           attempt (internal (set_dns_filter_config (fs_db S) current)) S (\<lambda>db.
             (let S1 = S\<lparr>fs_db := db, fs_svc := (fs_svc S)\<lparr>svc_config := current\<rparr>\<rparr>;
                  S2 = (if changed_default then announce DefaultProfile S1 else S1);
                  S3 = (if changed_global then announce GlobalToggle S2 else S2)
              in (Inr (config_response S3 current), S3))))))"

section \<open>Every way the configuration changes\<close>

text \<open>
  One constructor per handler that writes, with the request's fields, and the refresh job of a
  block list, whose download is the argument \<open>fetch\<close>.
\<close>

datatype 'u filter_op =
    CreateProfile 'u string "string option"
  | UpdateProfile 'u "string option" "string option option"
  | DeleteProfile 'u
  | CreateBlocklist 'u 'u string string bool string
  | UpdateBlocklist 'u 'u "string option" "string option" "bool option" "string option"
  | DeleteBlocklist 'u 'u
  | CreateAllowlistEntry 'u 'u string "string option"
  | DeleteAllowlistEntry 'u 'u
  | CreateCustomRule 'u 'u string bool "string option"
  | UpdateCustomRule 'u 'u "string option" "bool option" "string option"
  | DeleteCustomRule 'u 'u
  | UpdateDeviceSettings 'u bool "'u list"
  | UpdateFilterConfig "bool option" "'u list option" "nat option"

definition discard :: "('e + 'a) \<times> 's \<Rightarrow> ('e + unit) \<times> 's" where
  "discard r = (case fst r of Inl e \<Rightarrow> Inl e | Inr _ \<Rightarrow> Inr (), snd r)"

fun run_op ::
    "('r, 'q, 'n) parser_lib \<Rightarrow> 'u::linorder admin_lib \<Rightarrow> 'v auth_context option \<Rightarrow> 'u filter_op \<Rightarrow>
     ('u, 'r, 'q, 'n) filter_sys \<Rightarrow> (app_error + unit) \<times> ('u, 'r, 'q, 'n) filter_sys" where
  "run_op L A auth (CreateProfile rid name descr) S = discard (create_profile A auth rid name descr S)"
| "run_op L A auth (UpdateProfile rid name descr) S = discard (update_profile A auth rid name descr S)"
| "run_op L A auth (DeleteProfile rid) S = delete_profile A auth rid S"
| "run_op L A auth (CreateBlocklist rid pid name url enabled cron) S =
     discard (create_blocklist A auth rid pid name url enabled cron S)"
| "run_op L A auth (UpdateBlocklist pid rid name url enabled cron) S =
     discard (update_blocklist A auth pid rid name url enabled cron S)"
| "run_op L A auth (DeleteBlocklist pid rid) S = delete_blocklist A auth pid rid S"
| "run_op L A auth (CreateAllowlistEntry rid pid domain reason) S =
     discard (create_allowlist_entry A auth rid pid domain reason S)"
| "run_op L A auth (DeleteAllowlistEntry pid rid) S = delete_allowlist_entry A auth pid rid S"
| "run_op L A auth (CreateCustomRule rid pid rule_text enabled comment) S =
     discard (create_custom_rule L A auth rid pid rule_text enabled comment S)"
| "run_op L A auth (UpdateCustomRule pid rid rule_text enabled comment) S =
     discard (update_custom_rule L A auth pid rid rule_text enabled comment S)"
| "run_op L A auth (DeleteCustomRule pid rid) S = delete_custom_rule A auth pid rid S"
| "run_op L A auth (UpdateDeviceSettings did enabled pids) S =
     discard (update_device_settings A auth did enabled pids S)"
| "run_op L A auth (UpdateFilterConfig enabled default_ids threshold) S =
     discard (update_filter_config A auth enabled default_ids threshold S)"

text \<open>The system as it runs: requests of any caller and refresh jobs, in any order.\<close>

inductive filter_step ::
    "('r, 'q, 'n) parser_lib \<Rightarrow> 'u::linorder admin_lib \<Rightarrow>
     ('u, 'r, 'q, 'n) filter_sys \<Rightarrow> ('u, 'r, 'q, 'n) filter_sys \<Rightarrow> bool"
  for L :: "('r, 'q, 'n) parser_lib" and A :: "'u::linorder admin_lib" where
  request: "filter_step L A S (snd (run_op L A (auth :: 'u auth_context option) op S))"
| refresh: "refresh_blocklist L fetch now bl (fs_db S) = (r, db, evs) \<Longrightarrow> filter_step L A S (S\<lparr>fs_db := db\<rparr>)"

inductive_cases filter_stepE: "filter_step L A S S'"

section \<open>The repository writes behind the handlers\<close>

text \<open>
  Each handler either leaves the tables alone or makes writes whose arguments passed its checks.
\<close>

inductive db_write ::
    "('r, 'q, 'n) parser_lib \<Rightarrow> 'u::linorder admin_lib \<Rightarrow> 'u filter_db \<Rightarrow> 'u filter_db \<Rightarrow> bool"
  for L :: "('r, 'q, 'n) parser_lib" and A :: "'u::linorder admin_lib" where
  w_create_profile: "create_profile_row db rid name descr = Inr db' \<Longrightarrow> db_write L A db db'"
| w_update_profile: "get_profile db rid = Some p \<Longrightarrow> \<not> prof_builtin p \<Longrightarrow>
    update_profile_fields db rid name descr = Inr (b, db') \<Longrightarrow> db_write L A db db'"
| w_delete_profile: "delete_profile_row db rid = (True, db') \<Longrightarrow> db_write L A db db'"
| w_create_blocklist: "validate_url url = Inr () \<Longrightarrow> validate_cron A cron = Inr () \<Longrightarrow>
    create_blocklist_row db rid pid name url enabled cron = Inr db' \<Longrightarrow> db_write L A db db'"
| w_update_blocklist: "validate_opt validate_url url' = Inr () \<Longrightarrow> validate_opt (validate_cron A) cron' = Inr () \<Longrightarrow>
    update_blocklist_row db rid name' url' enabled' cron' = Inr db' \<Longrightarrow> db_write L A db db'"
| w_delete_blocklist: "delete_blocklist_row db rid = (True, db') \<Longrightarrow> db_write L A db db'"
| w_create_allowlist: "validate_domain domain = Inr () \<Longrightarrow>
    create_allowlist_row db rid pid domain reason = Inr db' \<Longrightarrow> db_write L A db db'"
| w_delete_allowlist: "delete_allowlist_row db rid = (True, db') \<Longrightarrow> db_write L A db db'"
| w_create_rule: "validate_rule_text L rule_text = Inr () \<Longrightarrow>
    create_custom_rule_row db rid pid rule_text enabled comment = Inr db' \<Longrightarrow> db_write L A db db'"
| w_update_rule: "validate_opt (validate_rule_text L) text' = Inr () \<Longrightarrow>
    db_write L A db (update_custom_rule_row db rid text' enabled' comment)"
| w_delete_rule: "delete_custom_rule_row db rid = (True, db') \<Longrightarrow> db_write L A db db'"
| w_upsert: "upsert_device_settings db did enabled = Inr db' \<Longrightarrow> db_write L A db db'"
| w_assign: "set_device_profiles db did pids = Inr db' \<Longrightarrow> db_write L A db db'"
| w_config: "set_dns_filter_config db cfg = Inr db' \<Longrightarrow> db_write L A db db'"
| w_refresh: "refresh_blocklist L fetch now bl db = (r, db', evs) \<Longrightarrow> db_write L A db db'"

lemma attempt_writes:
  assumes "(db_write L A)\<^sup>*\<^sup>* db (fs_db s)" and "\<And>x. r = Inr x \<Longrightarrow> (db_write L A)\<^sup>*\<^sup>* db (fs_db (snd (k x)))"
  shows "(db_write L A)\<^sup>*\<^sup>* db (fs_db (snd (attempt r s k)))"
  using assms by (simp add: attempt_def split: sum.splits)

lemma handler_results [simp]:
  "internal r = Inr x \<longleftrightarrow> r = Inr x" "ok_or e y = Inr z \<longleftrightarrow> y = Some z" "require b e = Inr u \<longleftrightarrow> b"
  "fs_db (announce change S) = fs_db S" "snd (discard r') = snd r'"
  "fs_managed (announce change S) = fs_managed S"
  by (auto simp: internal_def ok_or_def require_def announce_def discard_def split: sum.splits option.splits)

lemma ensure_profile_Inr [simp]: "ensure_profile_exists A db pid = Inr p \<longleftrightarrow> get_profile db pid = Some p"
  by (simp add: ensure_profile_exists_def)

lemma ensure_blocklist_Inr [simp]:
  "ensure_blocklist_in_profile A db pid rid = Inr bl \<longleftrightarrow> get_blocklist db rid = Some bl \<and> bl_profile_id bl = pid"
  by (auto simp: ensure_blocklist_in_profile_def split: option.splits)

lemma ensure_rule_Inr [simp]:
  "ensure_rule_in_profile A db pid rid = Inr r \<longleftrightarrow> get_custom_rule db rid = Some r \<and> cr_profile_id r = pid"
  by (auto simp: ensure_rule_in_profile_def split: option.splits)

lemma filter_key_absent: "k \<notin> f ` set xs \<Longrightarrow> filter (\<lambda>x. f x \<noteq> k) xs = xs"
  by (auto simp: filter_id_conv)

lemma delete_row_False:
  "delete_profile_row db rid = (False, db') \<Longrightarrow> db' = db"
  "delete_allowlist_row db rid = (False, db') \<Longrightarrow> db' = db"
  "delete_custom_rule_row db rid = (False, db') \<Longrightarrow> db' = db"
  by (auto simp: delete_profile_row_def delete_allowlist_row_def delete_custom_rule_row_def filter_key_absent
      split: if_splits)

lemma delete_blocklist_row_found:
  "get_blocklist db rid = Some bl \<Longrightarrow> fst (delete_blocklist_row db rid)"
  using delete_domains_in_batches_filter [of db rid AllRows]
  by (cases "delete_domains_in_batches db rid AllRows")
    (auto simp: delete_blocklist_row_def get_blocklist_def find_Some_iff)

lemma written: "db_write L A db db' \<Longrightarrow> (db_write L A)\<^sup>*\<^sup>* db db'"
  by blast

lemma run_op_writes:
  "(db_write L A)\<^sup>*\<^sup>* (fs_db S) (fs_db (snd (run_op L A auth op S)))"
proof (cases op)
  case (CreateProfile rid name descr)
  show ?thesis
    unfolding CreateProfile run_op.simps handler_results create_profile_def
    by (intro attempt_writes) (auto intro: written w_create_profile)
next
  case (UpdateProfile rid name descr)
  show ?thesis
    unfolding UpdateProfile run_op.simps handler_results update_profile_def
    by (intro attempt_writes) (auto intro!: written intro: w_update_profile)
next
  case (DeleteProfile rid)
  show ?thesis
    unfolding DeleteProfile run_op.simps delete_profile_def Let_def
    by (intro attempt_writes)
      (auto split: prod.splits dest: delete_row_False intro: written w_delete_profile)
next
  case (CreateBlocklist rid pid name url enabled cron)
  show ?thesis
    unfolding CreateBlocklist run_op.simps handler_results create_blocklist_def
    by (intro attempt_writes) (auto intro: written w_create_blocklist)
next
  case (UpdateBlocklist pid rid name url enabled cron)
  show ?thesis
    unfolding UpdateBlocklist run_op.simps handler_results update_blocklist_def
    by (intro attempt_writes) (auto intro: written w_update_blocklist)
next
  case (DeleteBlocklist pid rid)
  show ?thesis
    unfolding DeleteBlocklist run_op.simps delete_blocklist_def Let_def
    by (intro attempt_writes)
      (auto split: prod.splits dest: delete_blocklist_row_found intro: written w_delete_blocklist)
next
  case (CreateAllowlistEntry rid pid domain reason)
  show ?thesis
    unfolding CreateAllowlistEntry run_op.simps handler_results create_allowlist_entry_def
    by (intro attempt_writes) (auto intro: written w_create_allowlist)
next
  case (DeleteAllowlistEntry pid rid)
  show ?thesis
    unfolding DeleteAllowlistEntry run_op.simps delete_allowlist_entry_def Let_def
    by (intro attempt_writes)
      (auto split: prod.splits dest: delete_row_False intro: written w_delete_allowlist)
next
  case (CreateCustomRule rid pid rule enabled comment)
  show ?thesis
    unfolding CreateCustomRule run_op.simps handler_results create_custom_rule_def
    by (intro attempt_writes) (auto intro: written w_create_rule)
next
  case (UpdateCustomRule pid rid rule enabled comment)
  show ?thesis
    unfolding UpdateCustomRule run_op.simps handler_results update_custom_rule_def Let_def
    by (intro attempt_writes) (auto intro: written w_update_rule)
next
  case (DeleteCustomRule pid rid)
  show ?thesis
    unfolding DeleteCustomRule run_op.simps delete_custom_rule_def Let_def
    by (intro attempt_writes)
      (auto split: prod.splits dest: delete_row_False intro: written w_delete_rule)
next
  case (UpdateDeviceSettings did enabled pids)
  show ?thesis
    unfolding UpdateDeviceSettings run_op.simps handler_results update_device_settings_def Let_def
    by (intro attempt_writes) (auto intro: written w_upsert rtranclp.rtrancl_into_rtrancl [OF written] w_assign)
next
  case (UpdateFilterConfig enabled ids threshold)
  show ?thesis
    unfolding UpdateFilterConfig run_op.simps handler_results update_filter_config_def Let_def
    by (intro attempt_writes) (auto intro: written w_config)
qed

section \<open>Well-formed tables\<close>

definition keys_ok :: "'u filter_db \<Rightarrow> bool" where
  "keys_ok db \<longleftrightarrow>
     distinct (map prof_id (t_profiles db)) \<and> distinct (map prof_name (t_profiles db)) \<and>
     distinct (map bl_id (t_blocklists db)) \<and>
     distinct (map al_id (t_allowlist db)) \<and> distinct (map cr_id (t_custom_rules db)) \<and>
     distinct (map fst (t_device_settings db)) \<and> distinct (t_device_profile db) \<and>
     distinct (t_default_profile db)"

definition refs_ok :: "'u filter_db \<Rightarrow> bool" where
  "refs_ok db \<longleftrightarrow>
     bl_profile_id ` set (t_blocklists db) \<subseteq> prof_id ` set (t_profiles db) \<and>
     al_profile_id ` set (t_allowlist db) \<subseteq> prof_id ` set (t_profiles db) \<and>
     cr_profile_id ` set (t_custom_rules db) \<subseteq> prof_id ` set (t_profiles db) \<and>
     snd ` set (t_device_profile db) \<subseteq> prof_id ` set (t_profiles db) \<and>
     set (t_default_profile db) \<subseteq> prof_id ` set (t_profiles db) \<and>
     fst ` set (t_device_profile db) \<subseteq> fst ` set (t_devices db) \<and>
     fst ` set (t_device_settings db) \<subseteq> fst ` set (t_devices db) \<and>
     (fst \<circ> snd) ` set (t_blocked_domains db) \<subseteq> bl_id ` set (t_blocklists db)"

definition texts_ok :: "('r, 'q, 'n) parser_lib \<Rightarrow> 'u admin_lib \<Rightarrow> 'u filter_db \<Rightarrow> bool" where
  "texts_ok L A db \<longleftrightarrow>
     (\<forall>b \<in> set (t_blocklists db). validate_url (bl_url b) = Inr () \<and> validate_cron A (bl_cron_schedule b) = Inr ()) \<and>
     (\<forall>a \<in> set (t_allowlist db). validate_domain (al_domain a) = Inr ()) \<and>
     (\<forall>r \<in> set (t_custom_rules db). validate_rule_text L (cr_rule_text r) = Inr ())"

definition builtins :: "'u filter_db \<Rightarrow> 'u filter_profile list" where
  "builtins db = filter prof_builtin (t_profiles db)"

lemma distinct_map_update:
  assumes "distinct (map key xs)" and "distinct (map k xs)"
    and "\<And>x y. x \<in> set xs \<Longrightarrow> y \<in> set xs \<Longrightarrow> k x = r \<Longrightarrow> k y \<noteq> r \<Longrightarrow> key (g x) \<noteq> key y"
    and "\<And>y. k y \<noteq> r \<Longrightarrow> key (g y) = key y"
  shows "distinct (map key (map g xs))"
proof -
  have "inj_on (key \<circ> g) (set xs)"
  proof (rule inj_onI)
    fix x y assume *: "x \<in> set xs" "y \<in> set xs" "(key \<circ> g) x = (key \<circ> g) y"
    consider "k x = r" "k y = r" | "k x = r" "k y \<noteq> r" | "k x \<noteq> r" "k y = r" | "k x \<noteq> r" "k y \<noteq> r" by blast
    then show "x = y"
    proof cases
      case 1
      then show ?thesis using * assms(2) by (auto simp: distinct_map inj_on_def)
    next
      case 2
      then show ?thesis using * assms(3) [of x y] assms(4) [of y] by simp
    next
      case 3
      then show ?thesis using * assms(3) [of y x] assms(4) [of x] by simp
    next
      case 4
      then show ?thesis using * assms(1) assms(4) [of x] assms(4) [of y] by (auto simp: distinct_map inj_on_def)
    qed
  qed
  with assms(1) show ?thesis by (simp add: distinct_map)
qed

lemma delete_blocklist_row_frame:
  "delete_blocklist_row db rid = (b, db') \<Longrightarrow>
   db' = db\<lparr>t_blocked_domains := filter (\<lambda>(d, b, g). b \<noteq> rid) (t_blocked_domains db),
            t_blocklists := filter (\<lambda>b. bl_id b \<noteq> rid) (t_blocklists db)\<rparr>"
  using delete_domains_in_batches_filter [of db rid AllRows]
  by (cases "delete_domains_in_batches db rid AllRows") (auto simp: delete_blocklist_row_def)

lemma insert_batches_frame:
  "insert_batches rid gen bs db = Inr db' \<Longrightarrow>
   db' = db\<lparr>t_blocked_domains := t_blocked_domains db @ map (\<lambda>d. (d, rid, gen)) (concat bs)\<rparr>"
proof (induction bs arbitrary: db)
  case (Cons b bs)
  then have "insert_batches rid gen bs (insert_batch rid gen b db) = Inr db'" by (simp split: if_splits)
  from Cons.IH [OF this] show ?case by (simp add: insert_batch_def)
qed simp

lemma replace_frame:
  assumes "replace_blocklist_domains db now rid ds = Inr (n, db')"
  obtains rows g where "db' = db\<lparr>t_blocked_domains := rows, t_blocklists := map g (t_blocklists db)\<rparr>"
    and "\<And>b. bl_id (g b) = bl_id b \<and> bl_profile_id (g b) = bl_profile_id b \<and> bl_url (g b) = bl_url b \<and>
           bl_cron_schedule (g b) = bl_cron_schedule b"
    and "(fst \<circ> snd) ` set rows \<subseteq> (fst \<circ> snd) ` set (t_blocked_domains db) \<union> bl_id ` set (t_blocklists db)"
proof -
  obtain bl where bl: "get_blocklist db rid = Some bl"
    using assms by (cases "get_blocklist db rid") (auto simp: replace_blocklist_domains_def)
  let ?gen = "bl_active_generation bl + 1"
  obtain k1 r1 where d1: "delete_domains_in_batches db rid (Generation ?gen) = (k1, db\<lparr>t_blocked_domains := r1\<rparr>)"
      "set r1 \<subseteq> set (t_blocked_domains db)"
    using delete_domains_frame [of db rid "Generation ?gen"]
    by (cases "delete_domains_in_batches db rid (Generation ?gen)") auto
  obtain db2 where db2: "insert_batches rid ?gen (chunks IMPORT_BATCH_ROWS (dedupe {} ds)) (db\<lparr>t_blocked_domains := r1\<rparr>) = Inr db2"
    using assms d1 bl by (auto simp: replace_blocklist_domains_def Let_def split: sum.splits)
  let ?f = "flip_generation rid ?gen (length (dedupe {} ds)) now"
  obtain k2 r2 where d2: "delete_domains_in_batches (?f db2) rid (AllExcept ?gen) = (k2, (?f db2)\<lparr>t_blocked_domains := r2\<rparr>)"
      "set r2 \<subseteq> set (t_blocked_domains (?f db2))"
    using delete_domains_frame [of "?f db2" rid "AllExcept ?gen"]
    by (cases "delete_domains_in_batches (?f db2) rid (AllExcept ?gen)") auto
  have "db' = (?f db2)\<lparr>t_blocked_domains := r2\<rparr>"
    using assms d1 d2 bl db2 by (auto simp: replace_blocklist_domains_def Let_def)
  moreover have "rid \<in> bl_id ` set (t_blocklists db)"
    using bl by (auto simp: get_blocklist_def find_Some_iff)
  moreover have "x \<in> set (t_blocked_domains db) \<or> fst (snd x) = rid" if "x \<in> set r2" for x
    using that d1(2) d2(2) insert_batches_frame [OF db2] by (force simp: flip_generation_def)
  then have "(fst \<circ> snd) ` set r2 \<subseteq> (fst \<circ> snd) ` set (t_blocked_domains db) \<union> {rid}" by force
  ultimately show ?thesis
    using insert_batches_frame [OF db2]
    by (intro that [where rows = r2 and g = "\<lambda>b. if bl_id b = rid
          then b\<lparr>bl_active_generation := ?gen, bl_entry_count := length (dedupe {} ds), bl_last_updated := Some now,
                 bl_last_error := None, bl_last_error_at := None, bl_consecutive_failures := 0\<rparr> else b"])
      (auto simp: flip_generation_def)
qed

lemma refresh_frame:
  assumes "refresh_blocklist L fetch now bl db = (r, db', evs)"
  obtains rows g where "db' = db\<lparr>t_blocked_domains := rows, t_blocklists := map g (t_blocklists db)\<rparr>"
    and "\<And>b. bl_id (g b) = bl_id b \<and> bl_profile_id (g b) = bl_profile_id b \<and> bl_url (g b) = bl_url b \<and>
           bl_cron_schedule (g b) = bl_cron_schedule b"
    and "(fst \<circ> snd) ` set rows \<subseteq> (fst \<circ> snd) ` set (t_blocked_domains db) \<union> bl_id ` set (t_blocklists db)"
proof -
  let ?e = "\<lambda>err b. if bl_id b = bl_id bl
          then (case err of
                  Some msg \<Rightarrow> b\<lparr>bl_last_error := Some msg, bl_last_error_at := Some now,
                                 bl_consecutive_failures := bl_consecutive_failures b + 1\<rparr>
                | None \<Rightarrow> b\<lparr>bl_last_error := None, bl_last_error_at := None,
                             bl_consecutive_failures := 0\<rparr>)
          else b"
  have kept: "bl_id (?e err b) = bl_id b \<and> bl_profile_id (?e err b) = bl_profile_id b \<and>
      bl_url (?e err b) = bl_url b \<and> bl_cron_schedule (?e err b) = bl_cron_schedule b" for err b
    by (cases err) simp_all
  have se: "set_blocklist_error d now (bl_id bl) err = d\<lparr>t_blocklists := map (?e err) (t_blocklists d)\<rparr>" for d err
    by (simp add: set_blocklist_error_def)
  consider (failed) err where "db' = set_blocklist_error db now (bl_id bl) err"
    | (stored) n ds d where "replace_blocklist_domains db now (bl_id bl) ds = Inr (n, d)"
        and "db' = set_blocklist_error d now (bl_id bl) None"
    using assms by (auto simp: refresh_blocklist_def Let_def split: sum.splits if_splits)
  then show ?thesis
  proof cases
    case failed
    then show ?thesis
      unfolding se by (intro that [where rows = "t_blocked_domains db" and g = "?e err"] kept) simp_all
  next
    case stored
    obtain rows g where r: "d = db\<lparr>t_blocked_domains := rows, t_blocklists := map g (t_blocklists db)\<rparr>"
      and g: "\<And>b. bl_id (g b) = bl_id b \<and> bl_profile_id (g b) = bl_profile_id b \<and> bl_url (g b) = bl_url b \<and>
           bl_cron_schedule (g b) = bl_cron_schedule b"
      and rows: "(fst \<circ> snd) ` set rows \<subseteq> (fst \<circ> snd) ` set (t_blocked_domains db) \<union> bl_id ` set (t_blocklists db)"
      using replace_frame [OF stored(1)] by blast
    have "db' = db\<lparr>t_blocked_domains := rows, t_blocklists := map (?e None \<circ> g) (t_blocklists db)\<rparr>"
      by (simp add: stored(2) se r)
    then show ?thesis using g kept [of _ None] rows
      by (intro that [where rows = rows and g = "?e None \<circ> g"]) simp_all
  qed
qed

lemma update_profile_frame:
  assumes "update_profile_fields db rid name descr = Inr (b, db')" and "distinct (map prof_id (t_profiles db))"
    and "distinct (map prof_name (t_profiles db))"
  obtains g where "db' = db\<lparr>t_profiles := map g (t_profiles db)\<rparr>"
    and "\<And>p. prof_id (g p) = prof_id p \<and> prof_builtin (g p) = prof_builtin p"
    and "\<And>p. prof_id p \<noteq> rid \<Longrightarrow> g p = p"
    and "distinct (map prof_name (map g (t_profiles db)))"
proof (cases "name = None \<and> descr = None")
  case True
  with assms show ?thesis by (intro that [where g = id]) (simp_all add: update_profile_fields_def)
next
  case False
  let ?g = "\<lambda>p. if prof_id p = rid
             then p\<lparr>prof_name := (case name of Some n \<Rightarrow> n | None \<Rightarrow> prof_name p),
                    prof_description := (case descr of Some d \<Rightarrow> d | None \<Rightarrow> prof_description p)\<rparr>
             else p"
  have g: "db' = db\<lparr>t_profiles := map ?g (t_profiles db)\<rparr>"
    and uniq: "\<And>p q. p \<in> set (t_profiles db) \<Longrightarrow> q \<in> set (t_profiles db) \<Longrightarrow> prof_id q = rid \<Longrightarrow>
           prof_id p \<noteq> rid \<Longrightarrow> name \<noteq> Some (prof_name p)"
    using assms(1) False by (auto simp: update_profile_fields_def split: if_splits)
  have "distinct (map prof_name (map ?g (t_profiles db)))"
  proof (rule distinct_map_update [OF assms(3,2)])
    fix p q assume *: "p \<in> set (t_profiles db)" "q \<in> set (t_profiles db)" "prof_id p = rid" "prof_id q \<noteq> rid"
    with assms(3) have "prof_name p \<noteq> prof_name q" by (auto simp: distinct_map inj_on_def)
    with * uniq [of q p] show "prof_name (?g p) \<noteq> prof_name q" by (cases name) auto
  qed simp
  with g show ?thesis by (intro that [where g = ?g]) simp_all
qed

lemma update_blocklist_frame:
  assumes "update_blocklist_row db rid name url enabled cron = Inr db'"
  obtains g where "db' = db\<lparr>t_blocklists := map g (t_blocklists db)\<rparr>"
    and "\<And>b. bl_id (g b) = bl_id b \<and> bl_profile_id (g b) = bl_profile_id b"
    and "\<And>b. bl_url (g b) = bl_url b \<or> url = Some (bl_url (g b))"
    and "\<And>b. bl_cron_schedule (g b) = bl_cron_schedule b \<or> cron = Some (bl_cron_schedule (g b))"
proof (cases "get_blocklist db rid")
  case None
  with assms show ?thesis by (intro that [where g = id]) (simp_all add: update_blocklist_row_def)
next
  case (Some old)
  let ?g = "\<lambda>b. if bl_id b = rid
             then (let b1 = b\<lparr>bl_name := (case name of Some n \<Rightarrow> n | None \<Rightarrow> bl_name b),
                              bl_enabled := (case enabled of Some e \<Rightarrow> e | None \<Rightarrow> bl_enabled b),
                              bl_cron_schedule := (case cron of Some c \<Rightarrow> c | None \<Rightarrow> bl_cron_schedule b)\<rparr>
                   in case url of
                        None \<Rightarrow> b1
                      | Some u \<Rightarrow> b1\<lparr>bl_url := u, bl_consecutive_failures := 0, bl_last_error := None,
                                      bl_last_error_at := None\<rparr>)
             else b"
  from Some assms have "db' = db\<lparr>t_blocklists := map ?g (t_blocklists db)\<rparr>"
    by (auto simp: update_blocklist_row_def split: if_splits)
  then show ?thesis
    by (intro that [where g = ?g]) (simp_all add: Let_def split: option.splits)
qed

lemma update_rule_frame:
  obtains g where "update_custom_rule_row db rid rule enabled comment = db\<lparr>t_custom_rules := map g (t_custom_rules db)\<rparr>"
    and "\<And>r. cr_id (g r) = cr_id r \<and> cr_profile_id (g r) = cr_profile_id r"
    and "\<And>r. cr_rule_text (g r) = cr_rule_text r \<or> rule = Some (cr_rule_text (g r))"
  by (rule that [OF update_custom_rule_row_def]) (auto split: option.splits)

lemma keys_ok_write: "db_write L A db db' \<Longrightarrow> keys_ok db \<Longrightarrow> keys_ok db'"
proof (induction rule: db_write.induct)
  case (w_update_profile db rid p name descr b db')
  then have d: "distinct (map prof_id (t_profiles db))" "distinct (map prof_name (t_profiles db))"
    by (simp_all add: keys_ok_def)
  obtain g where "db' = db\<lparr>t_profiles := map g (t_profiles db)\<rparr>" "\<And>p. prof_id (g p) = prof_id p"
      "distinct (map prof_name (map g (t_profiles db)))"
    using update_profile_frame [OF w_update_profile.hyps(3) d] by metis
  with w_update_profile.prems show ?case by (simp add: keys_ok_def comp_def)
next
  case (w_delete_profile db rid db')
  obtain rows where "db' = cascade_profile (db\<lparr>t_blocked_domains := rows\<rparr>) rid"
    using delete_profile_row_frame [OF w_delete_profile.hyps] by blast
  with w_delete_profile.prems show ?case
    by (simp add: keys_ok_def cascade_profile_def Let_def distinct_map_filter)
next
  case (w_update_blocklist url' cron' db rid name' enabled' db')
  obtain g where "db' = db\<lparr>t_blocklists := map g (t_blocklists db)\<rparr>" "\<And>b. bl_id (g b) = bl_id b"
    using update_blocklist_frame [OF w_update_blocklist.hyps(3)] by metis
  with w_update_blocklist.prems show ?case by (simp add: keys_ok_def comp_def)
next
  case (w_delete_blocklist db rid db')
  with delete_blocklist_row_frame [OF w_delete_blocklist.hyps] show ?case
    by (simp add: keys_ok_def distinct_map_filter)
next
  case (w_refresh fetch now bl db r db' evs)
  obtain rows g where "db' = db\<lparr>t_blocked_domains := rows, t_blocklists := map g (t_blocklists db)\<rparr>"
      "\<And>b. bl_id (g b) = bl_id b"
    using refresh_frame [OF w_refresh.hyps] by metis
  with w_refresh.prems show ?case by (simp add: keys_ok_def comp_def)
next
  case (w_upsert db did enabled db')
  have "fst \<circ> (\<lambda>(d, e). if d = did then (d, enabled) else (d, e)) = fst"
    by auto
  with w_upsert show ?case
    by (auto simp: keys_ok_def upsert_device_settings_def split: if_splits)
next
  case (w_assign db did pids db')
  have "distinct (map (\<lambda>p. (did, p)) pids)" if "distinct pids"
    using that by (simp add: distinct_map inj_on_def)
  with w_assign show ?case by (auto simp: keys_ok_def set_device_profiles_def split: if_splits)
next
  case (w_update_rule text' db rid enabled' comment)
  obtain g where "update_custom_rule_row db rid text' enabled' comment = db\<lparr>t_custom_rules := map g (t_custom_rules db)\<rparr>"
      "\<And>r. cr_id (g r) = cr_id r" using update_rule_frame by metis
  with w_update_rule.prems show ?case by (simp add: keys_ok_def comp_def)
next
  case (w_create_profile db rid name descr db')
  then show ?case by (auto simp: keys_ok_def create_profile_row_def split: if_splits)
next
  case (w_create_blocklist url cron db rid pid name enabled db')
  then show ?case by (auto simp: keys_ok_def create_blocklist_row_def split: if_splits)
next
  case (w_create_allowlist domain db rid pid reason db')
  then show ?case by (auto simp: keys_ok_def create_allowlist_row_def split: if_splits)
next
  case (w_delete_allowlist db rid db')
  then show ?case by (auto simp: keys_ok_def delete_allowlist_row_def distinct_map_filter)
next
  case (w_create_rule rule_text db rid pid enabled comment db')
  then show ?case by (auto simp: keys_ok_def create_custom_rule_row_def split: if_splits)
next
  case (w_delete_rule db rid db')
  then show ?case by (auto simp: keys_ok_def delete_custom_rule_row_def distinct_map_filter)
next
  case (w_config db cfg db')
  then show ?case by (auto simp: keys_ok_def set_dns_filter_config_def split: if_splits)
qed

lemma image_filter_key: "f ` set (filter (\<lambda>x. f x \<noteq> k) xs) = f ` set xs - {k}"
  by auto

lemma refs_okD:
  assumes "refs_ok db"
  shows "bl_profile_id ` set (t_blocklists db) \<subseteq> prof_id ` set (t_profiles db)"
    and "al_profile_id ` set (t_allowlist db) \<subseteq> prof_id ` set (t_profiles db)"
    and "cr_profile_id ` set (t_custom_rules db) \<subseteq> prof_id ` set (t_profiles db)"
    and "snd ` set (t_device_profile db) \<subseteq> prof_id ` set (t_profiles db)"
    and "set (t_default_profile db) \<subseteq> prof_id ` set (t_profiles db)"
    and "fst ` set (t_device_profile db) \<subseteq> fst ` set (t_devices db)"
    and "fst ` set (t_device_settings db) \<subseteq> fst ` set (t_devices db)"
    and "(fst \<circ> snd) ` set (t_blocked_domains db) \<subseteq> bl_id ` set (t_blocklists db)"
  using assms by (simp_all add: refs_ok_def)

lemma cascade_sel:
  "t_profiles (cascade_profile db pid) = filter (\<lambda>p. prof_id p \<noteq> pid) (t_profiles db)"
  "t_blocklists (cascade_profile db pid) = filter (\<lambda>b. bl_profile_id b \<noteq> pid) (t_blocklists db)"
  "t_blocked_domains (cascade_profile db pid) =
     filter (\<lambda>(d, b, g). b \<notin> bl_id ` set (list_blocklists db pid)) (t_blocked_domains db)"
  "t_allowlist (cascade_profile db pid) = filter (\<lambda>a. al_profile_id a \<noteq> pid) (t_allowlist db)"
  "t_custom_rules (cascade_profile db pid) = filter (\<lambda>r. cr_profile_id r \<noteq> pid) (t_custom_rules db)"
  "t_device_profile (cascade_profile db pid) = filter (\<lambda>(d, p). p \<noteq> pid) (t_device_profile db)"
  "t_default_profile (cascade_profile db pid) = filter (\<lambda>p. p \<noteq> pid) (t_default_profile db)"
  "t_devices (cascade_profile db pid) = t_devices db"
  "t_device_settings (cascade_profile db pid) = t_device_settings db"
  by (simp_all add: cascade_profile_def Let_def)

lemma refs_ok_cascade:
  assumes "refs_ok db"
  shows "refs_ok (cascade_profile db pid)"
proof -
  note A = refs_okD [OF assms]
  have "snd ` set (filter (\<lambda>(d, p). p \<noteq> pid) (t_device_profile db)) = snd ` set (t_device_profile db) - {pid}"
    by force
  moreover have "fst ` set (filter (\<lambda>(d, p). p \<noteq> pid) (t_device_profile db)) \<subseteq> fst ` set (t_devices db)"
    using A(6) by auto
  moreover have "set (filter (\<lambda>p. p \<noteq> pid) (t_default_profile db)) = set (t_default_profile db) - {pid}" by auto
  moreover have "(fst \<circ> snd) ` set (filter (\<lambda>(d, b, g). b \<notin> bl_id ` set (list_blocklists db pid)) (t_blocked_domains db))
      \<subseteq> bl_id ` set (filter (\<lambda>b. bl_profile_id b \<noteq> pid) (t_blocklists db))"
    using A(8) by (fastforce simp: list_blocklists_def)
  ultimately show ?thesis
    using A(1-5,7) unfolding refs_ok_def cascade_sel image_filter_key by (metis Diff_mono order_refl)
qed

lemma refs_ok_write: "db_write L A db db' \<Longrightarrow> refs_ok db \<Longrightarrow> keys_ok db \<Longrightarrow> refs_ok db'"
proof (induction rule: db_write.induct)
  case (w_update_profile db rid p name descr b db')
  then have d: "distinct (map prof_id (t_profiles db))" "distinct (map prof_name (t_profiles db))"
    by (simp_all add: keys_ok_def)
  obtain g where g: "db' = db\<lparr>t_profiles := map g (t_profiles db)\<rparr>" "\<And>p. prof_id (g p) = prof_id p"
    using update_profile_frame [OF w_update_profile.hyps(3) d] by metis
  have "prof_id ` set (map g xs) = prof_id ` set xs" for xs using g(2) by (simp add: image_image)
  with w_update_profile.prems g show ?case by (simp add: refs_ok_def)
next
  case (w_delete_profile db rid db')
  obtain rows where rows: "db' = cascade_profile (db\<lparr>t_blocked_domains := rows\<rparr>) rid" "set rows \<subseteq> set (t_blocked_domains db)"
    using delete_profile_row_frame [OF w_delete_profile.hyps] by blast
  have "(fst \<circ> snd) ` set rows \<subseteq> (fst \<circ> snd) ` set (t_blocked_domains db)" using rows(2) by (rule image_mono)
  also have "\<dots> \<subseteq> bl_id ` set (t_blocklists db)" using w_delete_profile.prems(1) by (simp add: refs_ok_def)
  finally have "refs_ok (db\<lparr>t_blocked_domains := rows\<rparr>)" using w_delete_profile.prems(1) by (simp add: refs_ok_def)
  then show ?case unfolding rows(1) by (rule refs_ok_cascade)
next
  case (w_update_blocklist url' cron' db rid name' enabled' db')
  obtain g where g: "db' = db\<lparr>t_blocklists := map g (t_blocklists db)\<rparr>"
      "\<And>b. bl_id (g b) = bl_id b" "\<And>b. bl_profile_id (g b) = bl_profile_id b"
    using update_blocklist_frame [OF w_update_blocklist.hyps(3)] by metis
  with w_update_blocklist.prems show ?case by (simp add: refs_ok_def image_image)
next
  case (w_delete_blocklist db rid db')
  note A = refs_okD [OF w_delete_blocklist.prems(1)]
  have "(fst \<circ> snd) ` set (filter (\<lambda>(d, b, g). b \<noteq> rid) (t_blocked_domains db)) =
      (fst \<circ> snd) ` set (t_blocked_domains db) - {rid}" by force
  moreover have "bl_profile_id ` set (filter (\<lambda>b. bl_id b \<noteq> rid) (t_blocklists db)) \<subseteq> prof_id ` set (t_profiles db)"
    using A(1) by auto
  ultimately show ?case
    using A(2-8) unfolding delete_blocklist_row_frame [OF w_delete_blocklist.hyps] refs_ok_def
    by (simp add: image_filter_key Diff_mono del: set_filter)
next
  case (w_refresh fetch now bl db r db' evs)
  note A = refs_okD [OF w_refresh.prems(1)]
  obtain rows g where f: "db' = db\<lparr>t_blocked_domains := rows, t_blocklists := map g (t_blocklists db)\<rparr>"
      "\<And>b. bl_id (g b) = bl_id b" "\<And>b. bl_profile_id (g b) = bl_profile_id b"
      "(fst \<circ> snd) ` set rows \<subseteq> (fst \<circ> snd) ` set (t_blocked_domains db) \<union> bl_id ` set (t_blocklists db)"
    using refresh_frame [OF w_refresh.hyps] by metis
  have "(fst \<circ> snd) ` set rows \<subseteq> bl_id ` set (t_blocklists db)" using f(4) A(8) by blast
  with A f show ?case by (simp add: refs_ok_def image_image)
next
  case (w_upsert db did enabled db')
  note A = refs_okD [OF w_upsert.prems(1)]
  have e: "fst ` set (map (\<lambda>(d, e). if d = did then (d, enabled) else (d, e)) xs) = fst ` set xs" for xs
    by force
  define rows where "rows = (if did \<in> fst ` set (t_device_settings db)
      then map (\<lambda>(d, e). if d = did then (d, enabled) else (d, e)) (t_device_settings db)
      else t_device_settings db @ [(did, enabled)])"
  have "did \<in> fst ` set (t_devices db)" "db' = db\<lparr>t_device_settings := rows\<rparr>"
    using w_upsert.hyps unfolding rows_def by (auto simp: upsert_device_settings_def split: if_split_asm)
  moreover have "fst ` set rows \<subseteq> insert did (fst ` set (t_device_settings db))"
    unfolding rows_def using e by (simp add: subset_insertI)
  ultimately have "fst ` set rows \<subseteq> fst ` set (t_devices db)" "db' = db\<lparr>t_device_settings := rows\<rparr>"
    using A(7) by blast+
  with A show ?case by (simp add: refs_ok_def)
next
  case (w_assign db did pids db')
  note A = refs_okD [OF w_assign.prems(1)]
  let ?rows = "filter (\<lambda>(d, p). d \<noteq> did) (t_device_profile db) @ map (\<lambda>p. (did, p)) pids"
  from w_assign.hyps have h: "db' = db\<lparr>t_device_profile := ?rows\<rparr>"
    "pids \<noteq> [] \<longrightarrow> did \<in> fst ` set (t_devices db) \<and> set pids \<subseteq> prof_id ` set (t_profiles db)"
    by (auto simp: set_device_profiles_def split: if_split_asm)
  have r: "snd ` set ?rows \<subseteq> snd ` set (t_device_profile db) \<union> set pids"
    "fst ` set ?rows \<subseteq> fst ` set (t_device_profile db) \<union> (if pids = [] then {} else {did})" by auto
  have "snd ` set ?rows \<subseteq> prof_id ` set (t_profiles db)" "fst ` set ?rows \<subseteq> fst ` set (t_devices db)"
    using order_trans [OF r(1)] order_trans [OF r(2)] A(4,6) h(2) by (cases "pids = []"; simp)+
  with A show ?case unfolding h(1) by (simp add: refs_ok_def)
next
  case (w_update_rule text' db rid enabled' comment)
  obtain g where "update_custom_rule_row db rid text' enabled' comment = db\<lparr>t_custom_rules := map g (t_custom_rules db)\<rparr>"
      "\<And>r. cr_profile_id (g r) = cr_profile_id r" using update_rule_frame by metis
  with refs_okD [OF w_update_rule.prems(1)] show ?case by (simp add: refs_ok_def image_image)
next
  case (w_create_profile db rid name descr db')
  with refs_okD [OF w_create_profile.prems(1)] show ?case
    by (clarsimp simp: refs_ok_def create_profile_row_def subset_insertI2 split: if_splits)
next
  case (w_create_blocklist url cron db rid pid name enabled db')
  with refs_okD [OF w_create_blocklist.prems(1)] show ?case
    by (clarsimp simp: refs_ok_def create_blocklist_row_def subset_insertI2 split: if_splits)
next
  case (w_create_allowlist domain db rid pid reason db')
  with refs_okD [OF w_create_allowlist.prems(1)] show ?case
    by (clarsimp simp: refs_ok_def create_allowlist_row_def split: if_splits)
next
  case (w_delete_allowlist db rid db')
  note A = refs_okD [OF w_delete_allowlist.prems(1)]
  have "al_profile_id ` set (filter (\<lambda>a. al_id a \<noteq> rid) (t_allowlist db)) \<subseteq> prof_id ` set (t_profiles db)"
    using A(2) by auto
  with w_delete_allowlist.hyps A show ?case by (clarsimp simp: refs_ok_def delete_allowlist_row_def simp del: set_filter)
next
  case (w_create_rule rule_text db rid pid enabled comment db')
  with refs_okD [OF w_create_rule.prems(1)] show ?case
    by (clarsimp simp: refs_ok_def create_custom_rule_row_def split: if_splits)
next
  case (w_delete_rule db rid db')
  note A = refs_okD [OF w_delete_rule.prems(1)]
  have "cr_profile_id ` set (filter (\<lambda>a. cr_id a \<noteq> rid) (t_custom_rules db)) \<subseteq> prof_id ` set (t_profiles db)"
    using A(3) by auto
  with w_delete_rule.hyps A show ?case by (clarsimp simp: refs_ok_def delete_custom_rule_row_def simp del: set_filter)
next
  case (w_config db cfg db')
  with refs_okD [OF w_config.prems(1)] show ?case
    by (clarsimp simp: refs_ok_def set_dns_filter_config_def split: if_splits)
qed

lemma validate_optD: "validate_opt f x = Inr () \<Longrightarrow> x = Some y \<Longrightarrow> f y = Inr ()"
  by simp

lemma texts_ok_write: "db_write L A db db' \<Longrightarrow> texts_ok L A db \<Longrightarrow> keys_ok db \<Longrightarrow> texts_ok L A db'"
proof (induction rule: db_write.induct)
  case (w_update_profile db rid p name descr b db')
  then have d: "distinct (map prof_id (t_profiles db))" "distinct (map prof_name (t_profiles db))"
    by (simp_all add: keys_ok_def)
  obtain g where "db' = db\<lparr>t_profiles := map g (t_profiles db)\<rparr>"
    using update_profile_frame [OF w_update_profile.hyps(3) d] by metis
  with w_update_profile.prems show ?case by (simp add: texts_ok_def)
next
  case (w_delete_profile db rid db')
  obtain rows where "db' = cascade_profile (db\<lparr>t_blocked_domains := rows\<rparr>) rid"
    using delete_profile_row_frame [OF w_delete_profile.hyps] by blast
  with w_delete_profile.prems show ?case by (simp add: texts_ok_def cascade_sel)
next
  case (w_update_blocklist url' cron' db rid name' enabled' db')
  obtain g where g: "db' = db\<lparr>t_blocklists := map g (t_blocklists db)\<rparr>"
      "\<And>b. bl_url (g b) = bl_url b \<or> url' = Some (bl_url (g b))"
      "\<And>b. bl_cron_schedule (g b) = bl_cron_schedule b \<or> cron' = Some (bl_cron_schedule (g b))"
    using update_blocklist_frame [OF w_update_blocklist.hyps(3)] by metis
  have "validate_url (bl_url (g b)) = Inr () \<and> validate_cron A (bl_cron_schedule (g b)) = Inr ()"
    if "b \<in> set (t_blocklists db)" for b
    using that g(2,3) [of b] w_update_blocklist.hyps(1,2) w_update_blocklist.prems(1)
    unfolding texts_ok_def by (metis validate_optD)
  with w_update_blocklist.prems(1) g(1) show ?case by (simp add: texts_ok_def)
next
  case (w_delete_blocklist db rid db')
  with delete_blocklist_row_frame [OF w_delete_blocklist.hyps] show ?case by (simp add: texts_ok_def)
next
  case (w_refresh fetch now bl db r db' evs)
  obtain rows g where "db' = db\<lparr>t_blocked_domains := rows, t_blocklists := map g (t_blocklists db)\<rparr>"
      "\<And>b. bl_url (g b) = bl_url b" "\<And>b. bl_cron_schedule (g b) = bl_cron_schedule b"
    using refresh_frame [OF w_refresh.hyps] by metis
  with w_refresh.prems(1) show ?case by (simp add: texts_ok_def)
next
  case (w_update_rule text' db rid enabled' comment)
  obtain g where g: "update_custom_rule_row db rid text' enabled' comment = db\<lparr>t_custom_rules := map g (t_custom_rules db)\<rparr>"
      "\<And>r. cr_rule_text (g r) = cr_rule_text r \<or> text' = Some (cr_rule_text (g r))"
    using update_rule_frame by metis
  have "validate_rule_text L (cr_rule_text (g r)) = Inr ()" if "r \<in> set (t_custom_rules db)" for r
    using that g(2) [of r] w_update_rule.hyps w_update_rule.prems(1) unfolding texts_ok_def by (metis validate_optD)
  with w_update_rule.prems(1) g(1) show ?case by (simp add: texts_ok_def)
next
  case (w_create_profile db rid name descr db')
  then show ?case by (clarsimp simp: texts_ok_def create_profile_row_def split: if_splits)
next
  case (w_create_blocklist url cron db rid pid name enabled db')
  then show ?case by (clarsimp simp: texts_ok_def create_blocklist_row_def split: if_splits)
next
  case (w_create_allowlist domain db rid pid reason db')
  then show ?case by (clarsimp simp: texts_ok_def create_allowlist_row_def split: if_splits)
next
  case (w_delete_allowlist db rid db')
  then show ?case by (clarsimp simp: texts_ok_def delete_allowlist_row_def)
next
  case (w_create_rule rule_text db rid pid enabled comment db')
  then show ?case by (clarsimp simp: texts_ok_def create_custom_rule_row_def split: if_splits)
next
  case (w_delete_rule db rid db')
  then show ?case by (clarsimp simp: texts_ok_def delete_custom_rule_row_def)
next
  case (w_upsert db did enabled db')
  then show ?case by (clarsimp simp: texts_ok_def upsert_device_settings_def split: if_split_asm)
next
  case (w_assign db did pids db')
  then show ?case by (clarsimp simp: texts_ok_def set_device_profiles_def split: if_split_asm)
next
  case (w_config db cfg db')
  then show ?case by (clarsimp simp: texts_ok_def set_dns_filter_config_def split: if_split_asm)
qed

lemma distinct_key_eq: "distinct (map k xs) \<Longrightarrow> x \<in> set xs \<Longrightarrow> y \<in> set xs \<Longrightarrow> k x = k y \<Longrightarrow> x = y"
  by (auto simp: distinct_map dest: inj_onD)

lemma get_profile_SomeD: "get_profile db rid = Some p \<Longrightarrow> p \<in> set (t_profiles db) \<and> prof_id p = rid"
  by (auto simp: get_profile_def find_Some_iff)

lemma builtins_write: "db_write L A db db' \<Longrightarrow> keys_ok db \<Longrightarrow> builtins db' = builtins db"
proof (induction rule: db_write.induct)
  case (w_update_profile db rid p name descr b db')
  then have d: "distinct (map prof_id (t_profiles db))" "distinct (map prof_name (t_profiles db))"
    by (simp_all add: keys_ok_def)
  obtain g where g: "db' = db\<lparr>t_profiles := map g (t_profiles db)\<rparr>" "\<And>p. prof_builtin (g p) = prof_builtin p"
      "\<And>p. prof_id p \<noteq> rid \<Longrightarrow> g p = p"
    using update_profile_frame [OF w_update_profile.hyps(3) d] by metis
  have other: "prof_id q \<noteq> rid" if "q \<in> set (t_profiles db)" "prof_builtin q" for q
    using that get_profile_SomeD [OF w_update_profile.hyps(1)] w_update_profile.hyps(2) distinct_key_eq [OF d(1), of q p] by auto
  have "map g (filter prof_builtin (t_profiles db)) = filter prof_builtin (t_profiles db)"
    using other g(3) by (intro map_idI) simp
  then show ?case by (simp add: builtins_def g(1,2) filter_map comp_def)
next
  case (w_delete_profile db rid db')
  obtain rows p where d: "db' = cascade_profile (db\<lparr>t_blocked_domains := rows\<rparr>) rid"
      "p \<in> set (t_profiles db)" "prof_id p = rid" "\<not> prof_builtin p"
    using delete_profile_row_frame [OF w_delete_profile.hyps] by blast
  have "prof_id q \<noteq> rid" if "q \<in> set (t_profiles db)" "prof_builtin q" for q
    using that d distinct_key_eq [of prof_id "t_profiles db" q p] w_delete_profile.prems by (auto simp: keys_ok_def)
  then have "filter (\<lambda>p. prof_builtin p \<and> prof_id p \<noteq> rid) (t_profiles db) = filter prof_builtin (t_profiles db)"
    by (intro filter_cong) auto
  then show ?case by (simp add: builtins_def d(1) cascade_sel conj_commute)
next
  case (w_update_blocklist url' cron' db rid name' enabled' db')
  obtain g where "db' = db\<lparr>t_blocklists := map g (t_blocklists db)\<rparr>"
    using update_blocklist_frame [OF w_update_blocklist.hyps(3)] by metis
  then show ?case by (simp add: builtins_def)
next
  case (w_delete_blocklist db rid db')
  with delete_blocklist_row_frame [OF w_delete_blocklist.hyps] show ?case by (simp add: builtins_def)
next
  case (w_refresh fetch now bl db r db' evs)
  obtain rows g where "db' = db\<lparr>t_blocked_domains := rows, t_blocklists := map g (t_blocklists db)\<rparr>"
    using refresh_frame [OF w_refresh.hyps] by metis
  then show ?case by (simp add: builtins_def)
qed (clarsimp simp: builtins_def create_profile_row_def create_blocklist_row_def create_allowlist_row_def
       delete_allowlist_row_def create_custom_rule_row_def delete_custom_rule_row_def update_custom_rule_row_def
       upsert_device_settings_def set_device_profiles_def set_dns_filter_config_def split: if_split_asm)+

section \<open>Properties of the running system\<close>

definition db_wf :: "('r, 'q, 'n) parser_lib \<Rightarrow> 'u admin_lib \<Rightarrow> 'u filter_db \<Rightarrow> bool" where
  "db_wf L A db \<longleftrightarrow> keys_ok db \<and> refs_ok db \<and> texts_ok L A db"

lemma filter_step_writes:
  assumes "filter_step L A S S'"
  shows "(db_write L A)\<^sup>*\<^sup>* (fs_db S) (fs_db S')"
  using assms
proof (cases rule: filter_step.cases)
  case (request auth op)
  then show ?thesis using run_op_writes by simp
next
  case (refresh fetch now bl r db evs)
  then show ?thesis by (auto intro: written w_refresh)
qed

lemma writes_invariant:
  "(db_write L A)\<^sup>*\<^sup>* db db' \<Longrightarrow> db_wf L A db \<Longrightarrow> db_wf L A db' \<and> builtins db' = builtins db"
proof (induction rule: rtranclp_induct)
  case (step y z)
  then show ?case
    by (auto simp: db_wf_def intro: keys_ok_write refs_ok_write texts_ok_write builtins_write [THEN trans])
qed simp

lemma steps_writes: "(filter_step L A)\<^sup>*\<^sup>* S S' \<Longrightarrow> (db_write L A)\<^sup>*\<^sup>* (fs_db S) (fs_db S')"
  by (induction rule: rtranclp_induct) (auto dest: filter_step_writes)


definition ex_admin_lib :: "nat admin_lib" where
  "ex_admin_lib = \<lparr>uuid_str = show_nat, cron_from_str = (\<lambda>_. Inr ())\<rparr>"

definition ex_sys :: "(nat, string, string, ip_addr) filter_sys" where
  "ex_sys = \<lparr>fs_db = ex_filter_db, fs_svc = ex_svc, fs_managed = {}\<rparr>"

lemma ex_rule_valid: "validate_rule_text ex_parser_lib ''||ads.com^'' = Inr ()"
proof -
  have "plain_domain ''ads.com''" by code_simp
  from parse_adblock_line [OF this, of ex_parser_lib] show ?thesis by (simp add: validate_rule_text_def)
qed

lemma ex_db_wf: "db_wf ex_parser_lib ex_admin_lib ex_filter_db"
  using ex_rule_valid by (simp add: db_wf_def keys_ok_def refs_ok_def texts_ok_def ex_filter_db_def)


text \<open>
  Only admins change the filter. A request of a caller without the admin role is answered
  with the guard's error by every handler and leaves the tables, the compiled filters, the event
  bus and the devices as they were.
\<close>

theorem non_admin_changes_nothing:
  assumes "require_admin auth = Inl e"
  shows "run_op L A auth op S = (Inl e, S)"
  by (cases op) (simp_all add: assms attempt_def discard_def create_profile_def update_profile_def delete_profile_def
      create_blocklist_def update_blocklist_def delete_blocklist_def create_allowlist_entry_def
      delete_allowlist_entry_def create_custom_rule_def update_custom_rule_def delete_custom_rule_def
      update_device_settings_def update_filter_config_def)

theorem non_admin_changes_nothing_witness:
  "run_op ex_parser_lib ex_admin_lib (Some (User (0::nat) MemberRole)) (DeleteProfile 5) ex_sys =
     (Inl (Forbidden ''admin privileges required''), ex_sys)"
  by (rule non_admin_changes_nothing) (simp add: require_admin_def)

text \<open>Rows a handler reads back after its own write are there.\<close>

lemma find_map_id:
  "(\<And>x. k (g x) = k x) \<Longrightarrow> find (\<lambda>x. k x = r) (map g xs) = map_option g (find (\<lambda>x. k x = r) xs)"
  by (induction xs) auto

lemma find_snoc: "P y \<Longrightarrow> \<exists>z. find P (xs @ [y]) = Some z"
  by (induction xs) auto

lemma read_back:
  "create_blocklist_row db rid pid name url en cron = Inr db' \<Longrightarrow> get_blocklist db' rid \<noteq> None"
  "create_allowlist_row db rid pid domain reason = Inr db2 \<Longrightarrow> find (\<lambda>e. al_id e = rid) (list_allowlist db2 pid) \<noteq> None"
  "create_custom_rule_row db rid pid rule en comment = Inr db3 \<Longrightarrow> get_custom_rule db3 rid \<noteq> None"
  by (auto simp: create_blocklist_row_def get_blocklist_def create_allowlist_row_def list_allowlist_def
      create_custom_rule_row_def get_custom_rule_def find_snoc split: if_splits)

lemma read_back_update:
  assumes "get_blocklist db rid = Some bl" and "update_blocklist_row db rid name url en cron = Inr db'"
  shows "get_blocklist db' rid \<noteq> None"
proof -
  obtain g where "db' = db\<lparr>t_blocklists := map g (t_blocklists db)\<rparr>" "\<And>b. bl_id (g b) = bl_id b"
    using update_blocklist_frame [OF assms(2)] by metis
  with assms(1) show ?thesis by (simp add: get_blocklist_def find_map_id)
qed

lemma read_back_rule:
  assumes "get_custom_rule db rid = Some r"
  shows "get_custom_rule (update_custom_rule_row db rid rule en comment) rid \<noteq> None"
proof -
  obtain g where "update_custom_rule_row db rid rule en comment = db\<lparr>t_custom_rules := map g (t_custom_rules db)\<rparr>"
      "\<And>b. cr_id (g b) = cr_id b"
    using update_rule_frame by metis
  with assms show ?thesis by (simp add: get_custom_rule_def find_map_id)
qed

lemma ensure_all_exist_Inr:
  "ensure_all_exist A db pids = Inr () \<longleftrightarrow> set pids \<subseteq> prof_id ` set (t_profiles db)"
proof (induction pids)
  case (Cons p pids)
  have "get_profile db p \<noteq> None \<longleftrightarrow> p \<in> prof_id ` set (t_profiles db)"
    by (auto simp: get_profile_def find_None_iff)
  with Cons show ?case
    by (cases "get_profile db p") (auto simp: ensure_profile_exists_def ok_or_def)
qed simp

lemma discard_failed: "discard r = (Inl e, S') \<longleftrightarrow> r = (Inl e, S')"
  by (cases r; cases "fst r") (auto simp: discard_def)



lemma map_of_update_key:
  "did \<in> fst ` set xs \<Longrightarrow> map_of (map (\<lambda>(d, e). if d = did then (d, v) else (d, e)) xs) did = Some v"
proof (induction xs)
  case (Cons x xs)
  then show ?case by (cases x; cases "fst x = did") simp_all
qed simp

lemma upsert_lookup:
  assumes "upsert_device_settings db did en = Inr db'"
  shows "map_of (t_device_settings db') did = Some en"
proof (cases "did \<in> fst ` set (t_device_settings db)")
  case True
  with assms have "db' = db\<lparr>t_device_settings := map (\<lambda>(d, e). if d = did then (d, en) else (d, e)) (t_device_settings db)\<rparr>"
    by (simp add: upsert_device_settings_def split: if_split_asm)
  with True show ?thesis by (simp add: map_of_update_key)
next
  case False
  with assms have "db' = db\<lparr>t_device_settings := t_device_settings db @ [(did, en)]\<rparr>"
    by (simp add: upsert_device_settings_def split: if_split_asm)
  moreover have "map_of (t_device_settings db) did = None" using False by (simp add: map_of_eq_None_iff)
  ultimately show ?thesis by (simp add: map_add_def)
qed

text \<open>
  Assigning the same profile twice to a device is half applied. The request is answered with
  an internal error, but the device's filtering switch has already been stored; no event is
  published, so the running filter does not follow, and the device is not marked managed although
  it now carries a settings row.
\<close>

theorem duplicate_assignment_half_applied:
  assumes "require_admin auth = Inr ()" and "did \<in> fst ` set (t_devices (fs_db S))"
    and "set pids \<subseteq> prof_id ` set (t_profiles (fs_db S))" and "\<not> distinct pids"
  shows "\<exists>msg S'. run_op L A auth (UpdateDeviceSettings did en pids) S = (Inl (Internal msg), S') \<and>
    map_of (t_device_settings (fs_db S')) did = Some en \<and>
    fs_svc S' = fs_svc S \<and> fs_managed S' = fs_managed S"
proof -
  obtain db1 where db1: "upsert_device_settings (fs_db S) did en = Inr db1"
    using assms(2) by (cases "upsert_device_settings (fs_db S) did en") (simp_all add: upsert_device_settings_def)
  note m = upsert_lookup [OF db1]
  have sp: "set_device_profiles db1 did pids = Inl ''UNIQUE constraint failed''"
    using assms(4) by (simp add: set_device_profiles_def)
  have en: "ensure_all_exist A (fs_db S) pids = Inr ()" using assms(3) by (simp add: ensure_all_exist_Inr)
  have "run_op L A auth (UpdateDeviceSettings did en pids) S =
      (Inl (Internal ''UNIQUE constraint failed''), S\<lparr>fs_db := db1\<rparr>)"
    unfolding run_op.simps update_device_settings_def assms(1) by (simp add: attempt_def internal_def discard_def db1 sp en)
  with m show ?thesis by simp
qed

theorem duplicate_assignment_half_applied_witness:
  "\<exists>msg S'. run_op ex_parser_lib ex_admin_lib ex_admin (UpdateDeviceSettings 9 False [5, 5]) ex_sys = (Inl (Internal msg), S') \<and>
     map_of (t_device_settings (fs_db S')) 9 = Some False \<and> map_of (t_device_settings (fs_db ex_sys)) 9 = Some True"
  using duplicate_assignment_half_applied [of ex_admin 9 ex_sys "[5, 5]" ex_parser_lib ex_admin_lib False] ex_admin_ok
  by (auto simp: ex_sys_def ex_filter_db_def)

end
