(* ===== verification/Dns_Cache.thy ===== *)
theory Dns_Cache
  imports Domain_Names "HOL-Library.Word" "HOL-Library.Mapping"
begin

text \<open>
  The response cache (\<open>wardnetd-services/src/dns/cache.rs\<close>). A cache is a hash map with a
  queue of insertion slots; time is an argument in nanoseconds; the record type is the type
  variable \<open>'q\<close> and a tunnel id the type variable \<open>'u\<close>. Sequence numbers and buffer offsets are
  unbounded: 2 ^ 64 inserts and buffers of 2 ^ 63 bytes are out of reach.
\<close>

section \<open>Ageing the TTLs of a wire-format response\<close>

type_synonym bytes = "8 word list"

definition buf_get :: "bytes \<Rightarrow> nat \<Rightarrow> nat option" where
  "buf_get buf i = (if i < length buf then Some (unat (buf ! i)) else None)"

definition be16_at :: "bytes \<Rightarrow> nat \<Rightarrow> nat option" where
  "be16_at buf i =
     (case (buf_get buf i, buf_get buf (i + 1)) of (Some a, Some b) \<Rightarrow> Some (256 * a + b) | _ \<Rightarrow> None)"

definition be32_at :: "bytes \<Rightarrow> nat \<Rightarrow> nat option" where
  "be32_at buf i =
     (case (be16_at buf i, be16_at buf (i + 2)) of (Some a, Some b) \<Rightarrow> Some (65536 * a + b) | _ \<Rightarrow> None)"

definition to_be16 :: "nat \<Rightarrow> bytes" where
  "to_be16 n = [word_of_nat (n div 256), word_of_nat n]"

definition to_be32 :: "nat \<Rightarrow> bytes" where
  "to_be32 n = to_be16 (n div 65536) @ to_be16 (n mod 65536)"

definition copy_at :: "nat \<Rightarrow> bytes \<Rightarrow> bytes \<Rightarrow> bytes" where
  "copy_at i xs buf = take i buf @ xs @ drop (i + length xs) buf"

function skip_name :: "bytes \<Rightarrow> nat \<Rightarrow> nat option" where
  "skip_name buf pos =
     (case buf_get buf pos of
        None \<Rightarrow> None
      | Some len \<Rightarrow>
          (if len < 64 then (if len = 0 then Some (pos + 1) else skip_name buf (pos + (1 + len)))
           else if len \<ge> 192 then Some (pos + 2)
           else None))"
  by pat_completeness auto
termination
  by (relation "measure (\<lambda>(buf, pos). length buf - pos)") (auto simp: buf_get_def split: if_splits)

declare skip_name.simps [simp del]

fun skip_questions :: "nat \<Rightarrow> bytes \<Rightarrow> nat \<Rightarrow> nat option" where
  "skip_questions 0 buf pos = Some pos"
| "skip_questions (Suc n) buf pos =
     (case skip_name buf pos of None \<Rightarrow> None | Some p \<Rightarrow> skip_questions n buf (p + 4))"

definition RR_TYPE_OPT :: nat where "RR_TYPE_OPT = 41"
definition RR_FIXED_LEN :: nat where "RR_FIXED_LEN = 10"
definition RR_TTL_OFFSET :: nat where "RR_TTL_OFFSET = 4"

definition aged_ttl :: "nat \<Rightarrow> nat \<Rightarrow> nat \<Rightarrow> nat" where
  "aged_ttl elapsed remaining ttl = max 1 (min remaining (ttl - elapsed))"

text \<open>The record loop; it returns the buffer as it is when the walk ends or falls off.\<close>

fun age_records :: "nat \<Rightarrow> nat \<Rightarrow> nat \<Rightarrow> bytes \<Rightarrow> nat \<Rightarrow> bytes" where
  "age_records 0 elapsed remaining buf pos0 = buf"
| "age_records (Suc n) elapsed remaining buf pos0 =
     (case skip_name buf pos0 of
        None \<Rightarrow> buf
      | Some pos \<Rightarrow>
          (case (be16_at buf pos, be16_at buf (pos + 8)) of
             (Some rtype, Some rdlength) \<Rightarrow>
               (let next_pos = pos + RR_FIXED_LEN + rdlength in
                if rtype \<noteq> RR_TYPE_OPT then
                  (case be32_at buf (pos + RR_TTL_OFFSET) of
                     None \<Rightarrow> buf
                   | Some ttl \<Rightarrow>
                       (let buf' = (if ttl \<noteq> 0
                                    then copy_at (pos + RR_TTL_OFFSET) (to_be32 (aged_ttl elapsed remaining ttl)) buf
                                    else buf)
                        in age_records n elapsed remaining buf' next_pos))
                else age_records n elapsed remaining buf next_pos)
           | _ \<Rightarrow> buf))"

definition age_wire_ttls_inner :: "bytes \<Rightarrow> nat \<Rightarrow> nat \<Rightarrow> bytes" where
  "age_wire_ttls_inner buf elapsed remaining =
     (case (be16_at buf 4, be16_at buf 6, be16_at buf 8, be16_at buf 10) of
        (Some question_count, Some an, Some ns, Some ar) \<Rightarrow>
          (case skip_questions question_count buf 12 of
             None \<Rightarrow> buf
           | Some pos \<Rightarrow> age_records (an + ns + ar) elapsed remaining buf pos)
      | _ \<Rightarrow> buf)"

definition u32_saturate :: "nat \<Rightarrow> nat" where
  "u32_saturate n = (if n < 2 ^ 32 then n else 2 ^ 32 - 1)"

definition age_wire_ttls :: "bytes \<Rightarrow> nat \<Rightarrow> nat \<Rightarrow> bytes" where
  "age_wire_ttls buf elapsed_secs remaining_secs =
     age_wire_ttls_inner buf (u32_saturate elapsed_secs) (u32_saturate remaining_secs)"

section \<open>The cache\<close>

datatype 'u upstream_id = DefaultUpstream | TunnelUpstream 'u

type_synonym ('u, 'q) cache_key = "'u upstream_id \<times> string \<times> 'q"

record cached_entry =
  ce_wire :: bytes
  ce_inserted_at :: nat
  ce_ttl :: nat
  ce_seq :: nat

record ('u, 'q) dns_cache =
  c_entries :: "(('u, 'q) cache_key, cached_entry) mapping"
  c_insertion_order :: "(('u, 'q) cache_key \<times> nat) list"
  c_next_seq :: nat
  c_capacity :: nat
  c_inserts_since_sweep :: nat
  c_hits :: nat
  c_misses :: nat

definition NANOS :: nat where "NANOS = 1000000000"
definition ORDER_COMPACT_FLOOR :: nat where "ORDER_COMPACT_FLOOR = 64"
definition EXPIRED_SWEEP_DIVISOR :: nat where "EXPIRED_SWEEP_DIVISOR = 4"

definition is_expired :: "nat \<Rightarrow> cached_entry \<Rightarrow> bool" where
  "is_expired now e = (now - ce_inserted_at e \<ge> ce_ttl e)"

definition canonical_domain :: "string \<Rightarrow> string" where
  "canonical_domain domain = normalize_owned domain"

definition cache_new :: "nat \<Rightarrow> ('u, 'q) dns_cache" where
  "cache_new capacity =
     \<lparr>c_entries = Mapping.empty, c_insertion_order = [], c_next_seq = 0, c_capacity = capacity,
      c_inserts_since_sweep = 0, c_hits = 0, c_misses = 0\<rparr>"

definition cache_get ::
    "nat \<Rightarrow> 'u upstream_id \<Rightarrow> string \<Rightarrow> 'q \<Rightarrow> nat \<Rightarrow> ('u, 'q) dns_cache \<Rightarrow> bytes option \<times> ('u, 'q) dns_cache" where
  "cache_get now upstream domain rtype txid c =
     (case Mapping.lookup (c_entries c) (upstream, canonical_domain domain, rtype) of
        None \<Rightarrow> (None, c\<lparr>c_misses := c_misses c + 1\<rparr>)
      | Some e \<Rightarrow>
          (let age = now - ce_inserted_at e in
           if age \<ge> ce_ttl e then (None, c\<lparr>c_misses := c_misses c + 1\<rparr>)
           else (let wire = (if length (ce_wire e) \<ge> 2 then copy_at 0 (to_be16 txid) (ce_wire e) else ce_wire e);
                     elapsed = age div NANOS
                 in (Some (age_wire_ttls wire elapsed (ce_ttl e div NANOS - elapsed)),
                     c\<lparr>c_hits := c_hits c + 1\<rparr>))))"

definition live_slot :: "('k, cached_entry) mapping \<Rightarrow> 'k \<times> nat \<Rightarrow> bool" where
  "live_slot es slot = (case Mapping.lookup es (fst slot) of None \<Rightarrow> False | Some e \<Rightarrow> ce_seq e = snd slot)"

definition evict_expired :: "nat \<Rightarrow> ('u, 'q) dns_cache \<Rightarrow> ('u, 'q) dns_cache" where
  "evict_expired now c =
     (let es = Mapping.filter (\<lambda>_ e. \<not> is_expired now e) (c_entries c)
      in c\<lparr>c_entries := es, c_insertion_order := filter (live_slot es) (c_insertion_order c)\<rparr>)"

fun evict_loop ::
    "nat \<Rightarrow> ('k, cached_entry) mapping \<Rightarrow> ('k \<times> nat) list \<Rightarrow> ('k, cached_entry) mapping \<times> ('k \<times> nat) list" where
  "evict_loop capacity es [] = (es, [])"
| "evict_loop capacity es (slot # order) =
     (if Mapping.size es \<ge> capacity
      then evict_loop capacity (if live_slot es slot then Mapping.delete (fst slot) es else es) order
      else (es, slot # order))"

definition evict_oldest :: "('u, 'q) dns_cache \<Rightarrow> ('u, 'q) dns_cache" where
  "evict_oldest c =
     (let (es, order) = evict_loop (c_capacity c) (c_entries c) (c_insertion_order c)
      in c\<lparr>c_entries := es, c_insertion_order := order\<rparr>)"

definition compact_insertion_order :: "('u, 'q) dns_cache \<Rightarrow> ('u, 'q) dns_cache" where
  "compact_insertion_order c =
     (let threshold = max (Mapping.size (c_entries c) * 2) ORDER_COMPACT_FLOOR in
      if length (c_insertion_order c) < threshold then c
      else c\<lparr>c_insertion_order := filter (live_slot (c_entries c)) (c_insertion_order c)\<rparr>)"

text \<open>Only a key that is not there yet grows the map.\<close>

definition make_room :: "nat \<Rightarrow> ('u, 'q) cache_key \<Rightarrow> ('u, 'q) dns_cache \<Rightarrow> ('u, 'q) dns_cache" where
  "make_room now key c =
     (if Mapping.size (c_entries c) \<ge> c_capacity c \<and> Mapping.lookup (c_entries c) key = None
      then (let n = c_inserts_since_sweep c + 1;
                c' = (if n \<ge> max (c_capacity c div EXPIRED_SWEEP_DIVISOR) 1
                      then evict_expired now (c\<lparr>c_inserts_since_sweep := 0\<rparr>)
                      else c\<lparr>c_inserts_since_sweep := n\<rparr>)
            in evict_oldest c')
      else c)"

definition cache_insert ::
    "nat \<Rightarrow> 'u upstream_id \<Rightarrow> string \<Rightarrow> 'q \<Rightarrow> bytes \<Rightarrow> nat \<Rightarrow> nat \<Rightarrow> nat \<Rightarrow> ('u, 'q) dns_cache \<Rightarrow> ('u, 'q) dns_cache" where
  "cache_insert now upstream domain rtype wire ttl_secs ttl_min ttl_max c =
     (let ttl = min (max ttl_secs ttl_min) ttl_max in
      if ttl = 0 then c
      else
        (let key = (upstream, canonical_domain domain, rtype);
             c1 = make_room now key c;
             seq = c_next_seq c1
         in compact_insertion_order
              (c1\<lparr>c_next_seq := seq + 1, c_insertion_order := c_insertion_order c1 @ [(key, seq)],
                  c_entries := Mapping.update key
                    \<lparr>ce_wire = wire, ce_inserted_at = now, ce_ttl = ttl * NANOS, ce_seq = seq\<rparr> (c_entries c1)\<rparr>)))"

definition cache_invalidate_subtree :: "string \<Rightarrow> ('u, 'q) dns_cache \<Rightarrow> nat \<times> ('u, 'q) dns_cache" where
  "cache_invalidate_subtree domain c =
     (let d = canonical_domain (case strip_prefix ''*.'' domain of Some s \<Rightarrow> s | None \<Rightarrow> domain);
          before = Mapping.size (c_entries c);
          c' = compact_insertion_order (c\<lparr>c_entries :=
                 Mapping.filter (\<lambda>(_, cached_domain, _) _. \<not> suffix_covers d cached_domain) (c_entries c)\<rparr>)
      in (before - Mapping.size (c_entries c'), c'))"

definition cache_flush :: "('u, 'q) dns_cache \<Rightarrow> nat \<times> ('u, 'q) dns_cache" where
  "cache_flush c =
     (Mapping.size (c_entries c), c\<lparr>c_entries := Mapping.empty, c_insertion_order := []\<rparr>)"

text \<open>Everything the daemon does with the cache.\<close>

inductive cache_step :: "('u, 'q) dns_cache \<Rightarrow> ('u, 'q) dns_cache \<Rightarrow> bool" where
  lookup: "cache_step c (snd (cache_get now upstream domain rtype txid c))"
| store: "cache_step c (cache_insert now upstream domain rtype wire ttl_secs ttl_min ttl_max c)"
| invalidate: "cache_step c (snd (cache_invalidate_subtree domain c))"
| flush: "cache_step c (snd (cache_flush c))"

section \<open>The queue covers the entries\<close>

lemma lookup_delete_iff: "Mapping.lookup (Mapping.delete k m) k' = (if k = k' then None else Mapping.lookup m k')"
  by transfer simp

definition covered :: "('k, cached_entry) mapping \<Rightarrow> ('k \<times> nat) list \<Rightarrow> nat \<Rightarrow> bool" where
  "covered es order n \<longleftrightarrow>
     finite (Mapping.keys es) \<and> sorted_wrt (<) (map snd order) \<and> (\<forall>s \<in> set order. snd s < n) \<and>
     (\<forall>k e. Mapping.lookup es k = Some e \<longrightarrow> (k, ce_seq e) \<in> set order)"

lemma sorted_wrt_filter_map: "sorted_wrt (<) (map f xs) \<Longrightarrow> sorted_wrt (<) (map f (filter P xs))"
  by (induction xs) auto

lemma live_slot_iff: "live_slot es (k, s) \<longleftrightarrow> (\<exists>e. Mapping.lookup es k = Some e \<and> ce_seq e = s)"
  by (auto simp: live_slot_def split: option.splits)

lemma covered_compact: "covered es order n \<Longrightarrow> covered es (filter (live_slot es) order) n"
  by (auto simp: covered_def live_slot_iff sorted_wrt_filter_map)

lemma covered_filter: "covered es order n \<Longrightarrow> covered (Mapping.filter P es) order n"
  using keys_filter [of P es]
  by (auto simp: covered_def lookup_filter intro: finite_subset split: option.splits if_splits)

lemma covered_snoc:
  assumes "covered es order n" and "ce_seq e = n"
  shows "covered (Mapping.update k e es) (order @ [(k, n)]) (Suc n)"
  using assms
  by (auto simp: covered_def lookup_update' sorted_wrt_append less_Suc_eq split: if_splits)

lemma live_slots_size:
  assumes "covered es order n"
  shows "length (filter (live_slot es) order) = Mapping.size es"
proof -
  let ?L = "filter (live_slot es) order"
  have d: "distinct (map snd order)" using assms by (simp add: covered_def strict_sorted_iff)
  have "inj_on fst (set ?L)" by (auto simp: inj_on_def live_slot_iff)
  moreover have "distinct ?L" using d by (simp add: distinct_map)
  ultimately have "length ?L = card (fst ` set ?L)" by (metis card_image distinct_card)
  also have "fst ` set ?L = Mapping.keys es"
    using assms by (force simp: covered_def live_slot_iff keys_dom_lookup image_iff)
  finally show ?thesis by (simp add: Mapping.size_def)
qed

lemma evict_loop_covered:
  assumes "covered es order n" and "evict_loop capacity es order = (es', order')"
  shows "covered es' order' n \<and> (Mapping.size es' < capacity \<or> Mapping.size es' = 0) \<and>
    (\<forall>k e. Mapping.lookup es' k = Some e \<longrightarrow> Mapping.lookup es k = Some e)"
  using assms
proof (induction capacity es order rule: evict_loop.induct)
  case (1 capacity es)
  then have "Mapping.keys es = {}" by (auto simp: covered_def keys_dom_lookup)
  with 1 show ?case by (simp add: Mapping.size_def)
next
  case (2 capacity es slot order)
  obtain k s where slot: "slot = (k, s)" by force
  show ?case
  proof (cases "Mapping.size es \<ge> capacity")
    case True
    define es1 where "es1 = (if live_slot es slot then Mapping.delete (fst slot) es else es)"
    have "(k', ce_seq e) \<in> set order" if "Mapping.lookup es1 k' = Some e" for k' e
      using that "2.prems"(1) unfolding covered_def slot es1_def
      by (cases "k' = k") (auto simp: live_slot_iff lookup_delete_iff split: if_splits)
    with "2.prems"(1) have c1: "covered es1 order n" by (simp add: covered_def es1_def)
    have e1: "evict_loop capacity es1 order = (es', order')" using "2.prems"(2) True by (simp add: es1_def)
    have "Mapping.lookup es k' = Some e" if "Mapping.lookup es1 k' = Some e" for k' e
      using that by (simp add: es1_def lookup_delete_iff split: if_splits)
    with "2.IH" [OF True, folded es1_def, OF c1 e1] show ?thesis by metis
  next
    case False
    with "2.prems" show ?thesis by auto
  qed
qed

definition cache_ok :: "('u, 'q) dns_cache \<Rightarrow> bool" where
  "cache_ok c \<longleftrightarrow>
     covered (c_entries c) (c_insertion_order c) (c_next_seq c) \<and>
     Mapping.size (c_entries c) \<le> max (c_capacity c) 1 \<and>
     length (c_insertion_order c) \<le> max (2 * Mapping.size (c_entries c)) ORDER_COMPACT_FLOOR"

lemma compact_ok:
  assumes "covered (c_entries c) (c_insertion_order c) (c_next_seq c)"
    and "Mapping.size (c_entries c) \<le> max (c_capacity c) 1"
  shows "cache_ok (compact_insertion_order c)"
proof (cases "length (c_insertion_order c) < max (Mapping.size (c_entries c) * 2) ORDER_COMPACT_FLOOR")
  case True
  with assms show ?thesis by (simp add: compact_insertion_order_def cache_ok_def mult.commute)
next
  case False
  with assms live_slots_size [OF assms(1)] show ?thesis
    by (auto simp: compact_insertion_order_def cache_ok_def Let_def covered_compact)
qed

lemma compact_sel [simp]:
  "c_entries (compact_insertion_order c) = c_entries c" "c_next_seq (compact_insertion_order c) = c_next_seq c"
  "c_capacity (compact_insertion_order c) = c_capacity c"
  by (simp_all add: compact_insertion_order_def Let_def)

text \<open>Making room for one more entry.\<close>

lemma evict_oldest_ok:
  assumes "covered (c_entries c) (c_insertion_order c) (c_next_seq c)"
  shows "covered (c_entries (evict_oldest c)) (c_insertion_order (evict_oldest c)) (c_next_seq c)"
    and "c_next_seq (evict_oldest c) = c_next_seq c" and "c_capacity (evict_oldest c) = c_capacity c"
    and "Mapping.size (c_entries (evict_oldest c)) < max (c_capacity c) 1"
    and "Mapping.lookup (c_entries (evict_oldest c)) k = Some e \<Longrightarrow> Mapping.lookup (c_entries c) k = Some e"
proof -
  obtain es order where e: "evict_loop (c_capacity c) (c_entries c) (c_insertion_order c) = (es, order)" by force
  note v = evict_loop_covered [OF assms e]
  show "covered (c_entries (evict_oldest c)) (c_insertion_order (evict_oldest c)) (c_next_seq c)"
    "c_next_seq (evict_oldest c) = c_next_seq c" "c_capacity (evict_oldest c) = c_capacity c"
    "Mapping.size (c_entries (evict_oldest c)) < max (c_capacity c) 1"
    using v by (auto simp: evict_oldest_def e)
  show "Mapping.lookup (c_entries c) k = Some e" if "Mapping.lookup (c_entries (evict_oldest c)) k = Some e"
    using v that by (simp add: evict_oldest_def e del: split_paired_All)
qed

lemma evict_expired_ok:
  assumes "covered (c_entries c) (c_insertion_order c) n"
  shows "covered (c_entries (evict_expired now c)) (c_insertion_order (evict_expired now c)) n"
    and "Mapping.lookup (c_entries (evict_expired now c)) k = Some e \<Longrightarrow> Mapping.lookup (c_entries c) k = Some e"
  using covered_compact [OF covered_filter [OF assms]]
  by (auto simp: evict_expired_def Let_def lookup_filter split: option.splits if_splits)

lemma evict_expired_sel [simp]:
  "c_next_seq (evict_expired now c) = c_next_seq c" "c_capacity (evict_expired now c) = c_capacity c"
  by (simp_all add: evict_expired_def Let_def)

lemma make_room_cases:
  assumes "covered (c_entries c) (c_insertion_order c) (c_next_seq c)"
  obtains (room) "make_room now key c = c"
      and "Mapping.size (c_entries c) < c_capacity c \<or> Mapping.lookup (c_entries c) key \<noteq> None"
    | (evict) c' where "make_room now key c = evict_oldest c'"
      and "covered (c_entries c') (c_insertion_order c') (c_next_seq c')"
      and "c_next_seq c' = c_next_seq c" and "c_capacity c' = c_capacity c"
      and "\<And>k e. Mapping.lookup (c_entries c') k = Some e \<Longrightarrow> Mapping.lookup (c_entries c) k = Some e"
proof (cases "Mapping.size (c_entries c) \<ge> c_capacity c \<and> Mapping.lookup (c_entries c) key = None")
  case full: True
  show ?thesis
  proof (cases "c_inserts_since_sweep c + 1 \<ge> max (c_capacity c div EXPIRED_SWEEP_DIVISOR) 1")
    case True
    let ?c = "c\<lparr>c_inserts_since_sweep := 0\<rparr>"
    have "covered (c_entries ?c) (c_insertion_order ?c) (c_next_seq c)" using assms by simp
    note e = evict_expired_ok [OF this]
    show ?thesis
    proof (rule evict [of "evict_expired now ?c"])
      show "make_room now key c = evict_oldest (evict_expired now ?c)"
        using full True by (simp add: make_room_def)
      show "Mapping.lookup (c_entries c) k = Some v"
        if "Mapping.lookup (c_entries (evict_expired now ?c)) k = Some v" for k v using e(2) [OF that] by simp
    qed (use e(1) in simp_all)
  next
    case False
    then show ?thesis
      using full assms by (intro evict [of "c\<lparr>c_inserts_since_sweep := c_inserts_since_sweep c + 1\<rparr>"])
        (simp_all add: make_room_def)
  qed
next
  case False
  then show ?thesis by (intro room) (auto simp: make_room_def)
qed

lemma make_room_ok:
  assumes "cache_ok c"
  shows "covered (c_entries (make_room now key c)) (c_insertion_order (make_room now key c)) (c_next_seq c)"
    and "c_next_seq (make_room now key c) = c_next_seq c" and "c_capacity (make_room now key c) = c_capacity c"
    and "Mapping.size (Mapping.update key e (c_entries (make_room now key c))) \<le> max (c_capacity c) 1"
    and "Mapping.lookup (c_entries (make_room now key c)) k = Some v \<Longrightarrow> Mapping.lookup (c_entries c) k = Some v"
proof -
  let ?r = "make_room now key c"
  have c: "covered (c_entries c) (c_insertion_order c) (c_next_seq c)" and z: "Mapping.size (c_entries c) \<le> max (c_capacity c) 1"
    using assms by (simp_all add: cache_ok_def)
  have "covered (c_entries ?r) (c_insertion_order ?r) (c_next_seq c) \<and> c_next_seq ?r = c_next_seq c \<and>
      c_capacity ?r = c_capacity c \<and>
      (Mapping.size (c_entries ?r) < max (c_capacity c) 1 \<or>
       Mapping.lookup (c_entries ?r) key \<noteq> None \<and> Mapping.size (c_entries ?r) \<le> max (c_capacity c) 1) \<and>
      (\<forall>k v. Mapping.lookup (c_entries ?r) k = Some v \<longrightarrow> Mapping.lookup (c_entries c) k = Some v)"
  proof (rule make_room_cases [OF c, of now key])
    assume "make_room now key c = c"
      "Mapping.size (c_entries c) < c_capacity c \<or> Mapping.lookup (c_entries c) key \<noteq> None"
    with c z show ?thesis by auto
  next
    fix c' assume e: "make_room now key c = evict_oldest c'"
      "covered (c_entries c') (c_insertion_order c') (c_next_seq c')"
      "c_next_seq c' = c_next_seq c" "c_capacity c' = c_capacity c"
      "\<And>k e. Mapping.lookup (c_entries c') k = Some e \<Longrightarrow> Mapping.lookup (c_entries c) k = Some e"
    note o = evict_oldest_ok [OF e(2)]
    have "Mapping.lookup (c_entries c) k = Some v" if "Mapping.lookup (c_entries (evict_oldest c')) k = Some v" for k v
      using e(5) [OF o(5) [OF that]] .
    with o(1-4) show ?thesis unfolding e(1,3,4) by blast
  qed
  then have r: "covered (c_entries ?r) (c_insertion_order ?r) (c_next_seq c)" "c_next_seq ?r = c_next_seq c"
      "c_capacity ?r = c_capacity c"
      "Mapping.size (c_entries ?r) < max (c_capacity c) 1 \<or>
       Mapping.lookup (c_entries ?r) key \<noteq> None \<and> Mapping.size (c_entries ?r) \<le> max (c_capacity c) 1"
      "\<forall>k v. Mapping.lookup (c_entries ?r) k = Some v \<longrightarrow> Mapping.lookup (c_entries c) k = Some v"
    by blast+
  from r(1) have "finite (Mapping.keys (c_entries ?r))" by (simp add: covered_def)
  with r(4) show "Mapping.size (Mapping.update key e (c_entries ?r)) \<le> max (c_capacity c) 1"
    by (auto simp: size_update keys_dom_lookup)
  show "covered (c_entries ?r) (c_insertion_order ?r) (c_next_seq c)" "c_next_seq ?r = c_next_seq c"
    "c_capacity ?r = c_capacity c" by (fact r)+
  show "Mapping.lookup (c_entries ?r) k = Some v \<Longrightarrow> Mapping.lookup (c_entries c) k = Some v" using r(5) by blast
qed

definition new_entry :: "nat \<Rightarrow> bytes \<Rightarrow> nat \<Rightarrow> nat \<Rightarrow> cached_entry" where
  "new_entry now wire ttl n = \<lparr>ce_wire = wire, ce_inserted_at = now, ce_ttl = ttl * NANOS, ce_seq = n\<rparr>"

lemma cache_insert_alt:
  assumes "min (max ttl_secs ttl_min) ttl_max = ttl" and "0 < ttl" and "key = (upstream, canonical_domain domain, rtype)"
  shows "cache_insert now upstream domain rtype wire ttl_secs ttl_min ttl_max c =
    compact_insertion_order ((make_room now key c)\<lparr>c_next_seq := c_next_seq (make_room now key c) + 1,
      c_insertion_order := c_insertion_order (make_room now key c) @ [(key, c_next_seq (make_room now key c))],
      c_entries := Mapping.update key (new_entry now wire ttl (c_next_seq (make_room now key c))) (c_entries (make_room now key c))\<rparr>)"
  using assms by (simp add: cache_insert_def new_entry_def Let_def)

lemma cache_insert_ok:
  assumes "cache_ok c"
  shows "cache_ok (cache_insert now upstream domain rtype wire ttl_secs ttl_min ttl_max c)"
proof (cases "min (max ttl_secs ttl_min) ttl_max = 0")
  case True
  with assms show ?thesis by (simp add: cache_insert_def)
next
  case False
  let ?k = "(upstream, canonical_domain domain, rtype)" and ?t = "min (max ttl_secs ttl_min) ttl_max"
  note r = make_room_ok [where now = now and key = ?k, OF assms]
  have "covered (Mapping.update ?k (new_entry now wire ?t (c_next_seq c)) (c_entries (make_room now ?k c)))
      (c_insertion_order (make_room now ?k c) @ [(?k, c_next_seq c)]) (Suc (c_next_seq c))"
    by (rule covered_snoc [OF r(1)]) (simp add: new_entry_def)
  moreover have "cache_insert now upstream domain rtype wire ttl_secs ttl_min ttl_max c =
    compact_insertion_order ((make_room now ?k c)\<lparr>c_next_seq := Suc (c_next_seq c),
      c_insertion_order := c_insertion_order (make_room now ?k c) @ [(?k, c_next_seq c)],
      c_entries := Mapping.update ?k (new_entry now wire ?t (c_next_seq c)) (c_entries (make_room now ?k c))\<rparr>)"
    by (simp only: cache_insert_def Let_def new_entry_def r(2) if_not_P [OF False] Suc_eq_plus1)
  ultimately show ?thesis using r(3,4) by (auto intro!: compact_ok)
qed

lemma cache_insert_sel:
  "c_capacity (cache_insert now upstream domain rtype wire ttl_secs ttl_min ttl_max c) = c_capacity c" if "cache_ok c"
  using make_room_ok [OF that] by (simp add: cache_insert_def Let_def)

lemma lookup_insert:
  assumes "cache_ok c" and "min (max ttl_secs ttl_min) ttl_max = ttl" and "0 < ttl"
  shows "Mapping.lookup (c_entries (cache_insert now upstream domain rtype wire ttl_secs ttl_min ttl_max c)) k =
    (if k = (upstream, canonical_domain domain, rtype) then Some (new_entry now wire ttl (c_next_seq c))
     else Mapping.lookup (c_entries (make_room now (upstream, canonical_domain domain, rtype) c)) k)"
  using make_room_ok(2) [OF assms(1)]
  by (simp add: cache_insert_alt [OF assms(2,3) refl] lookup_update' eq_commute [of k])

lemma size_zero_new: "cache_ok (cache_new capacity)"
  by (simp add: cache_ok_def cache_new_def covered_def)

lemma cache_step_ok: "cache_step c c' \<Longrightarrow> cache_ok c \<Longrightarrow> cache_ok c' \<and> c_capacity c' = c_capacity c"
proof (induction rule: cache_step.induct)
  case (lookup c now upstream domain rtype txid)
  then show ?case by (auto simp: cache_get_def cache_ok_def Let_def split: option.splits)
next
  case (store c now upstream domain rtype wire ttl_secs ttl_min ttl_max)
  then show ?case by (simp add: cache_insert_ok cache_insert_sel)
next
  case (invalidate c domain)
  let ?P = "\<lambda>d (_, cached_domain, _) _. \<not> suffix_covers d cached_domain"
  have "covered (Mapping.filter P (c_entries c)) (c_insertion_order c) (c_next_seq c)"
    "Mapping.size (Mapping.filter P (c_entries c)) \<le> max (c_capacity c) 1" for P
    using invalidate size_filter [of "c_entries c" P]
    by (auto simp: cache_ok_def covered_filter) (auto simp: covered_def)
  then show ?case by (simp add: cache_invalidate_subtree_def Let_def compact_ok)
next
  case (flush c)
  then show ?case by (simp add: cache_flush_def cache_ok_def covered_def)
qed

text \<open>
  C20: the cache stays bounded. However it is used, it never holds more entries than its capacity
  (one entry when the capacity is 0), and its eviction queue, live and stale slots together, never
  grows past twice the capacity or the compaction floor.
\<close>

theorem cache_bounded:
  assumes "cache_step\<^sup>*\<^sup>* (cache_new capacity) c"
  shows "Mapping.size (c_entries c) \<le> max capacity 1 \<and>
    length (c_insertion_order c) \<le> max (2 * max capacity 1) ORDER_COMPACT_FLOOR"
proof -
  from assms have "cache_ok c \<and> c_capacity c = capacity"
  proof (induction rule: rtranclp_induct)
    case base
    show ?case by (rule conjI [OF size_zero_new]) (simp add: cache_new_def)
  next
    case (step y z)
    then show ?case using cache_step_ok by blast
  qed
  then show ?thesis by (auto simp: cache_ok_def)
qed

theorem cache_bounded_witness:
  "Mapping.size (c_entries (cache_insert 0 DefaultUpstream ''a.com'' () [] 5 0 9
     (cache_new 0 :: (nat, unit) dns_cache))) \<le> 1"
proof -
  have "cache_step\<^sup>*\<^sup>* (cache_new 0 :: (nat, unit) dns_cache) (cache_insert 0 DefaultUpstream ''a.com'' () [] 5 0 9 (cache_new 0))"
    by (rule r_into_rtranclp, rule cache_step.store)
  from cache_bounded [OF this] show ?thesis by simp
qed

definition stamp :: "nat \<Rightarrow> bytes \<Rightarrow> bytes" where
  "stamp txid wire = (if length wire \<ge> 2 then copy_at 0 (to_be16 txid) wire else wire)"

definition served :: "nat \<Rightarrow> nat \<Rightarrow> cached_entry option \<Rightarrow> bytes option" where
  "served now txid entry =
     (case entry of
        None \<Rightarrow> None
      | Some e \<Rightarrow>
          (if now - ce_inserted_at e \<ge> ce_ttl e then None
           else Some (age_wire_ttls (stamp txid (ce_wire e)) ((now - ce_inserted_at e) div NANOS)
                       (ce_ttl e div NANOS - (now - ce_inserted_at e) div NANOS))))"

lemma cache_get_served:
  "fst (cache_get now upstream domain rtype txid c) =
     served now txid (Mapping.lookup (c_entries c) (upstream, canonical_domain domain, rtype))"
  by (simp add: cache_get_def served_def stamp_def Let_def split: option.splits)

text \<open>
  C18: what was stored is what is served. Within its lifetime, an answer just stored is served for
  every spelling of its name, with the asker's transaction id and with its TTLs aged; every other
  name, type or upstream pool gets what it got before or nothing, never this answer.
\<close>

theorem get_after_insert:
  assumes "cache_ok c" and "min (max ttl_secs ttl_min) ttl_max = ttl" and "0 < ttl"
    and "now \<le> later" and "later - now < ttl * NANOS"
    and "canonical_domain domain' = canonical_domain domain"
  shows "fst (cache_get later upstream domain' rtype txid
      (cache_insert now upstream domain rtype wire ttl_secs ttl_min ttl_max c)) =
        Some (age_wire_ttls (stamp txid wire) ((later - now) div NANOS) (ttl - (later - now) div NANOS)) \<and>
    (\<forall>u' d' t'. (u', canonical_domain d', t') \<noteq> (upstream, canonical_domain domain, rtype) \<longrightarrow>
      fst (cache_get later u' d' t' txid (cache_insert now upstream domain rtype wire ttl_secs ttl_min ttl_max c))
        \<in> {None, fst (cache_get later u' d' t' txid c)})"
proof -
  let ?k = "(upstream, canonical_domain domain, rtype)"
  let ?c = "cache_insert now upstream domain rtype wire ttl_secs ttl_min ttl_max c"
  note l = lookup_insert [OF assms(1-3)]
  have n: "NANOS > 0" by (simp add: NANOS_def)
  have other: "fst (cache_get later u' d' t' txid ?c) \<in> {None, fst (cache_get later u' d' t' txid c)}"
    if k: "(u', canonical_domain d', t') \<noteq> ?k" for u' d' t'
  proof (cases "Mapping.lookup (c_entries (make_room now ?k c)) (u', canonical_domain d', t')")
    case None
    then show ?thesis unfolding cache_get_served l if_not_P [OF k] by (simp add: served_def)
  next
    case (Some e)
    with make_room_ok(5) [OF assms(1) Some] show ?thesis unfolding cache_get_served l if_not_P [OF k] by simp
  qed
  have "fst (cache_get later upstream domain' rtype txid ?c) =
      Some (age_wire_ttls (stamp txid wire) ((later - now) div NANOS) (ttl - (later - now) div NANOS))"
    using assms(5) n unfolding cache_get_served l assms(6) by (simp add: served_def new_entry_def)
  with other show ?thesis by blast
qed

theorem get_after_insert_witness:
  "fst (cache_get 0 DefaultUpstream ''A.com.'' () 7
     (cache_insert 0 DefaultUpstream ''a.com'' () [0, 0, 1] 5 0 9 (cache_new 4 :: (nat, unit) dns_cache))) =
   Some (age_wire_ttls [0, 7, 1] 0 5)"
proof -
  have "canonical_domain ''A.com.'' = canonical_domain ''a.com''" by code_simp
  from get_after_insert [OF size_zero_new _ _ _ _ this, of 5 0 9 5 0 0 DefaultUpstream "()" 7 "[0, 0, 1]" 4, THEN conjunct1]
  show ?thesis by (simp add: NANOS_def stamp_def copy_at_def to_be16_def)
qed

lemma evict_loop_room: "Mapping.size es < capacity \<Longrightarrow> evict_loop capacity es order = (es, order)"
  by (cases order) simp_all

text \<open>
  Eviction is first in, first out. Making room in a full cache removes exactly one entry, the
  one stored first, however many stale slots precede it in the queue.
\<close>

theorem eviction_is_fifo:
  assumes "covered es order n" and "Mapping.size es = capacity" and "0 < capacity"
  shows "\<exists>k e. Mapping.lookup es k = Some e \<and>
    (\<forall>k' e'. Mapping.lookup es k' = Some e' \<longrightarrow> ce_seq e \<le> ce_seq e') \<and>
    fst (evict_loop capacity es order) = Mapping.delete k es"
  using assms
proof (induction order)
  case Nil
  then have "Mapping.keys es = {}" by (auto simp: covered_def keys_dom_lookup)
  with Nil show ?case by (simp add: Mapping.size_def)
next
  case (Cons slot order)
  obtain k s where slot: "slot = (k, s)" by force
  show ?case
  proof (cases "live_slot es slot")
    case True
    then obtain e where e: "Mapping.lookup es k = Some e" "ce_seq e = s" by (auto simp: slot live_slot_iff)
    have "ce_seq e \<le> ce_seq e'" if "Mapping.lookup es k' = Some e'" for k' e'
      using that Cons.prems(1) e by (auto simp: covered_def slot) (metis less_imp_le order_refl snd_conv)
    moreover have "Mapping.size (Mapping.delete k es) < capacity"
      using e Cons.prems by (auto simp: size_delete keys_dom_lookup)
    then have "fst (evict_loop capacity es (slot # order)) = Mapping.delete k es"
      using True Cons.prems(2) by (simp add: slot evict_loop_room)
    ultimately show ?thesis using e(1) by blast
  next
    case False
    have "(k', ce_seq e') \<in> set order" if "Mapping.lookup es k' = Some e'" for k' e'
      using that False Cons.prems(1) unfolding covered_def slot live_slot_iff
      by (cases "k' = k \<and> ce_seq e' = s") auto
    then have "covered es order n" using Cons.prems(1) by (simp add: covered_def)
    from Cons.IH [OF this Cons.prems(2,3)] False Cons.prems(2) show ?thesis by simp
  qed
qed

theorem eviction_is_fifo_witness:
  "\<exists>k e. Mapping.lookup (Mapping.update (2::nat) (new_entry 0 [] 1 1) (Mapping.update 1 (new_entry 0 [] 1 0) Mapping.empty)) k = Some e \<and>
     fst (evict_loop 2 (Mapping.update 2 (new_entry 0 [] 1 1) (Mapping.update 1 (new_entry 0 [] 1 0) Mapping.empty))
       [(1, 0), (2, 1)]) =
     Mapping.delete k (Mapping.update 2 (new_entry 0 [] 1 1) (Mapping.update 1 (new_entry 0 [] 1 0) Mapping.empty))"
proof -
  let ?es = "Mapping.update (2::nat) (new_entry 0 [] 1 1) (Mapping.update 1 (new_entry 0 [] 1 0) Mapping.empty)"
  have "covered ?es [(1, 0), (2, 1)] 2"
    by (auto simp: covered_def new_entry_def lookup_update' split: if_splits)
  moreover have "Mapping.size ?es = 2" by (simp add: size_update)
  ultimately have "\<exists>k e. Mapping.lookup ?es k = Some e \<and>
      (\<forall>k' e'. Mapping.lookup ?es k' = Some e' \<longrightarrow> ce_seq e \<le> ce_seq e') \<and>
      fst (evict_loop 2 ?es [(1, 0), (2, 1)]) = Mapping.delete k ?es"
    by (rule eviction_is_fifo) (rule zero_less_numeral)
  then show ?thesis by blast
qed

text \<open>
  Invalidating a name removes exactly its subtree. All entries at or below the name, for every
  pool and type, are gone, every other entry is as before, and the count reported is the number of
  entries removed.
\<close>

theorem invalidate_subtree_exact:
  assumes "cache_ok c" and "base = canonical_domain (case strip_prefix ''*.'' domain of Some s \<Rightarrow> s | None \<Rightarrow> domain)"
  shows "Mapping.lookup (c_entries (snd (cache_invalidate_subtree domain c))) (u, d, t) =
      (if in_subtree base d then None else Mapping.lookup (c_entries c) (u, d, t)) \<and>
    fst (cache_invalidate_subtree domain c) =
      card {k \<in> Mapping.keys (c_entries c). in_subtree base (fst (snd k))}"
proof -
  let ?es = "Mapping.filter (\<lambda>(_, cached_domain, _) _. \<not> suffix_covers base cached_domain) (c_entries c)"
  have s: "cache_invalidate_subtree domain c =
      (Mapping.size (c_entries c) - Mapping.size ?es, compact_insertion_order (c\<lparr>c_entries := ?es\<rparr>))"
    by (simp add: cache_invalidate_subtree_def assms(2) Let_def)
  have f: "finite (Mapping.keys (c_entries c))" using assms(1) by (simp add: cache_ok_def covered_def)
  have k: "Mapping.keys ?es = {k \<in> Mapping.keys (c_entries c). \<not> in_subtree base (fst (snd k))}"
    by (auto simp: keys_dom_lookup lookup_filter suffix_covers_in_subtree split: option.splits if_splits)
  have "Mapping.keys (c_entries c) - Mapping.keys ?es = {k \<in> Mapping.keys (c_entries c). in_subtree base (fst (snd k))}"
    unfolding k by blast
  then have "Mapping.size (c_entries c) - Mapping.size ?es =
      card {k \<in> Mapping.keys (c_entries c). in_subtree base (fst (snd k))}"
    using f k by (metis (no_types, lifting) Mapping.size_def card_Diff_subset finite_subset keys_filter)
  then show ?thesis
    by (simp add: s lookup_filter suffix_covers_in_subtree split: option.splits)
qed

theorem invalidate_subtree_exact_witness:
  "Mapping.lookup (c_entries (snd (cache_invalidate_subtree ''*.b'' (cache_new 4 :: (nat, unit) dns_cache))))
     (DefaultUpstream, ''a.b'', ()) = None"
proof -
  have "''b'' = canonical_domain (case strip_prefix ''*.'' ''*.b'' of Some s \<Rightarrow> s | None \<Rightarrow> ''*.b'')" by code_simp
  note i = invalidate_subtree_exact [OF size_zero_new [of 4] this, of DefaultUpstream "''a.b''" "()", THEN conjunct1]
  have "in_subtree ''b'' ''a.b''" unfolding in_subtree_def by (intro disjI2 exI [of _ "''a''"]) simp
  with i show ?thesis by simp
qed

section \<open>Ageing changes the TTLs and nothing else\<close>

text \<open>The offsets of the TTL fields of a response, found by the same walk on the bytes received.\<close>

fun ttl_offsets :: "nat \<Rightarrow> bytes \<Rightarrow> nat \<Rightarrow> nat list" where
  "ttl_offsets 0 buf pos0 = []"
| "ttl_offsets (Suc n) buf pos0 =
     (case skip_name buf pos0 of
        None \<Rightarrow> []
      | Some pos \<Rightarrow>
          (case (be16_at buf pos, be16_at buf (pos + 8)) of
             (Some rtype, Some rdlength) \<Rightarrow>
               (if rtype \<noteq> RR_TYPE_OPT then [pos + 4] else []) @ ttl_offsets n buf (pos + 10 + rdlength)
           | _ \<Rightarrow> []))"

definition agree :: "nat \<Rightarrow> bytes \<Rightarrow> bytes \<Rightarrow> bool" where
  "agree p b1 b2 \<longleftrightarrow> length b1 = length b2 \<and> (\<forall>i \<ge> p. i < length b1 \<longrightarrow> b1 ! i = b2 ! i)"

lemma agree_get: "agree p b1 b2 \<Longrightarrow> p \<le> i \<Longrightarrow> buf_get b1 i = buf_get b2 i"
  by (auto simp: agree_def buf_get_def)

lemma agree_be16: "agree p b1 b2 \<Longrightarrow> p \<le> i \<Longrightarrow> be16_at b1 i = be16_at b2 i"
  by (simp add: be16_at_def agree_get)

lemma agree_mono: "agree p b1 b2 \<Longrightarrow> p \<le> q \<Longrightarrow> agree q b1 b2"
  by (simp add: agree_def)

lemma skip_name_cong: "agree p b1 b2 \<Longrightarrow> skip_name b1 p = skip_name b2 p"
proof (induction b1 p rule: skip_name.induct)
  case (1 b1 p)
  show ?case
  proof (cases "buf_get b1 p")
    case None
    with 1 show ?thesis by (simp add: skip_name.simps [of b1 p] skip_name.simps [of b2 p] agree_get [symmetric])
  next
    case (Some len)
    with 1(1) [OF Some] 1(2) show ?thesis
      using agree_mono [OF 1(2), of "p + (1 + len)"]
      by (simp add: skip_name.simps [of b1 p] skip_name.simps [of b2 p] agree_get [OF 1(2), symmetric])
  qed
qed

lemma skip_name_gt: "skip_name buf p = Some q \<Longrightarrow> p < q"
proof (induction buf p rule: skip_name.induct)
  case (1 buf p)
  then show ?case
    by (subst (asm) (2) skip_name.simps) (force split: option.splits if_splits)
qed

lemma ttl_offsets_cong: "agree p b1 b2 \<Longrightarrow> ttl_offsets n b1 p = ttl_offsets n b2 p"
proof (induction n arbitrary: p)
  case (Suc n)
  show ?case
  proof (cases "skip_name b1 p")
    case None
    with skip_name_cong [OF Suc.prems] show ?thesis by simp
  next
    case (Some q)
    have q: "p \<le> q" using skip_name_gt [OF Some] by simp
    have "ttl_offsets n b1 (q + 10 + m) = ttl_offsets n b2 (q + 10 + m)" for m
      using Suc.IH [of "q + 10 + m"] agree_mono [OF Suc.prems, of "q + 10 + m"] q by simp
    with Some skip_name_cong [OF Suc.prems] agree_be16 [OF Suc.prems] q show ?thesis
      by (simp split: option.splits)
  qed
qed simp

lemma ttl_offsets_ge: "off \<in> set (ttl_offsets n buf p) \<Longrightarrow> p < off"
proof (induction n arbitrary: p)
  case (Suc n)
  show ?case
  proof (cases "skip_name buf p")
    case None
    with Suc.prems show ?thesis by simp
  next
    case (Some q)
    from Suc.prems Some have "off = q + 4 \<or> (\<exists>m. off \<in> set (ttl_offsets n buf (q + 10 + m)))"
      by (auto split: option.splits if_splits)
    with skip_name_gt [OF Some] show ?thesis by (auto dest: Suc.IH)
  qed
qed simp

lemma length_to_be [simp]: "length (to_be16 n) = 2" "length (to_be32 n) = 4"
  by (simp_all add: to_be32_def to_be16_def)

lemma length_copy_at [simp]: "i + length xs \<le> length buf \<Longrightarrow> length (copy_at i xs buf) = length buf"
  by (simp add: copy_at_def)

lemma nth_copy_at:
  assumes "i + length xs \<le> length buf" and "j < length buf"
  shows "copy_at i xs buf ! j = (if i \<le> j \<and> j < i + length xs then xs ! (j - i) else buf ! j)"
  using assms by (auto simp: copy_at_def nth_append)

lemma be32_cong:
  "length b1 = length b2 \<Longrightarrow> (\<And>j. i \<le> j \<Longrightarrow> j < i + 4 \<Longrightarrow> j < length b2 \<Longrightarrow> b1 ! j = b2 ! j) \<Longrightarrow> be32_at b1 i = be32_at b2 i"
  by (simp add: be32_at_def be16_at_def buf_get_def)

lemma be32_bound: "be32_at buf i = Some t \<Longrightarrow> t < 2 ^ 32 \<and> i + 4 \<le> length buf"
proof -
  assume "be32_at buf i = Some t"
  then have t: "t = 65536 * (256 * unat (buf ! i) + unat (buf ! Suc i)) +
      (256 * unat (buf ! Suc (Suc i)) + unat (buf ! Suc (Suc (Suc i))))"
    and "Suc (Suc (Suc i)) < length buf"
    by (auto simp: be32_at_def be16_at_def buf_get_def split: if_splits option.splits)
  moreover have "unat (buf ! j) < 256" for j using unsigned_less [of "buf ! j"] by simp
  note this [of i] this [of "Suc i"] this [of "Suc (Suc i)"] this [of "Suc (Suc (Suc i))"]
  ultimately show ?thesis by simp
qed

lemma be32_of_to_be32: "n < 2 ^ 32 \<Longrightarrow> i + 4 \<le> length buf \<Longrightarrow> be32_at (copy_at i (to_be32 n) buf) i = Some n"
proof -
  assume n: "n < 2 ^ 32" and i: "i + 4 \<le> length buf"
  have nth: "copy_at i (to_be32 n) buf ! (i + j) = to_be32 n ! j" if "j < 4" for j
    using that i by (simp add: nth_copy_at)
  have b: "copy_at i (to_be32 n) buf ! i = word_of_nat (n div 65536 div 256)"
    "copy_at i (to_be32 n) buf ! Suc i = word_of_nat (n div 65536)"
    "copy_at i (to_be32 n) buf ! Suc (Suc i) = word_of_nat (n mod 65536 div 256)"
    "copy_at i (to_be32 n) buf ! Suc (Suc (Suc i)) = word_of_nat (n mod 65536)"
    using nth [of 0] nth [of 1] nth [of 2] nth [of 3] by (simp_all add: to_be32_def to_be16_def numeral_3_eq_3)
  have u: "unat (word_of_nat m :: 8 word) = m mod 256" for m by (simp add: unat_of_nat)
  have "be32_at (copy_at i (to_be32 n) buf) i = Some (65536 * (256 * (n div 65536 div 256 mod 256) + n div 65536 mod 256) +
      (256 * (n mod 65536 div 256 mod 256) + n mod 65536 mod 256))" (is "_ = Some ?v")
    using i by (simp add: be32_at_def be16_at_def buf_get_def b u add.commute)
  moreover have "?v = n"
  proof -
    have "n div 65536 div 256 < 256" "n mod 65536 div 256 < 256" using n by (simp_all add: less_mult_imp_div_less)
    then have "?v = 65536 * (256 * (n div 65536 div 256) + n div 65536 mod 256) + (256 * (n mod 65536 div 256) + n mod 65536 mod 256)"
      by simp
    then show ?thesis by (simp only: mult_div_mod_eq)
  qed
  ultimately show ?thesis by (rule trans [OF _ arg_cong])
qed

lemma aged_ttl_bound: "t < 2 ^ 32 \<Longrightarrow> aged_ttl elapsed remaining t < 2 ^ 32"
  by (auto simp: aged_ttl_def)

definition in_window :: "nat \<Rightarrow> nat list \<Rightarrow> bool" where
  "in_window i offs \<longleftrightarrow> (\<exists>off \<in> set offs. off \<le> i \<and> i < off + 4)"

definition aged_at :: "nat \<Rightarrow> nat \<Rightarrow> bytes \<Rightarrow> bytes \<Rightarrow> nat \<Rightarrow> bool" where
  "aged_at elapsed remaining buf buf' off \<longleftrightarrow>
     (\<exists>t. be32_at buf off = Some t \<and>
          be32_at buf' off = Some (if t = 0 then 0 else aged_ttl elapsed remaining t))"

definition aged :: "nat \<Rightarrow> nat \<Rightarrow> bytes \<Rightarrow> bytes \<Rightarrow> nat list \<Rightarrow> bool" where
  "aged elapsed remaining buf buf' offs \<longleftrightarrow>
     length buf' = length buf \<and> (\<forall>i < length buf. \<not> in_window i offs \<longrightarrow> buf' ! i = buf ! i) \<and>
     (\<forall>off \<in> set offs. aged_at elapsed remaining buf buf' off)"

lemma aged_refl: "aged elapsed remaining buf buf []"
  by (simp add: aged_def)

text \<open>One record: its TTL is patched, then the walk goes on behind it.\<close>

lemma aged_step:
  assumes "be32_at buf p = Some t" and "\<forall>off \<in> set offs. p + 4 < off"
    and buf1: "buf1 = (if t \<noteq> 0 then copy_at p (to_be32 (aged_ttl elapsed remaining t)) buf else buf)"
    and rest: "aged elapsed remaining buf1 buf' offs"
  shows "aged elapsed remaining buf buf' (p # offs)"
proof -
  note t = be32_bound [OF assms(1)]
  have l: "length buf1 = length buf" using t by (simp add: buf1)
  have same: "buf1 ! i = buf ! i" if "i < length buf" "i < p \<or> p + 4 \<le> i" for i
    using t that by (auto simp: buf1 nth_copy_at)
  have here: "be32_at buf1 p = Some (if t = 0 then 0 else aged_ttl elapsed remaining t)"
    using t assms(1) be32_of_to_be32 [OF aged_ttl_bound, of t p buf elapsed remaining] by (simp add: buf1)
  have "be32_at buf' p = be32_at buf1 p"
    using rest assms(2) l by (intro be32_cong) (force simp: aged_def in_window_def)+
  then have head: "aged_at elapsed remaining buf buf' p" using here assms(1) by (simp add: aged_at_def)
  have tail: "aged_at elapsed remaining buf buf' off" if "off \<in> set offs" for off
  proof -
    have "be32_at buf1 off = be32_at buf off"
      using l same assms(2) that by (intro be32_cong) (auto simp: less_imp_le)
    moreover have "aged_at elapsed remaining buf1 buf' off" using rest that by (simp add: aged_def)
    ultimately show ?thesis by (simp only: aged_at_def)
  qed
  have "buf' ! i = buf ! i" if "i < length buf" "\<not> in_window i (p # offs)" for i
    using that rest l same [of i] by (auto simp: aged_def in_window_def not_less)
  with head tail rest l show ?thesis by (simp add: aged_def)
qed

lemma age_records_aged: "aged elapsed remaining buf (age_records n elapsed remaining buf pos0) (ttl_offsets n buf pos0)"
proof (induction n arbitrary: buf pos0)
  case 0
  then show ?case by (simp add: aged_refl)
next
  case (Suc n)
  show ?case
  proof (cases "skip_name buf pos0")
    case None
    then show ?thesis by (simp add: aged_refl)
  next
    case (Some pos)
    show ?thesis
    proof (cases "be16_at buf pos = None \<or> be16_at buf (pos + 8) = None")
      case True
      with Some show ?thesis by (auto simp: aged_refl split: option.splits)
    next
      case False
      then obtain rtype rdlength where r: "be16_at buf pos = Some rtype" "be16_at buf (pos + 8) = Some rdlength" by auto
      have len: "pos + 9 < length buf" using r(2) by (auto simp: be16_at_def buf_get_def split: if_splits option.splits)
      show ?thesis
      proof (cases "rtype = RR_TYPE_OPT")
        case True
        with Some r Suc.IH show ?thesis by (simp add: RR_FIXED_LEN_def)
      next
        case False
        obtain t where t: "be32_at buf (pos + 4) = Some t"
          using len by (auto simp: be32_at_def be16_at_def buf_get_def split: option.splits if_splits)
        define buf1 where "buf1 = (if t \<noteq> 0 then copy_at (pos + 4) (to_be32 (aged_ttl elapsed remaining t)) buf else buf)"
        have "agree (pos + 10 + rdlength) buf1 buf"
          using be32_bound [OF t] by (auto simp: agree_def buf1_def nth_copy_at)
        from ttl_offsets_cong [OF this]
        have offs: "ttl_offsets (Suc n) buf pos0 = (pos + 4) # ttl_offsets n buf1 (pos + 10 + rdlength)"
          using Some r False by simp
        have "age_records (Suc n) elapsed remaining buf pos0 = age_records n elapsed remaining buf1 (pos + 10 + rdlength)"
          using Some r False t by (simp add: RR_FIXED_LEN_def RR_TTL_OFFSET_def buf1_def Let_def)
        moreover have "\<forall>off \<in> set (ttl_offsets n buf1 (pos + 10 + rdlength)). pos + 4 + 4 < off"
          using ttl_offsets_ge by fastforce
        ultimately show ?thesis
          unfolding offs using aged_step [OF t _ buf1_def Suc.IH] by simp
      qed
    qed
  qed
qed

text \<open>The TTL fields a wire buffer holds: those its header counts and its names lead to.\<close>

definition wire_ttls :: "bytes \<Rightarrow> nat list" where
  "wire_ttls buf =
     (case (be16_at buf 4, be16_at buf 6, be16_at buf 8, be16_at buf 10) of
        (Some qd, Some an, Some ns, Some ar) \<Rightarrow>
          (case skip_questions qd buf 12 of None \<Rightarrow> [] | Some pos \<Rightarrow> ttl_offsets (an + ns + ar) buf pos)
      | _ \<Rightarrow> [])"

lemma age_wire_ttls_aged:
  "aged (u32_saturate elapsed) (u32_saturate remaining) buf (age_wire_ttls buf elapsed remaining) (wire_ttls buf)"
  by (simp add: age_wire_ttls_def age_wire_ttls_inner_def wire_ttls_def age_records_aged aged_refl
      split: option.splits)

text \<open>
  C19: ageing an answer touches its TTLs and nothing else. The buffer keeps its length and every byte
  outside a record's TTL field (the EDNS record's included); a TTL of zero stays zero, and any other
  one becomes what is left of it after its time in the cache, capped at the entry's own remaining
  lifetime and never below one second.
\<close>

theorem ageing_touches_only_ttls:
  "length (age_wire_ttls buf elapsed remaining) = length buf \<and>
   (\<forall>i < length buf. (\<forall>off \<in> set (wire_ttls buf). i < off \<or> off + 4 \<le> i) \<longrightarrow>
      age_wire_ttls buf elapsed remaining ! i = buf ! i) \<and>
   (\<forall>off \<in> set (wire_ttls buf). \<exists>t.
      be32_at buf off = Some t \<and>
      be32_at (age_wire_ttls buf elapsed remaining) off =
        Some (if t = 0 then 0 else max 1 (min (u32_saturate remaining) (t - u32_saturate elapsed))))"
proof -
  have "(\<forall>off \<in> set offs. i < off \<or> off + 4 \<le> i) \<longleftrightarrow> \<not> in_window i offs" for i offs
    by (auto simp: in_window_def not_less not_le)
  note window = this
  show ?thesis
    unfolding window by (rule age_wire_ttls_aged [of elapsed remaining buf, unfolded aged_def aged_at_def aged_ttl_def])
qed

text \<open>A reply with one A record (TTL 300) and an EDNS record whose TTL field is not zero.\<close>

definition ex_wire :: bytes where
  "ex_wire = [7, 7, 129, 128, 0, 0, 0, 1, 0, 0, 0, 1,
              1, 97, 0, 0, 1, 0, 1, 0, 0, 1, 44, 0, 4, 10, 0, 0, 1,
              0, 0, 41, 4, 208, 0, 0, 1, 44, 0, 0]"

lemma ex_wire_bytes:
  "length ex_wire = 40" "ex_wire ! 37 = 44" "be32_at ex_wire 19 = Some 300"
  "be16_at ex_wire 4 = Some 0" "be16_at ex_wire 6 = Some 1" "be16_at ex_wire 8 = Some 0" "be16_at ex_wire 10 = Some 1"
  "be16_at ex_wire 15 = Some 1" "be16_at ex_wire 23 = Some 4" "be16_at ex_wire 30 = Some 41" "be16_at ex_wire 38 = Some 0"
  "skip_name ex_wire 12 = Some 15"  "skip_name ex_wire 29 = Some 30"
  by (simp_all add: ex_wire_def skip_name.simps be32_at_def be16_at_def buf_get_def)

lemma ex_wire_ttls: "wire_ttls ex_wire = [19]"
  by (simp add: wire_ttls_def ex_wire_bytes numeral_2_eq_2 RR_TYPE_OPT_def)

theorem ageing_touches_only_ttls_witness:
  "wire_ttls ex_wire = [19] \<and> length (age_wire_ttls ex_wire 100 150) = 40 \<and>
   be32_at (age_wire_ttls ex_wire 100 150) 19 = Some 150 \<and>
   age_wire_ttls ex_wire 100 150 ! 37 = 44"
  using ageing_touches_only_ttls [of ex_wire 100 150]
  by (simp add: ex_wire_ttls ex_wire_bytes u32_saturate_def)

end
