(* ===== verification/Dns_Message.thy ===== *)
theory Dns_Message
  imports Dns_Cache Net
begin

text \<open>
  DNS messages as the query path sees them, and the classification of upstream answers that
  decides how long one may be kept (\<open>wardnetd-services/src/dns/response.rs\<close>).

  The message types are those of the third-party crate \<open>hickory_proto\<close>: their public fields are
  record fields here and the variants the code names are constructors, all others fall under
  \<open>RT_Other\<close>, \<open>RD_Other\<close> and \<open>OtherCode\<close>. A domain name of that crate is opaque (the type
  variable \<open>'m\<close>); reading and printing names and messages are the fields of the parameter record
  \<open>hickory\<close>.
\<close>

datatype record_type =
  RT_A | RT_AAAA | RT_CNAME | RT_TXT | RT_MX | RT_SRV | RT_PTR | RT_ANY | RT_Other nat

datatype response_code = NoError | NXDomain | ServFail | Refused | OtherCode nat

record 'm soa =
  soa_mname :: 'm
  soa_rname :: 'm
  soa_serial :: nat
  soa_refresh :: nat
  soa_retry :: nat
  soa_expire :: nat
  soa_minimum :: nat

datatype 'm rdata =
    RD_A ipv4
  | RD_AAAA ipv6
  | RD_CNAME 'm
  | RD_TXT "string list"
  | RD_MX nat 'm
  | RD_SRV nat nat nat 'm
  | RD_PTR 'm
  | RD_SOA "'m soa"
  | RD_Other nat

record 'm dns_record =
  dr_name :: 'm
  dr_ttl :: nat
  dr_data :: "'m rdata"

record 'm dns_message =
  dm_id :: nat
  dm_code :: response_code
  dm_authoritative :: bool
  dm_recursion_desired :: bool
  dm_recursion_available :: bool
  dm_queries :: "('m \<times> record_type) list"
  dm_answers :: "'m dns_record list"
  dm_authorities :: "'m dns_record list"
  dm_additionals :: "'m dns_record list"

record 'm hickory =
  h_from_bytes :: "bytes \<Rightarrow> 'm dns_message option"
  h_to_bytes :: "'m dns_message \<Rightarrow> bytes option"
  h_from_str_relaxed :: "string \<Rightarrow> 'm option"
  h_from_utf8 :: "string \<Rightarrow> 'm option"
  h_to_string :: "'m \<Rightarrow> string"

section \<open>How long an answer may be kept\<close>

fun soa_negative_ttl :: "'m dns_record list \<Rightarrow> nat option" where
  "soa_negative_ttl [] = None"
| "soa_negative_ttl (r # rs) =
     (case dr_data r of RD_SOA s \<Rightarrow> Some (min (dr_ttl r) (soa_minimum s)) | _ \<Rightarrow> soa_negative_ttl rs)"

definition classify_response :: "'m dns_message \<Rightarrow> bool \<times> nat" where
  "classify_response parsed =
     (let negative = (dm_code parsed = NXDomain \<or> (dm_code parsed = NoError \<and> dm_answers parsed = [])) in
      if negative then (True, case soa_negative_ttl (dm_authorities parsed) of Some t \<Rightarrow> t | None \<Rightarrow> 0)
      else (False, case map dr_ttl (dm_answers parsed) of [] \<Rightarrow> 0 | t # ts \<Rightarrow> fold min ts t))"

lemma fold_min_le: "fold min ts t \<le> (t :: nat) \<and> (\<forall>u \<in> set ts. fold min ts t \<le> u)"
proof (induction ts arbitrary: t)
  case (Cons a ts)
  from Cons [of "min a t"] show ?case by (auto simp: min_def split: if_splits)
qed simp

text \<open>A positive answer is never kept longer than any of its records allows.\<close>

lemma classify_positive_ttl:
  "classify_response parsed = (False, t) \<Longrightarrow> r \<in> set (dm_answers parsed) \<Longrightarrow> t \<le> dr_ttl r"
  using fold_min_le by (fastforce simp: classify_response_def Let_def split: if_splits list.splits)

end
