(* ===== verification/Authoritative.thy ===== *)
theory Authoritative
  imports Domain_Names Dns_Message "HOL-Library.Mapping" "HOL-Library.Multiset"
begin

text \<open>
  The authoritative view (\<open>wardnetd-services/src/dns/authoritative.rs\<close>): the in-memory snapshot of
  local records, zones and conditional forwarding rules that every query is matched against, and
  the helpers for reverse lookups and upstream addresses. The record, zone and rule types are those
  of \<open>wardnet-common/src/dns.rs\<close>; \<open>'u\<close> is the type of their ids and instants are seconds.

  The view collects the values of a hash map, whose order is unspecified: the order is the
  parameter \<open>hash_order\<close>, and the properties hold for every permutation.
\<close>

section \<open>Records, zones and rules\<close>

datatype dns_record_type = TypeA | TypeAaaa | TypeCname | TypeTxt | TypeMx | TypeSrv

datatype dns_record_source = ManualRecord | DhcpRecord | SystemRecord

datatype dns_zone_source = ManualZone | SystemZone

record 'u local_record =
  lr_id :: 'u
  lr_zone_id :: "'u option"
  lr_domain :: string
  lr_record_type :: dns_record_type
  lr_value :: string
  lr_ttl :: nat
  lr_enabled :: bool
  lr_source :: dns_record_source
  lr_created_at :: int
  lr_updated_at :: int

record 'u dns_zone =
  z_id :: 'u
  z_name :: string
  z_enabled :: bool
  z_source :: dns_zone_source
  z_created_at :: int
  z_updated_at :: int

record 'u forwarding_rule =
  fr_id :: 'u
  fr_domain :: string
  fr_upstream :: string
  fr_enabled :: bool
  fr_created_at :: int

section \<open>The view\<close>

record 'm zone_authority =
  za_name :: string
  za_serial :: nat
  za_soa :: "'m dns_record option"

record 'u wildcard_entry =
  w_suffix :: string
  w_all :: "'u local_record list"
  w_typed :: "(dns_record_type, 'u local_record list) mapping"

record ('u, 'm) authoritative_view =
  av_all_records :: "(string, 'u local_record list) mapping"
  av_typed_records :: "(string, (dns_record_type, 'u local_record list) mapping) mapping"
  av_wildcards :: "'u wildcard_entry list"
  av_forwarding_rules :: "'u forwarding_rule list"
  av_zone_authorities :: "'m zone_authority list"
  av_reverse_ptr :: "(ipv4, 'u local_record list) mapping"

definition view_empty :: "('u, 'm) authoritative_view" where
  "view_empty = \<lparr>av_all_records = Mapping.empty, av_typed_records = Mapping.empty, av_wildcards = [],
     av_forwarding_rules = [], av_zone_authorities = [], av_reverse_ptr = Mapping.empty\<rparr>"

definition NEGATIVE_TTL :: nat where "NEGATIVE_TTL = 300"

definition build_soa :: "'m hickory \<Rightarrow> string \<Rightarrow> nat \<Rightarrow> 'm dns_record option" where
  "build_soa H zone serial =
     (case (h_from_utf8 H (zone @ ''.''), h_from_utf8 H (''ns.'' @ zone @ ''.''),
            h_from_utf8 H (''hostmaster.'' @ zone @ ''.'')) of
        (Some apex, Some mname, Some rname) \<Rightarrow>
          Some \<lparr>dr_name = apex, dr_ttl = NEGATIVE_TTL,
                dr_data = RD_SOA \<lparr>soa_mname = mname, soa_rname = rname, soa_serial = serial,
                  soa_refresh = 3600, soa_retry = 600, soa_expire = 604800,
                  soa_minimum = NEGATIVE_TTL\<rparr>\<rparr>
      | _ \<Rightarrow> None)"

definition u32_or_one :: "int \<Rightarrow> nat" where
  "u32_or_one t = (if 0 \<le> t \<and> t < 2 ^ 32 then nat t else 1)"

definition zone_authority_of :: "'m hickory \<Rightarrow> 'u dns_zone \<Rightarrow> 'm zone_authority" where
  "zone_authority_of H z =
     (let name = to_ascii_lowercase (trim_end_matches (CHR ''.'') (z_name z));
          serial = u32_or_one (z_updated_at z)
      in \<lparr>za_name = name, za_serial = serial, za_soa = build_soa H name serial\<rparr>)"

fun private_zone_of :: "nat \<times> nat \<times> nat \<times> nat \<Rightarrow> string option" where
  "private_zone_of (a, b, c, d) =
     (if a = 10 then Some ''10.in-addr.arpa''
      else if a = 172 \<and> 16 \<le> b \<and> b \<le> 31 then Some (show_nat b @ ''.172.in-addr.arpa'')
      else if a = 192 \<and> b = 168 then Some ''168.192.in-addr.arpa''
      else if a = 169 \<and> b = 254 then Some ''254.169.in-addr.arpa''
      else if a = 100 \<and> 64 \<le> b \<and> b \<le> 127 then Some (show_nat b @ ''.100.in-addr.arpa'')
      else None)"

definition private_reverse_zone :: "ipv4 \<Rightarrow> string option" where
  "private_reverse_zone ip = private_zone_of (octets ip)"

definition push_at :: "'k \<Rightarrow> 'v \<Rightarrow> ('k, 'v list) mapping \<Rightarrow> ('k, 'v list) mapping" where
  "push_at k v m = Mapping.update k (Mapping.lookup_default [] m k @ [v]) m"

text \<open>The hash map of wildcard entries, keyed by their suffix.\<close>

fun push_wildcard :: "string \<Rightarrow> 'u local_record \<Rightarrow> 'u wildcard_entry list \<Rightarrow> 'u wildcard_entry list" where
  "push_wildcard suffix r [] =
     [\<lparr>w_suffix = suffix, w_all = [r], w_typed = push_at (lr_record_type r) r Mapping.empty\<rparr>]"
| "push_wildcard suffix r (w # ws) =
     (if w_suffix w = suffix
      then w\<lparr>w_typed := push_at (lr_record_type r) r (w_typed w), w_all := w_all w @ [r]\<rparr> # ws
      else w # push_wildcard suffix r ws)"

record 'u view_maps =
  vm_all :: "(string, 'u local_record list) mapping"
  vm_typed :: "(string, (dns_record_type, 'u local_record list) mapping) mapping"
  vm_wild :: "'u wildcard_entry list"
  vm_rev :: "(ipv4, 'u local_record list) mapping"

definition enabled_zone_ids :: "'u dns_zone list \<Rightarrow> 'u set" where
  "enabled_zone_ids zones = set (map z_id (filter z_enabled zones))"

definition private_target :: "'u local_record \<Rightarrow> ipv4 option" where
  "private_target r =
     (if lr_record_type r = TypeA
      then (case parse_ipv4 (lr_value r) of
              Some v4 \<Rightarrow> (if private_reverse_zone v4 \<noteq> None then Some v4 else None)
            | None \<Rightarrow> None)
      else None)"

text \<open>One turn of the loop over the records.\<close>

definition add_record :: "'u dns_zone list \<Rightarrow> 'u local_record \<Rightarrow> 'u view_maps \<Rightarrow> 'u view_maps" where
  "add_record zones r m =
     (if \<not> lr_enabled r then m
      else if (case lr_zone_id r of Some z \<Rightarrow> z \<notin> enabled_zone_ids zones | None \<Rightarrow> False) then m
      else
        (let domain = to_ascii_lowercase (trim_end_matches (CHR ''.'') (lr_domain r));
             rtype = lr_record_type r
         in case strip_prefix ''*.'' domain of
              Some suffix \<Rightarrow> m\<lparr>vm_wild := push_wildcard suffix r (vm_wild m)\<rparr>
            | None \<Rightarrow>
                m\<lparr>vm_rev := (case private_target r of Some v4 \<Rightarrow> push_at v4 r (vm_rev m) | None \<Rightarrow> vm_rev m),
                  vm_typed := Mapping.update domain
                    (push_at rtype r (Mapping.lookup_default Mapping.empty (vm_typed m) domain)) (vm_typed m),
                  vm_all := push_at domain r (vm_all m)\<rparr>))"

definition sort_longest_first :: "('a \<Rightarrow> string) \<Rightarrow> 'a list \<Rightarrow> 'a list" where
  "sort_longest_first key = sort_key (\<lambda>x. - int (length (key x)))"

definition view_build ::
    "'m hickory \<Rightarrow> ('u wildcard_entry list \<Rightarrow> 'u wildcard_entry list) \<Rightarrow> 'u dns_zone list \<Rightarrow>
     'u local_record list \<Rightarrow> 'u forwarding_rule list \<Rightarrow> ('u, 'm) authoritative_view" where
  "view_build H hash_order zones records rules =
     (let m = fold (add_record zones) records
                \<lparr>vm_all = Mapping.empty, vm_typed = Mapping.empty, vm_wild = [], vm_rev = Mapping.empty\<rparr>
      in \<lparr>av_all_records = vm_all m,
          av_typed_records = vm_typed m,
          av_wildcards = sort_longest_first w_suffix (hash_order (vm_wild m)),
          av_forwarding_rules = sort_longest_first fr_domain
            (map (\<lambda>r. r\<lparr>fr_domain := to_ascii_lowercase (fr_domain r)\<rparr>) (filter fr_enabled rules)),
          av_zone_authorities = sort_longest_first za_name
            (map (zone_authority_of H) (filter z_enabled zones)),
          av_reverse_ptr = vm_rev m\<rparr>)"

section \<open>Lookups\<close>

definition wildcard_covers :: "string \<Rightarrow> string \<Rightarrow> bool" where
  "wildcard_covers suffix domain_lower =
     (case strip_suffix suffix domain_lower of
        None \<Rightarrow> False
      | Some prefix \<Rightarrow> length prefix > 1 \<and> ends_with ''.'' prefix)"

definition match_wildcard :: "('u, 'm) authoritative_view \<Rightarrow> string \<Rightarrow> 'u wildcard_entry option" where
  "match_wildcard V domain_lower = find (\<lambda>w. wildcard_covers (w_suffix w) domain_lower) (av_wildcards V)"

definition view_lookup ::
    "('u, 'm) authoritative_view \<Rightarrow> string \<Rightarrow> dns_record_type \<Rightarrow> 'u local_record list option" where
  "view_lookup V domain_lower rtype =
     (case Mapping.lookup (av_typed_records V) domain_lower of
        Some type_map \<Rightarrow> Some (case Mapping.lookup type_map rtype of Some rs \<Rightarrow> rs | None \<Rightarrow> [])
      | None \<Rightarrow>
          (case match_wildcard V domain_lower of
             None \<Rightarrow> None
           | Some w \<Rightarrow> Mapping.lookup (w_typed w) rtype))"

definition lookup_all :: "('u, 'm) authoritative_view \<Rightarrow> string \<Rightarrow> 'u local_record list option" where
  "lookup_all V domain_lower =
     (case Mapping.lookup (av_all_records V) domain_lower of
        Some rs \<Rightarrow> Some rs
      | None \<Rightarrow> map_option w_all (match_wildcard V domain_lower))"

definition first_of :: "'a list option \<Rightarrow> 'a option" where
  "first_of xs = (case xs of Some (x # _) \<Rightarrow> Some x | _ \<Rightarrow> None)"

definition lookup_cname :: "('u, 'm) authoritative_view \<Rightarrow> string \<Rightarrow> 'u local_record option" where
  "lookup_cname V domain_lower =
     (case Mapping.lookup (av_typed_records V) domain_lower of
        Some type_map \<Rightarrow> first_of (Mapping.lookup type_map TypeCname)
      | None \<Rightarrow>
          (case match_wildcard V domain_lower of
             None \<Rightarrow> None
           | Some w \<Rightarrow> first_of (Mapping.lookup (w_typed w) TypeCname)))"

definition match_forwarding_rule :: "('u, 'm) authoritative_view \<Rightarrow> string \<Rightarrow> 'u forwarding_rule option" where
  "match_forwarding_rule V domain_lower =
     find (\<lambda>r. suffix_covers (fr_domain r) domain_lower) (av_forwarding_rules V)"

definition authoritative_zone :: "('u, 'm) authoritative_view \<Rightarrow> string \<Rightarrow> 'm zone_authority option" where
  "authoritative_zone V domain_lower =
     find (\<lambda>z. suffix_covers (za_name z) domain_lower) (av_zone_authorities V)"

definition reverse_lookup :: "('u, 'm) authoritative_view \<Rightarrow> ipv4 \<Rightarrow> 'u local_record list option" where
  "reverse_lookup V ip = Mapping.lookup (av_reverse_ptr V) ip"

section \<open>Reverse names and upstream addresses\<close>

definition parse_ptr_ipv4 :: "string \<Rightarrow> ipv4 option" where
  "parse_ptr_ipv4 name_lower =
     (case strip_suffix ''.in-addr.arpa'' name_lower of
        None \<Rightarrow> None
      | Some labels \<Rightarrow>
          (case map (parse_uint 255) (split_char (CHR ''.'') labels) of
             [Some a, Some b, Some c, Some d] \<Rightarrow> Some (ipv4_new d c b a)
           | _ \<Rightarrow> None))"

text \<open>\<open>SocketAddr\<close> and its parser in \<open>std::net\<close>.\<close>

record socket_addr =
  sa_ip :: ip_addr
  sa_scope :: nat
  sa_port :: nat

definition read_port :: "string \<Rightarrow> (nat \<times> string) option" where
  "read_port s = (case strip_prefix '':'' s of None \<Rightarrow> None | Some r \<Rightarrow> read_number 10 65535 (length r) True r)"

definition read_scope_id :: "string \<Rightarrow> nat \<times> string" where
  "read_scope_id s =
     (case (case strip_prefix ''%'' s of
              None \<Rightarrow> None | Some r \<Rightarrow> read_number 10 (2 ^ 32 - 1) (length r) True r) of
        Some x \<Rightarrow> x
      | None \<Rightarrow> (0, s))"

definition read_socket_addr_v4 :: "string \<Rightarrow> (socket_addr \<times> string) option" where
  "read_socket_addr_v4 s =
     (case read_ipv4_addr s of
        None \<Rightarrow> None
      | Some (ip, s1) \<Rightarrow>
          (case read_port s1 of
             None \<Rightarrow> None
           | Some (port, s2) \<Rightarrow> Some (\<lparr>sa_ip = V4 ip, sa_scope = 0, sa_port = port\<rparr>, s2)))"

definition read_socket_addr_v6 :: "string \<Rightarrow> (socket_addr \<times> string) option" where
  "read_socket_addr_v6 s =
     (case strip_prefix ''['' s of None \<Rightarrow> None | Some s1 \<Rightarrow>
      (case read_ipv6_addr s1 of None \<Rightarrow> None | Some (ip, s2) \<Rightarrow>
       (let (scope, s3) = read_scope_id s2 in
        (case strip_prefix '']'' s3 of None \<Rightarrow> None | Some s4 \<Rightarrow>
         (case read_port s4 of None \<Rightarrow> None | Some (port, s5) \<Rightarrow>
            Some (\<lparr>sa_ip = V6 ip, sa_scope = scope, sa_port = port\<rparr>, s5))))))"

definition parse_socket_addr :: "string \<Rightarrow> socket_addr option" where
  "parse_socket_addr s =
     (case (case read_socket_addr_v4 s of Some x \<Rightarrow> Some x | None \<Rightarrow> read_socket_addr_v6 s) of
        Some (a, []) \<Rightarrow> Some a
      | _ \<Rightarrow> None)"

definition parse_conditional_upstream :: "string \<Rightarrow> socket_addr option" where
  "parse_conditional_upstream s =
     (let with_port =
        (if starts_with ''['' s
         then (if parse_socket_addr s \<noteq> None then s else s @ '':53'')
         else if CHR '':'' \<in> set s
         then (if parse_socket_addr s \<noteq> None then s else ''['' @ s @ '']:53'')
         else s @ '':53'')
      in parse_socket_addr with_port)"

section \<open>Longest match first\<close>

text \<open>
  The three matchers (wildcards, forwarding rules, zones) search a list sorted by decreasing length
  for the first entry whose name covers the query. What they rely on: two covering names of the same
  length are equal.
\<close>

lemma set_sort_longest_first [simp]: "set (sort_longest_first key xs) = set xs"
  by (simp add: sort_longest_first_def)

locale longest_match =
  fixes covers :: "string \<Rightarrow> string \<Rightarrow> bool"
  assumes covers_unique: "covers a d \<Longrightarrow> covers b d \<Longrightarrow> length a = length b \<Longrightarrow> a = b"
begin

lemma find_None: "find (\<lambda>x. covers (key x) d) (sort_longest_first key xs) = None \<longleftrightarrow> (\<forall>x \<in> set xs. \<not> covers (key x) d)"
  by (auto simp: find_None_iff)

lemma find_longest:
  assumes "find (\<lambda>x. covers (key x) d) (sort_longest_first key xs) = Some x"
  shows "x \<in> set xs \<and> covers (key x) d \<and> (\<forall>y \<in> set xs. covers (key y) d \<longrightarrow> length (key y) \<le> length (key x))"
proof -
  let ?ys = "sort_longest_first key xs"
  obtain i where i: "i < length ?ys" "covers (key (?ys ! i)) d" "x = ?ys ! i"
    "\<forall>j < i. \<not> covers (key (?ys ! j)) d"
    using assms unfolding find_Some_iff by blast
  have x: "x \<in> set ?ys" unfolding i(3) using i(1) by (rule nth_mem)
  have "length (key y) \<le> length (key x)" if y: "y \<in> set xs" "covers (key y) d" for y
  proof -
    from y(1) have "y \<in> set ?ys" by simp
    then obtain j where j: "j < length ?ys" "y = ?ys ! j" unfolding in_set_conv_nth by auto
    with i y have "i \<le> j" by (meson not_le)
    moreover have "sorted (map (\<lambda>x. - int (length (key x))) ?ys)"
      by (simp add: sort_longest_first_def)
    ultimately have "- int (length (key (?ys ! i))) \<le> - int (length (key (?ys ! j)))"
      using j by (auto simp: sorted_iff_nth_mono)
    then show ?thesis using i(3) j(2) by simp
  qed
  with x i show ?thesis by simp
qed

text \<open>The result does not depend on the order the entries were given in.\<close>

lemma find_unique:
  assumes "inj_on key (set xs)" and "x \<in> set xs" and "covers (key x) d"
    and "\<forall>y \<in> set xs. covers (key y) d \<longrightarrow> length (key y) \<le> length (key x)"
  shows "find (\<lambda>x. covers (key x) d) (sort_longest_first key xs) = Some x"
proof -
  obtain y where y: "find (\<lambda>x. covers (key x) d) (sort_longest_first key xs) = Some y"
    using assms(2,3) find_None by (metis not_Some_eq)
  from find_longest [OF y] have "key y = key x"
    using assms covers_unique by (metis le_antisym)
  with find_longest [OF y] assms(1,2) y show ?thesis by (auto dest: inj_onD)
qed

end

lemma in_subtree_unique: "in_subtree a d \<Longrightarrow> in_subtree b d \<Longrightarrow> length a = length b \<Longrightarrow> a = b"
  using in_subtree_longer in_subtree_length by (metis order_refl less_irrefl)

interpretation by_suffix: longest_match suffix_covers
  by unfold_locales (simp add: suffix_covers_in_subtree in_subtree_unique)

lemma wildcard_covers_iff: "wildcard_covers s d \<longleftrightarrow> (\<exists>p. p \<noteq> [] \<and> d = p @ ''.'' @ s)"
proof -
  have "1 < length p \<and> ends_with ''.'' p \<longleftrightarrow> (\<exists>q. q \<noteq> [] \<and> p = q @ ''.'')" for p
    by (auto simp: ends_with_iff)
  then show ?thesis by (auto simp: wildcard_covers_def str_eqs split: option.splits)
qed

lemma wildcard_covers_subtree: "wildcard_covers s d \<Longrightarrow> in_subtree s d"
  by (auto simp: wildcard_covers_iff in_subtree_def)

interpretation by_wildcard: longest_match wildcard_covers
  by unfold_locales (meson wildcard_covers_subtree in_subtree_unique)

section \<open>What the maps hold\<close>

definition record_served :: "'u dns_zone list \<Rightarrow> 'u local_record \<Rightarrow> bool" where
  "record_served zones r \<longleftrightarrow>
     lr_enabled r \<and> (\<forall>z. lr_zone_id r = Some z \<longrightarrow> (\<exists>zone \<in> set zones. z_enabled zone \<and> z_id zone = z))"

abbreviation record_name :: "'u local_record \<Rightarrow> string" where
  "record_name r \<equiv> normalize_owned (lr_domain r)"

definition exact_records :: "'u dns_zone list \<Rightarrow> 'u local_record list \<Rightarrow> string \<Rightarrow> 'u local_record list" where
  "exact_records zones records d =
     filter (\<lambda>r. record_served zones r \<and> strip_prefix ''*.'' (record_name r) = None \<and> record_name r = d) records"

definition wild_records :: "'u dns_zone list \<Rightarrow> 'u local_record list \<Rightarrow> string \<Rightarrow> 'u local_record list" where
  "wild_records zones records s =
     filter (\<lambda>r. record_served zones r \<and> strip_prefix ''*.'' (record_name r) = Some s) records"

definition ptr_records :: "'u dns_zone list \<Rightarrow> 'u local_record list \<Rightarrow> ipv4 \<Rightarrow> 'u local_record list" where
  "ptr_records zones records ip =
     filter (\<lambda>r. record_served zones r \<and> strip_prefix ''*.'' (record_name r) = None \<and> private_target r = Some ip) records"

abbreviation of_type :: "dns_record_type \<Rightarrow> 'u local_record list \<Rightarrow> 'u local_record list" where
  "of_type t \<equiv> filter (\<lambda>r. lr_record_type r = t)"

definition some_list :: "'a list \<Rightarrow> 'a list option" where
  "some_list xs = (if xs = [] then None else Some xs)"

lemma some_list_eqs [simp]:
  "some_list [] = None" "xs \<noteq> [] \<Longrightarrow> some_list xs = Some xs" "some_list (xs @ [x]) = Some (xs @ [x])"
  "some_list xs = None \<longleftrightarrow> xs = []" "some_list xs = Some ys \<longleftrightarrow> xs = ys \<and> ys \<noteq> []"
  by (auto simp: some_list_def)

definition grouped :: "(dns_record_type, 'u local_record list) mapping \<Rightarrow> 'u local_record list \<Rightarrow> bool" where
  "grouped m rs \<longleftrightarrow> (\<forall>t. Mapping.lookup m t = some_list (of_type t rs))"

lemma lookup_push_at:
  "Mapping.lookup (push_at k v m) k' =
     (if k' = k then Some ((case Mapping.lookup m k of Some xs \<Rightarrow> xs | None \<Rightarrow> []) @ [v]) else Mapping.lookup m k')"
  by (simp add: push_at_def lookup_default_def Mapping.lookup_update')

lemma grouped_empty: "grouped Mapping.empty []"
  by (simp add: grouped_def)

lemma grouped_push: "grouped m rs \<Longrightarrow> grouped (push_at (lr_record_type r) r m) (rs @ [r])"
  by (auto simp: grouped_def lookup_push_at some_list_def)

definition entry_ok :: "(string \<Rightarrow> 'u local_record list) \<Rightarrow> 'u wildcard_entry \<Rightarrow> bool" where
  "entry_ok f w \<longleftrightarrow> w_all w = f (w_suffix w) \<and> grouped (w_typed w) (w_all w)"

definition wild_ok :: "'u wildcard_entry list \<Rightarrow> (string \<Rightarrow> 'u local_record list) \<Rightarrow> bool" where
  "wild_ok ws f \<longleftrightarrow>
     distinct (map w_suffix ws) \<and> (\<forall>s. f s \<noteq> [] \<longleftrightarrow> s \<in> w_suffix ` set ws) \<and> (\<forall>w \<in> set ws. entry_ok f w)"

lemma push_wildcard_suffixes: "w_suffix ` set (push_wildcard s r ws) = insert s (w_suffix ` set ws)"
  by (induction ws) auto

lemma push_wildcard_distinct: "distinct (map w_suffix ws) \<Longrightarrow> distinct (map w_suffix (push_wildcard s r ws))"
proof (induction ws)
  case (Cons w ws)
  have "w_suffix w \<notin> w_suffix ` set (push_wildcard s r ws)" if "w_suffix w \<noteq> s"
    using Cons.prems that by (simp add: push_wildcard_suffixes)
  with Cons show ?case by auto
qed simp

lemma push_wildcard_entries:
  assumes "distinct (map w_suffix ws)" and "\<forall>w \<in> set ws. entry_ok f w"
    and "s \<notin> w_suffix ` set ws \<longrightarrow> f s = []"
    and g: "g s = f s @ [r]" "\<And>s'. s' \<noteq> s \<Longrightarrow> g s' = f s'"
  shows "\<forall>w \<in> set (push_wildcard s r ws). entry_ok g w"
  using assms(1-3)
proof (induction ws)
  case Nil
  then show ?case using grouped_push [OF grouped_empty, of r] by (simp add: entry_ok_def g)
next
  case (Cons w ws)
  have other: "entry_ok g w'" if "entry_ok f w'" "w_suffix w' \<noteq> s" for w'
    using that by (auto simp: entry_ok_def g)
  show ?case
  proof (cases "w_suffix w = s")
    case True
    with Cons.prems(1) have "\<forall>w' \<in> set ws. w_suffix w' \<noteq> s" by (force simp: image_iff)
    moreover have "entry_ok g (w\<lparr>w_typed := push_at (lr_record_type r) r (w_typed w), w_all := w_all w @ [r]\<rparr>)"
      using True Cons.prems(2) grouped_push [of "w_typed w" "w_all w" r] by (auto simp: entry_ok_def g)
    ultimately show ?thesis using True Cons.prems(2) other by simp
  next
    case False
    with Cons other show ?thesis by simp
  qed
qed

lemma push_wildcard_ok:
  assumes "wild_ok ws f" and g: "g s = f s @ [r]" "\<And>s'. s' \<noteq> s \<Longrightarrow> g s' = f s'"
  shows "wild_ok (push_wildcard s r ws) g"
proof -
  have d: "distinct (map w_suffix ws)" and e: "\<forall>w \<in> set ws. entry_ok f w"
    and k: "\<And>s. f s \<noteq> [] \<longleftrightarrow> s \<in> w_suffix ` set ws"
    using assms(1) unfolding wild_ok_def by blast+
  have "\<forall>w \<in> set (push_wildcard s r ws). entry_ok g w"
    by (rule push_wildcard_entries [where f = f, OF d e]) (use k in blast, fact g(1), fact g(2))
  moreover have "g s' \<noteq> [] \<longleftrightarrow> s' \<in> insert s (w_suffix ` set ws)" for s'
    by (cases "s' = s") (simp_all add: g k)
  ultimately show ?thesis
    by (simp add: wild_ok_def push_wildcard_suffixes push_wildcard_distinct [OF d])
qed

definition maps_ok :: "'u dns_zone list \<Rightarrow> 'u local_record list \<Rightarrow> 'u view_maps \<Rightarrow> bool" where
  "maps_ok zones rs m \<longleftrightarrow>
     (\<forall>d. Mapping.lookup (vm_all m) d = some_list (exact_records zones rs d)) \<and>
     (\<forall>d. Mapping.lookup (vm_typed m) d = None \<longleftrightarrow> exact_records zones rs d = []) \<and>
     (\<forall>d tm. Mapping.lookup (vm_typed m) d = Some tm \<longrightarrow> grouped tm (exact_records zones rs d)) \<and>
     wild_ok (vm_wild m) (wild_records zones rs) \<and>
     (\<forall>ip. Mapping.lookup (vm_rev m) ip = some_list (ptr_records zones rs ip))"

lemma maps_ok_empty:
  "maps_ok zones [] \<lparr>vm_all = Mapping.empty, vm_typed = Mapping.empty, vm_wild = [], vm_rev = Mapping.empty\<rparr>"
  by (simp add: maps_ok_def wild_ok_def exact_records_def wild_records_def ptr_records_def)


lemma enabled_zone_ids_iff: "z \<in> enabled_zone_ids zones \<longleftrightarrow> (\<exists>zone \<in> set zones. z_enabled zone \<and> z_id zone = z)"
  by (auto simp: enabled_zone_ids_def)

lemma included_iff:
  "lr_enabled r \<and> \<not> (case lr_zone_id r of Some z \<Rightarrow> z \<notin> enabled_zone_ids zones | None \<Rightarrow> False) \<longleftrightarrow> record_served zones r"
  by (cases "lr_zone_id r") (simp_all add: record_served_def enabled_zone_ids_iff)

lemma maps_ok_step: "maps_ok zones rs m \<Longrightarrow> maps_ok zones (rs @ [r]) (add_record zones r m)"
proof (cases "record_served zones r")
  case False
  assume "maps_ok zones rs m"
  moreover have "add_record zones r m = m" using False unfolding included_iff [symmetric] by (auto simp: add_record_def)
  moreover have "wild_records zones (rs @ [r]) = wild_records zones rs" using False by (auto simp: wild_records_def)
  ultimately show ?thesis using False by (simp add: maps_ok_def exact_records_def ptr_records_def)
next
  case True
  note incl = True [unfolded included_iff [symmetric]]
  assume ok: "maps_ok zones rs m"
  show ?thesis
  proof (cases "strip_prefix ''*.'' (record_name r)")
    case (Some s)
    have "add_record zones r m = m\<lparr>vm_wild := push_wildcard s r (vm_wild m)\<rparr>"
      using incl Some by (simp add: add_record_def normalize_owned_def [symmetric])
    moreover have "wild_ok (push_wildcard s r (vm_wild m)) (wild_records zones (rs @ [r]))"
      by (rule push_wildcard_ok [of _ "wild_records zones rs"])
        (use ok True Some in \<open>simp_all add: maps_ok_def wild_records_def\<close>)
    ultimately show ?thesis
      using ok True Some by (simp add: maps_ok_def exact_records_def ptr_records_def)
  next
    case None
    let ?d = "record_name r"
    let ?tm = "Mapping.lookup_default Mapping.empty (vm_typed m) ?d"
    have tm: "grouped ?tm (exact_records zones rs ?d)"
    proof (cases "Mapping.lookup (vm_typed m) ?d")
      case None
      with ok have "exact_records zones rs ?d = []" by (simp add: maps_ok_def)
      with None show ?thesis by (simp add: lookup_default_def grouped_empty)
    next
      case (Some tm)
      with ok show ?thesis by (simp add: maps_ok_def lookup_default_def)
    qed
    have upd: "add_record zones r m =
        m\<lparr>vm_rev := (case private_target r of Some v4 \<Rightarrow> push_at v4 r (vm_rev m) | None \<Rightarrow> vm_rev m),
          vm_typed := Mapping.update ?d (push_at (lr_record_type r) r ?tm) (vm_typed m),
          vm_all := push_at ?d r (vm_all m)\<rparr>"
      using incl None by (simp add: add_record_def normalize_owned_def [symmetric] Let_def)
    have ex: "exact_records zones (rs @ [r]) d = exact_records zones rs d @ (if d = ?d then [r] else [])" for d
      using True None by (auto simp: exact_records_def)
    have wr: "wild_records zones (rs @ [r]) = wild_records zones rs"
      using None by (auto simp: wild_records_def fun_eq_iff)
    have pr: "ptr_records zones (rs @ [r]) ip = ptr_records zones rs ip @ (if private_target r = Some ip then [r] else [])" for ip
      using True None by (auto simp: ptr_records_def)
    show ?thesis
      using ok grouped_push [OF tm, of r]
      by (auto simp: maps_ok_def upd ex wr pr lookup_push_at Mapping.lookup_update' some_list_def split: option.splits)
  qed
qed

lemma maps_ok_fold:
  "maps_ok zones rs (fold (add_record zones) rs
     \<lparr>vm_all = Mapping.empty, vm_typed = Mapping.empty, vm_wild = [], vm_rev = Mapping.empty\<rparr>)"
  by (induction rs rule: rev_induct) (simp_all add: maps_ok_empty maps_ok_step)

section \<open>The lookups against a walk up the tree\<close>

text \<open>
  The reference for wildcards: walk from the queried name towards the root and stop at the first
  proper parent that has wildcard records.
\<close>

definition parents :: "string \<Rightarrow> string list" where
  "parents d = map (\<lambda>i. drop (Suc i) d) (filter (\<lambda>i. d ! i = CHR ''.'') [1..<length d])"

definition best_wildcard :: "'u dns_zone list \<Rightarrow> 'u local_record list \<Rightarrow> string \<Rightarrow> string option" where
  "best_wildcard zones records d = find (\<lambda>s. wild_records zones records s \<noteq> []) (parents d)"

lemma set_parents: "s \<in> set (parents d) \<longleftrightarrow> wildcard_covers s d"
proof
  assume "s \<in> set (parents d)"
  then obtain i where i: "1 \<le> i" "i < length d" "d ! i = CHR ''.''" "s = drop (Suc i) d"
    by (auto simp: parents_def)
  then have "d = take i d @ ''.'' @ s" using id_take_nth_drop [of i d] by simp
  moreover have "take i d \<noteq> []" using i by auto
  ultimately show "wildcard_covers s d" unfolding wildcard_covers_iff by blast
next
  assume "wildcard_covers s d"
  then obtain p where p: "p \<noteq> []" "d = p @ ''.'' @ s" by (auto simp: wildcard_covers_iff)
  then have "length p \<in> set (filter (\<lambda>i. d ! i = CHR ''.'') [1..<length d])" "drop (Suc (length p)) d = s"
    by (auto simp: nth_append Suc_le_eq)
  then show "s \<in> set (parents d)" unfolding parents_def by force
qed

lemma parents_sorted: "sorted_wrt (\<lambda>a b. length b \<le> length a) (parents d)"
proof -
  have "sorted_wrt (<) (filter P [1..<length d])" for P
    using sorted_wrt_filter_map [of "\<lambda>i. i" "[1..<length d]" P] sorted_wrt_upt by simp
  then show ?thesis
    unfolding parents_def sorted_wrt_map by (rule sorted_wrt_mono_rel [rotated]) auto
qed

lemma find_sorted_longest:
  "sorted_wrt (\<lambda>a b. length b \<le> length a) xs \<Longrightarrow> find P xs = Some s \<Longrightarrow>
   s \<in> set xs \<and> P s \<and> (\<forall>s' \<in> set xs. P s' \<longrightarrow> length s' \<le> length s)"
  by (induction xs) (auto split: if_splits)

lemma best_wildcard_None: "best_wildcard zones records d = None \<longleftrightarrow>
    (\<forall>s. wild_records zones records s \<noteq> [] \<longrightarrow> \<not> wildcard_covers s d)"
  by (auto simp: best_wildcard_def find_None_iff set_parents)

lemma best_wildcard_Some: "best_wildcard zones records d = Some s \<Longrightarrow>
    wild_records zones records s \<noteq> [] \<and> wildcard_covers s d \<and>
    (\<forall>s'. wild_records zones records s' \<noteq> [] \<longrightarrow> wildcard_covers s' d \<longrightarrow> length s' \<le> length s)"
proof -
  assume "best_wildcard zones records d = Some s"
  from find_sorted_longest [OF parents_sorted this [unfolded best_wildcard_def]]
  show ?thesis by (simp add: set_parents)
qed

lemma view_build_maps:
  obtains m where "maps_ok zones records m"
    and "av_all_records (view_build H hash_order zones records rules) = vm_all m"
    and "av_typed_records (view_build H hash_order zones records rules) = vm_typed m"
    and "av_wildcards (view_build H hash_order zones records rules) = sort_longest_first w_suffix (hash_order (vm_wild m))"
    and "av_reverse_ptr (view_build H hash_order zones records rules) = vm_rev m"
  by (rule that [OF maps_ok_fold]) (simp_all add: view_build_def Let_def)

lemma match_wildcard_best:
  assumes "mset (hash_order ws) = mset ws" and "wild_ok ws (wild_records zones records)"
    and "av_wildcards V = sort_longest_first w_suffix (hash_order ws)"
  shows "case best_wildcard zones records d of
      None \<Rightarrow> match_wildcard V d = None
    | Some s \<Rightarrow> \<exists>w. match_wildcard V d = Some w \<and> w_all w = wild_records zones records s \<and>
                   grouped (w_typed w) (wild_records zones records s)"
proof -
  have set: "set (hash_order ws) = set ws" using assms(1) by (rule mset_eq_setD)
  have k: "wild_records zones records s \<noteq> [] \<longleftrightarrow> s \<in> w_suffix ` set ws" for s
    using assms(2) by (simp add: wild_ok_def)
  have inj: "inj_on w_suffix (set (hash_order ws))"
    unfolding set using assms(2) by (simp add: wild_ok_def distinct_map)
  show ?thesis
  proof (cases "best_wildcard zones records d")
    case None
    then have "\<forall>w \<in> set (hash_order ws). \<not> wildcard_covers (w_suffix w) d"
      using k unfolding best_wildcard_None set by blast
    with None show ?thesis by (simp add: match_wildcard_def assms(3) by_wildcard.find_None)
  next
    case (Some s)
    note best = best_wildcard_Some [OF Some]
    then obtain w where w: "w \<in> set (hash_order ws)" "w_suffix w = s" unfolding set k by blast
    have "\<forall>y \<in> set (hash_order ws). wildcard_covers (w_suffix y) d \<longrightarrow> length (w_suffix y) \<le> length (w_suffix w)"
      using best k w(2) unfolding set by blast
    then have "match_wildcard V d = Some w"
      unfolding match_wildcard_def assms(3) using best w by (intro by_wildcard.find_unique [OF inj]) simp_all
    moreover have "entry_ok (wild_records zones records) w" using w(1) assms(2) unfolding set by (simp add: wild_ok_def)
    ultimately show ?thesis using Some w(2) by (auto simp: entry_ok_def)
  qed
qed

text \<open>
  C25: local records are found by name and then by the nearest wildcard. A name with records of its
  own answers with exactly those of the asked type, none for another type; otherwise the wildcard
  records of the nearest enclosing name answer, and only for a type they carry. Disabled records
  and records of disabled zones never show, and the order a hash map lists its entries in does not
  matter.
\<close>

theorem lookup_walks_up:
  assumes "\<And>ws. mset (hash_order ws) = mset ws" and "V = view_build H hash_order zones records rules"
  shows "view_lookup V d t =
      (if exact_records zones records d \<noteq> [] then Some (of_type t (exact_records zones records d))
       else (case best_wildcard zones records d of
               None \<Rightarrow> None
             | Some s \<Rightarrow> some_list (of_type t (wild_records zones records s)))) \<and>
    lookup_all V d =
      (if exact_records zones records d \<noteq> [] then Some (exact_records zones records d)
       else map_option (wild_records zones records) (best_wildcard zones records d))"
proof -
  obtain m where m: "maps_ok zones records m" "av_all_records V = vm_all m" "av_typed_records V = vm_typed m"
    "av_wildcards V = sort_longest_first w_suffix (hash_order (vm_wild m))"
    unfolding assms(2) by (rule view_build_maps)
  from m(1) have w: "wild_ok (vm_wild m) (wild_records zones records)" by (simp add: maps_ok_def)
  note best = match_wildcard_best [where d = d and hash_order = hash_order, OF assms(1) [of "vm_wild m"] w m(4)]
  show ?thesis
  proof (cases "exact_records zones records d = []")
    case True
    with m have "Mapping.lookup (av_typed_records V) d = None" "Mapping.lookup (av_all_records V) d = None"
      by (simp_all add: maps_ok_def)
    with True best show ?thesis
      by (cases "best_wildcard zones records d") (auto simp: view_lookup_def lookup_all_def grouped_def)
  next
    case False
    with m obtain tm where "Mapping.lookup (av_typed_records V) d = Some tm" "grouped tm (exact_records zones records d)"
      "Mapping.lookup (av_all_records V) d = Some (exact_records zones records d)"
      by (auto simp: maps_ok_def)
    with False show ?thesis
      by (simp add: view_lookup_def lookup_all_def grouped_def some_list_def)
  qed
qed

text \<open>Example records: two nested wildcards and a name of its own below the inner one.\<close>

definition ex_record :: "nat \<Rightarrow> string \<Rightarrow> dns_record_type \<Rightarrow> string \<Rightarrow> nat local_record" where
  "ex_record rid domain t v = \<lparr>lr_id = rid, lr_zone_id = None, lr_domain = domain, lr_record_type = t, lr_value = v,
     lr_ttl = 300, lr_enabled = True, lr_source = ManualRecord, lr_created_at = 0, lr_updated_at = 0\<rparr>"

definition ex_outer :: "nat local_record" where "ex_outer = ex_record 1 ''*.com'' TypeTxt ''outer''"
definition ex_inner :: "nat local_record" where "ex_inner = ex_record 2 ''*.ABC.com.'' TypeTxt ''inner''"
definition ex_exact :: "nat local_record" where "ex_exact = ex_record 3 ''x.abc.com'' TypeCname ''y.abc.com''"

definition ex_names :: "string hickory" where
  "ex_names = \<lparr>h_from_bytes = (\<lambda>_. None), h_to_bytes = (\<lambda>m. Some [word_of_nat (dm_id m)]),
     h_from_str_relaxed = Some, h_from_utf8 = Some, h_to_string = id\<rparr>"

lemma ex_record_facts:
  "record_name ex_outer = ''*.com''" "record_name ex_inner = ''*.abc.com''" "record_name ex_exact = ''x.abc.com''"
  "record_served [] ex_outer" "record_served [] ex_inner" "record_served [] ex_exact"
  "lr_record_type ex_inner = TypeTxt" "lr_record_type ex_exact = TypeCname"
  by (code_simp, code_simp, code_simp)
    (simp_all add: ex_outer_def ex_inner_def ex_exact_def ex_record_def record_served_def)

lemma ex_parents: "parents ''z.abc.com'' = [''abc.com'', ''com'']"
  by code_simp

theorem lookup_walks_up_witness:
  "view_lookup (view_build ex_names rev [] [ex_outer, ex_inner, ex_exact] []) ''x.abc.com'' TypeTxt = Some [] \<and>
   view_lookup (view_build ex_names rev [] [ex_outer, ex_inner, ex_exact] []) ''z.abc.com'' TypeTxt = Some [ex_inner] \<and>
   view_lookup (view_build ex_names rev [] [ex_outer, ex_inner, ex_exact] []) ''z.abc.com'' TypeA = None"
  using lookup_walks_up [OF _ refl, of rev ex_names "[]" "[ex_outer, ex_inner, ex_exact]" "[]" "''x.abc.com''" TypeTxt]
    lookup_walks_up [OF _ refl, of rev ex_names "[]" "[ex_outer, ex_inner, ex_exact]" "[]" "''z.abc.com''" TypeTxt]
    lookup_walks_up [OF _ refl, of rev ex_names "[]" "[ex_outer, ex_inner, ex_exact]" "[]" "''z.abc.com''" TypeA]
  by (simp add: exact_records_def wild_records_def best_wildcard_def ex_record_facts ex_parents)

text \<open>The closest enclosing name among a set of names.\<close>

definition closest :: "string set \<Rightarrow> string \<Rightarrow> string option \<Rightarrow> bool" where
  "closest S d r \<longleftrightarrow>
     (case r of
        None \<Rightarrow> \<forall>s \<in> S. \<not> in_subtree s d
      | Some s \<Rightarrow> s \<in> S \<and> in_subtree s d \<and> (\<forall>s' \<in> S. in_subtree s' d \<longrightarrow> in_subtree s' s))"

lemma find_closest:
  assumes "find (\<lambda>x. suffix_covers (key x) d) (sort_longest_first key xs) = r"
  shows "closest (key ` set xs) d (map_option key r) \<and> (\<forall>x. r = Some x \<longrightarrow> x \<in> set xs)"
proof (cases r)
  case None
  with assms by_suffix.find_None [of key d xs] show ?thesis by (simp add: closest_def suffix_covers_in_subtree)
next
  case (Some x)
  from by_suffix.find_longest [OF assms [unfolded Some]]
  have x: "x \<in> set xs" "in_subtree (key x) d" "\<forall>y \<in> set xs. in_subtree (key y) d \<longrightarrow> length (key y) \<le> length (key x)"
    by (simp_all add: suffix_covers_in_subtree)
  then have "\<forall>y \<in> set xs. in_subtree (key y) d \<longrightarrow> in_subtree (key y) (key x)"
    using in_subtree_longer by blast
  with x Some show ?thesis by (simp add: closest_def)
qed

text \<open>
  Zones and forwarding rules match most specifically. The zone (rule) found for a name is an
  enabled one, and its name, in lower case and for zones without trailing dots, is the closest
  enclosing name of the query among all enabled ones; none is found only when no enabled one
  encloses the name.
\<close>

theorem zones_and_rules_most_specific:
  fixes zones :: "'u dns_zone list"
  assumes "V = view_build H hash_order zones records rules"
  shows "closest ((\<lambda>z. normalize_owned (z_name z)) ` {z \<in> set zones. z_enabled z}) d
      (map_option za_name (authoritative_zone V d)) \<and>
    (\<forall>za. authoritative_zone V d = Some za \<longrightarrow> (\<exists>z \<in> set zones. z_enabled z \<and> za = zone_authority_of H z)) \<and>
    closest ((\<lambda>r. to_ascii_lowercase (fr_domain r)) ` {r \<in> set rules. fr_enabled r}) d
      (map_option fr_domain (match_forwarding_rule V d)) \<and>
    (\<forall>fr. match_forwarding_rule V d = Some fr \<longrightarrow>
       (\<exists>r \<in> set rules. fr_enabled r \<and> fr = r\<lparr>fr_domain := to_ascii_lowercase (fr_domain r)\<rparr>))"
proof -
  let ?zs = "map (zone_authority_of H) (filter z_enabled zones)"
  let ?rs = "map (\<lambda>r. r\<lparr>fr_domain := to_ascii_lowercase (fr_domain r)\<rparr>) (filter fr_enabled rules)"
  have n: "za_name (zone_authority_of H z) = normalize_owned (z_name z)" for z :: "'u dns_zone"
    by (simp add: zone_authority_of_def normalize_owned_def Let_def)
  have z: "find (\<lambda>z. suffix_covers (za_name z) d) (sort_longest_first za_name ?zs) = authoritative_zone V d"
    and r: "find (\<lambda>r. suffix_covers (fr_domain r) d) (sort_longest_first fr_domain ?rs) = match_forwarding_rule V d"
    by (simp_all add: assms authoritative_zone_def match_forwarding_rule_def view_build_def Let_def)
  have "za_name ` set ?zs = (\<lambda>z. normalize_owned (z_name z)) ` {z \<in> set zones. z_enabled z}"
    "fr_domain ` set ?rs = (\<lambda>r. to_ascii_lowercase (fr_domain r)) ` {r \<in> set rules. fr_enabled r}"
    by (simp_all add: image_image n)
  with find_closest [OF z] find_closest [OF r] show ?thesis by auto
qed

definition ex_zone :: "nat \<Rightarrow> string \<Rightarrow> nat dns_zone" where
  "ex_zone zid name = \<lparr>z_id = zid, z_name = name, z_enabled = True, z_source = ManualZone, z_created_at = 0, z_updated_at = 7\<rparr>"

theorem zones_and_rules_most_specific_witness:
  "map_option za_name (authoritative_zone (view_build ex_names rev [ex_zone 1 ''lan'', ex_zone 2 ''Dev.lan''] [] []) ''a.dev.lan'') =
     Some ''dev.lan''"
proof -
  let ?S = "(\<lambda>z. normalize_owned (z_name z)) ` {z \<in> set [ex_zone 1 ''lan'', ex_zone 2 ''Dev.lan'']. z_enabled z}"
  let ?r = "map_option za_name (authoritative_zone (view_build ex_names rev [ex_zone 1 ''lan'', ex_zone 2 ''Dev.lan''] [] []) ''a.dev.lan'')"
  have c: "closest ?S ''a.dev.lan'' ?r"
    using zones_and_rules_most_specific [OF refl, of "[ex_zone 1 ''lan'', ex_zone 2 ''Dev.lan'']" "''a.dev.lan''" ex_names rev "[]" "[]"]
    by blast
  have e: "z_name (ex_zone i n) = n" "z_enabled (ex_zone i n)" for i n by (simp_all add: ex_zone_def)
  have "{z \<in> set [ex_zone 1 ''lan'', ex_zone 2 ''Dev.lan'']. z_enabled z} = {ex_zone 1 ''lan'', ex_zone 2 ''Dev.lan''}"
    by (auto simp: e)
  moreover have "normalize_owned ''lan'' = ''lan''" "normalize_owned ''Dev.lan'' = ''dev.lan''" by code_simp+
  ultimately have S: "?S = {''lan'', ''dev.lan''}" by (simp only: image_insert image_empty e)
  have "''a.dev.lan'' = ''a'' @ ''.'' @ ''dev.lan''" "''dev.lan'' = ''dev'' @ ''.'' @ ''lan''" by simp_all
  then have "in_subtree ''dev.lan'' ''a.dev.lan''" unfolding in_subtree_def by blast
  moreover have "\<not> in_subtree ''dev.lan'' ''lan''"
    using in_subtree_length [of "''dev.lan''" "''lan''"] by auto
  ultimately show ?thesis using c unfolding S closest_def by (auto split: option.splits)
qed

text \<open>
  A forwarding rule stored with a trailing dot is dead. Rule domains are put in lower case but,
  unlike those of records and zones, not trimmed; the pipeline asks with trimmed names, so such a
  rule matches no query and the names it was meant for go to the default upstream.
\<close>

theorem dotted_rule_is_dead:
  assumes "ends_with ''.'' (fr_domain r)"
  shows "match_forwarding_rule (view_build H hash_order zones records [r]) (normalize_owned domain) = None"
proof -
  let ?n = "to_ascii_lowercase (fr_domain r)" and ?d = "normalize_owned domain"
  have "last ?n = CHR ''.''" "?n \<noteq> []" using assms by (auto simp: ends_with_single last_map)
  then have "in_subtree ?n d \<Longrightarrow> d \<noteq> [] \<and> last d = CHR ''.''" for d
    by (auto simp: in_subtree_def)
  moreover have "?d = [] \<or> last ?d \<noteq> CHR ''.''" using canonical_lower_trim by (simp add: canonical_def)
  ultimately have "\<not> in_subtree ?n ?d" by blast
  then show ?thesis
    by (simp add: match_forwarding_rule_def view_build_def Let_def sort_longest_first_def suffix_covers_in_subtree)
qed

theorem dotted_rule_is_dead_witness:
  "match_forwarding_rule
     (view_build ex_names rev [] [] [\<lparr>fr_id = 1 :: nat, fr_domain = ''corp.example.'', fr_upstream = ''10.0.0.1'', fr_enabled = True, fr_created_at = 0\<rparr>])
     (normalize_owned ''host.corp.example.'') = None"
  by (rule dotted_rule_is_dead) (simp add: ends_with_single)

section \<open>Reverse lookups\<close>

text \<open>The name a reverse lookup for an address asks about.\<close>

definition ptr_name :: "ipv4 \<Rightarrow> string" where
  "ptr_name ip =
     (case octets ip of (a, b, c, d) \<Rightarrow>
        show_nat d @ ''.'' @ show_nat c @ ''.'' @ show_nat b @ ''.'' @ show_nat a @ ''.in-addr.arpa'')"

lemma parse_ptr_name: "parse_ptr_ipv4 (ptr_name ip) = Some ip"
proof -
  obtain a b c d where o: "octets ip = (a, b, c, d)" by (cases "octets ip") auto
  note bs = octets_bounds [OF o]
  let ?labels = "show_nat d @ CHR ''.'' # show_nat c @ CHR ''.'' # show_nat b @ CHR ''.'' # show_nat a"
  have "ptr_name ip = ?labels @ ''.in-addr.arpa''" by (simp add: ptr_name_def o)
  then have "strip_suffix ''.in-addr.arpa'' (ptr_name ip) = Some ?labels" by (simp only: strip_suffix_append)
  moreover have "split_char (CHR ''.'') ?labels = [show_nat d, show_nat c, show_nat b, show_nat a]"
    by (simp add: split_char_append split_char_none show_nat_no_dot)
  ultimately show ?thesis
    using bs by (simp add: parse_ptr_ipv4_def parse_uint_show_nat ipv4_new_octets [OF o])
qed

lemma private_zone_encloses: "private_reverse_zone ip = Some zone \<Longrightarrow> in_subtree zone (ptr_name ip)"
proof -
  assume z: "private_reverse_zone ip = Some zone"
  obtain a b c d where o: "octets ip = (a, b, c, d)" by (cases "octets ip") auto
  have sh: "show_nat 10 = ''10''" "show_nat 192 = ''192''" "show_nat 168 = ''168''" "show_nat 169 = ''169''"
    "show_nat 254 = ''254''" "show_nat 172 = ''172''" "show_nat 100 = ''100''"
    by code_simp+
  have n: "ptr_name ip = show_nat d @ ''.'' @ show_nat c @ ''.'' @ show_nat b @ ''.'' @ show_nat a @ ''.in-addr.arpa''"
    by (simp add: ptr_name_def o)
  have two: "in_subtree (show_nat b @ ''.'' @ show_nat a @ ''.in-addr.arpa'') (ptr_name ip)"
    unfolding in_subtree_def n by (rule disjI2, rule exI [of _ "show_nat d @ ''.'' @ show_nat c"]) simp
  have one: "in_subtree (show_nat a @ ''.in-addr.arpa'') (ptr_name ip)"
    unfolding in_subtree_def n by (rule disjI2, rule exI [of _ "show_nat d @ ''.'' @ show_nat c @ ''.'' @ show_nat b"]) simp
  from z o one two show ?thesis by (auto simp: private_reverse_zone_def sh split: if_splits)
qed

text \<open>
  Reverse lookups. The reverse name of an address parses back to the address. The view answers
  it with exactly the served, non-wildcard A records that point at it, and only for addresses in the
  private blocks; the zone named in a negative answer for such an address encloses its reverse name.
\<close>

theorem reverse_lookup_exact:
  fixes records :: "'u local_record list"
  assumes "V = view_build H hash_order zones records rules"
  shows "parse_ptr_ipv4 (ptr_name ip) = Some ip \<and>
    reverse_lookup V ip = some_list (filter (\<lambda>r. record_served zones r \<and> strip_prefix ''*.'' (record_name r) = None \<and>
        lr_record_type r = TypeA \<and> parse_ipv4 (lr_value r) = Some ip \<and> private_reverse_zone ip \<noteq> None) records) \<and>
    (\<forall>zone. private_reverse_zone ip = Some zone \<longrightarrow> in_subtree zone (ptr_name ip))"
proof -
  obtain m where m: "maps_ok zones records m" "av_reverse_ptr V = vm_rev m"
    unfolding assms by (rule view_build_maps)
  have "private_target r = Some ip \<longleftrightarrow>
      lr_record_type r = TypeA \<and> parse_ipv4 (lr_value r) = Some ip \<and> private_reverse_zone ip \<noteq> None" for r :: "'u local_record"
    by (auto simp: private_target_def split: option.splits)
  with m have "reverse_lookup V ip = some_list (filter (\<lambda>r. record_served zones r \<and> strip_prefix ''*.'' (record_name r) = None \<and>
        lr_record_type r = TypeA \<and> parse_ipv4 (lr_value r) = Some ip \<and> private_reverse_zone ip \<noteq> None) records)"
    by (simp add: reverse_lookup_def maps_ok_def ptr_records_def)
  then show ?thesis using parse_ptr_name private_zone_encloses by blast
qed

theorem reverse_lookup_exact_witness:
  "reverse_lookup (view_build ex_names rev [] [ex_record 1 ''nas.lan'' TypeA (ipv4_to_string (ipv4_new 10 0 0 7))] [])
     (ipv4_new 10 0 0 7) = Some [ex_record 1 ''nas.lan'' TypeA (ipv4_to_string (ipv4_new 10 0 0 7))]"
proof -
  have "octets (ipv4_new 10 0 0 7) = (10, 0, 0, 7)" by (simp add: octets_def ipv4_new_def)
  then have "private_reverse_zone (ipv4_new 10 0 0 7) = Some ''10.in-addr.arpa''" by (simp add: private_reverse_zone_def)
  moreover have "normalize_owned ''nas.lan'' = ''nas.lan''" by code_simp
  ultimately show ?thesis
    using reverse_lookup_exact [OF refl, of "ipv4_new 10 0 0 7" ex_names rev "[]"
        "[ex_record 1 ''nas.lan'' TypeA (ipv4_to_string (ipv4_new 10 0 0 7))]" "[]"]
    by (simp add: ex_record_def record_served_def parse_ipv4_to_string)
qed

section \<open>Upstream addresses of forwarding rules\<close>

lemma read_digits_show_nat_all:
  "n \<le> lim \<Longrightarrow> length (show_nat n) \<le> maxd \<Longrightarrow> read_digits 10 lim maxd 0 0 (show_nat n) = Some (n, length (show_nat n), [])"
  using read_digits_show_nat [of 0 n lim 0 maxd "[]"] by simp

lemma read_port_show: "p \<le> 65535 \<Longrightarrow> read_port ('':'' @ show_nat p) = Some (p, [])"
  by (simp add: read_port_def read_number_def read_digits_show_nat_all)

lemma digit_free_colon [simp]: "digit_free 10 (CHR '':'' # s)"
  by (simp add: digit_free_def to_digit_def code_def)

lemma read_ipv4_addr_printed:
  "digit_free 10 rest \<Longrightarrow> read_ipv4_addr (ipv4_to_string ip @ rest) = Some (ip, rest)"
proof -
  assume r: "digit_free 10 rest"
  obtain a b c d where o: "octets ip = (a, b, c, d)" by (cases "octets ip") auto
  note bs = octets_bounds [OF o]
  show ?thesis
    using bs r by (simp add: read_ipv4_addr_def ipv4_to_string_def o read_separator_def read_octet_show ipv4_new_octets)
qed

lemma parse_socket_addr_v4:
  "p \<le> 65535 \<Longrightarrow> parse_socket_addr (ipv4_to_string ip @ '':'' @ show_nat p) = Some \<lparr>sa_ip = V4 ip, sa_scope = 0, sa_port = p\<rparr>"
  using read_port_show [of p] read_ipv4_addr_printed [of "'':'' @ show_nat p" ip]
  by (simp add: parse_socket_addr_def read_socket_addr_v4_def)

lemma ipv4_to_string_chars: "c \<in> set (ipv4_to_string ip) \<Longrightarrow> c = CHR ''.'' \<or> 48 \<le> code c \<and> code c \<le> 57"
  by (auto simp: ipv4_to_string_def split: prod.splits dest: show_nat_digits)

text \<open>
  The upstream of a forwarding rule. An IPv4 address stands for port 53 of that address, and an
  address with a port for exactly that port.
\<close>

theorem conditional_upstream_v4:
  assumes "p \<le> 65535"
  shows "parse_conditional_upstream (ipv4_to_string ip) = Some \<lparr>sa_ip = V4 ip, sa_scope = 0, sa_port = 53\<rparr> \<and>
    parse_conditional_upstream (ipv4_to_string ip @ '':'' @ show_nat p) = Some \<lparr>sa_ip = V4 ip, sa_scope = 0, sa_port = p\<rparr>"
proof -
  have c: "CHR '':'' \<notin> set (ipv4_to_string ip)"
    using ipv4_to_string_chars [of "CHR '':''" ip] by (auto simp: code_def)
  have "CHR ''['' \<notin> set (ipv4_to_string ip @ rest)" if "CHR ''['' \<notin> set rest" for rest
    using ipv4_to_string_chars [of "CHR ''[''" ip] that by (auto simp: code_def)
  then have b: "\<not> starts_with ''['' (ipv4_to_string ip @ rest)" if "CHR ''['' \<notin> set rest" for rest
    using that by (metis starts_with_iff append_Cons list.set_intros(1))
  have d: "CHR ''['' \<notin> set (show_nat p)" using show_nat_digits [of "CHR ''[''" p] by (auto simp: code_def)
  have "show_nat 53 = ''53''" by code_simp
  then show ?thesis
    using c b [of "[]"] b [of "'':'' @ show_nat p"] d parse_socket_addr_v4 [OF assms, of ip] parse_socket_addr_v4 [of 53 ip]
    by (simp add: parse_conditional_upstream_def)
qed

theorem conditional_upstream_v4_witness:
  "parse_conditional_upstream (ipv4_to_string (ipv4_new 10 0 0 1) @ '':'' @ show_nat 5353) =
     Some \<lparr>sa_ip = V4 (ipv4_new 10 0 0 1), sa_scope = 0, sa_port = 5353\<rparr>"
  using conditional_upstream_v4 [of 5353 "ipv4_new 10 0 0 1"] by simp

end
