(* ===== verification/Dns_Local.thy ===== *)
theory Dns_Local
  imports Authoritative Auth_Context Filter_Parser "HOL-Library.List_Lexorder" "HOL-Library.Char_ord"
begin

text \<open>
  Local DNS: the three tables (\<open>wardnetd-data/src/repository/sqlite/dns_local.rs\<close> with the keys and
  the foreign key of \<open>migrations/20260414000000_dns.sql\<close>), the service that edits them
  (\<open>wardnetd-services/src/dns_local/service.rs\<close>), the registration of DHCP leases
  (\<open>dns/dhcp_lan_runner.rs\<close>) and the runner that rebuilds the authoritative view and evicts the
  announced subtree from the cache (\<open>dns/runner.rs\<close>).

  A freshly drawn \<open>Uuid\<close> is the argument \<open>rid\<close>, the clock the argument \<open>now\<close>, and how a \<open>Uuid\<close>
  prints the argument \<open>ustr\<close>. Rows keep the order they were inserted in; the \<open>list\<close> queries sort
  them, rows with equal keys in table order. The confirmation messages of the responses are left
  out.
\<close>

section \<open>The tables\<close>

record 'u local_db =
  ld_zones :: "'u dns_zone list"
  ld_records :: "'u local_record list"
  ld_rules :: "'u forwarding_rule list"

datatype repo_error = UniqueViolation | ForeignKeyViolation

definition list_zones :: "'u local_db \<Rightarrow> 'u dns_zone list" where
  "list_zones db = sort_key z_name (ld_zones db)"

definition get_zone :: "'u local_db \<Rightarrow> 'u \<Rightarrow> 'u dns_zone option" where
  "get_zone db rid = find (\<lambda>z. z_id z = rid) (ld_zones db)"

definition create_zone_row ::
    "int \<Rightarrow> 'u \<Rightarrow> string \<Rightarrow> bool \<Rightarrow> dns_zone_source \<Rightarrow> 'u local_db \<Rightarrow> repo_error + 'u dns_zone \<times> 'u local_db" where
  "create_zone_row now rid name enabled source db =
     (if (\<exists>z \<in> set (ld_zones db). z_id z = rid \<or> z_name z = name) then Inl UniqueViolation
      else (let z = \<lparr>z_id = rid, z_name = name, z_enabled = enabled, z_source = source,
                     z_created_at = now, z_updated_at = now\<rparr>
            in Inr (z, db\<lparr>ld_zones := ld_zones db @ [z]\<rparr>)))"

definition set_zone :: "int \<Rightarrow> string option \<Rightarrow> bool option \<Rightarrow> 'u dns_zone \<Rightarrow> 'u dns_zone" where
  "set_zone now name enabled z =
     z\<lparr>z_name := (case name of Some n \<Rightarrow> n | None \<Rightarrow> z_name z),
       z_enabled := (case enabled of Some e \<Rightarrow> e | None \<Rightarrow> z_enabled z), z_updated_at := now\<rparr>"

text \<open>An \<open>UPDATE ... WHERE id = ?\<close>: the row changes in place, the others stay.\<close>

definition update_where :: "('a \<Rightarrow> 'u) \<Rightarrow> 'u \<Rightarrow> ('a \<Rightarrow> 'a) \<Rightarrow> 'a list \<Rightarrow> 'a list" where
  "update_where key rid f xs = map (\<lambda>x. if key x = rid then f x else x) xs"

definition update_zone_row ::
    "int \<Rightarrow> 'u \<Rightarrow> string option \<Rightarrow> bool option \<Rightarrow> 'u local_db \<Rightarrow> repo_error + 'u dns_zone option \<times> 'u local_db" where
  "update_zone_row now rid name enabled db =
     (let zs = update_where z_id rid (set_zone now name enabled) (ld_zones db) in
      if (\<exists>n. name = Some n \<and> (\<exists>z \<in> set (ld_zones db). z_id z = rid) \<and>
              (\<exists>z \<in> set (ld_zones db). z_id z \<noteq> rid \<and> z_name z = n))
      then Inl UniqueViolation
      else (let db' = db\<lparr>ld_zones := zs\<rparr> in Inr (get_zone db' rid, db')))"

text \<open>\<open>ON DELETE SET NULL\<close>: the records of a deleted zone lose their link.\<close>

definition delete_zone_row :: "'u \<Rightarrow> 'u local_db \<Rightarrow> bool \<times> 'u local_db" where
  "delete_zone_row rid db =
     (get_zone db rid \<noteq> None,
      db\<lparr>ld_zones := filter (\<lambda>z. z_id z \<noteq> rid) (ld_zones db),
         ld_records := map (\<lambda>r. if lr_zone_id r = Some rid then r\<lparr>lr_zone_id := None\<rparr> else r) (ld_records db)\<rparr>)"

definition list_records :: "'u local_db \<Rightarrow> 'u local_record list" where
  "list_records db = sort_key lr_domain (ld_records db)"

definition list_records_by_zone :: "'u local_db \<Rightarrow> 'u \<Rightarrow> 'u local_record list" where
  "list_records_by_zone db zid = sort_key lr_domain (filter (\<lambda>r. lr_zone_id r = Some zid) (ld_records db))"

definition get_record :: "'u local_db \<Rightarrow> 'u \<Rightarrow> 'u local_record option" where
  "get_record db rid = find (\<lambda>r. lr_id r = rid) (ld_records db)"

definition zone_link_ok :: "'u local_db \<Rightarrow> 'u option \<Rightarrow> bool" where
  "zone_link_ok db zid = (case zid of None \<Rightarrow> True | Some z \<Rightarrow> get_zone db z \<noteq> None)"

definition same_slot :: "string \<Rightarrow> dns_record_type \<Rightarrow> 'u local_record \<Rightarrow> bool" where
  "same_slot domain rtype r \<longleftrightarrow> lr_domain r = domain \<and> lr_record_type r = rtype"

definition create_record_row :: "'u local_record \<Rightarrow> 'u local_db \<Rightarrow> repo_error + 'u local_record \<times> 'u local_db" where
  "create_record_row r db =
     (if (\<exists>x \<in> set (ld_records db). lr_id x = lr_id r \<or> same_slot (lr_domain r) (lr_record_type r) x)
      then Inl UniqueViolation
      else if \<not> zone_link_ok db (lr_zone_id r) then Inl ForeignKeyViolation
      else Inr (r, db\<lparr>ld_records := ld_records db @ [r]\<rparr>))"

text \<open>
  \<open>INSERT ... ON CONFLICT(domain, record_type) DO UPDATE ... WHERE source = excluded.source\<close>: a row
  of another source is left alone and nothing is returned.
\<close>

definition upsert_record_row :: "'u local_record \<Rightarrow> 'u local_db \<Rightarrow> repo_error + 'u local_record option \<times> 'u local_db" where
  "upsert_record_row r db =
     (case find (same_slot (lr_domain r) (lr_record_type r)) (ld_records db) of
        None \<Rightarrow>
          (if (\<exists>x \<in> set (ld_records db). lr_id x = lr_id r) then Inl UniqueViolation
           else if \<not> zone_link_ok db (lr_zone_id r) then Inl ForeignKeyViolation
           else Inr (Some r, db\<lparr>ld_records := ld_records db @ [r]\<rparr>))
      | Some x \<Rightarrow>
          (if lr_source x \<noteq> lr_source r then Inr (None, db)
           else if \<not> zone_link_ok db (lr_zone_id r) then Inl ForeignKeyViolation
           else (let x' = r\<lparr>lr_id := lr_id x, lr_created_at := lr_created_at x\<rparr>
                 in Inr (Some x', db\<lparr>ld_records :=
                      map (\<lambda>y. if same_slot (lr_domain r) (lr_record_type r) y then x' else y) (ld_records db)\<rparr>))))"

record 'u record_update =
  ru_zone_id :: "'u option option"
  ru_domain :: "string option"
  ru_record_type :: "dns_record_type option"
  ru_value :: "string option"
  ru_ttl :: "nat option"
  ru_enabled :: "bool option"

definition given :: "'a option \<Rightarrow> 'a \<Rightarrow> 'a" where
  "given x d = (case x of Some y \<Rightarrow> y | None \<Rightarrow> d)"

definition set_record :: "int \<Rightarrow> 'u record_update \<Rightarrow> 'u local_record \<Rightarrow> 'u local_record" where
  "set_record now u r =
     r\<lparr>lr_zone_id := given (ru_zone_id u) (lr_zone_id r), lr_domain := given (ru_domain u) (lr_domain r),
       lr_record_type := given (ru_record_type u) (lr_record_type r), lr_value := given (ru_value u) (lr_value r),
       lr_ttl := given (ru_ttl u) (lr_ttl r), lr_enabled := given (ru_enabled u) (lr_enabled r),
       lr_updated_at := now\<rparr>"

definition update_record_row ::
    "int \<Rightarrow> 'u \<Rightarrow> 'u record_update \<Rightarrow> 'u local_db \<Rightarrow> repo_error + 'u local_record option \<times> 'u local_db" where
  "update_record_row now rid u db =
     (case get_record db rid of
        None \<Rightarrow> Inr (None, db)
      | Some r \<Rightarrow>
          (let r' = set_record now u r in
           if (\<exists>x \<in> set (ld_records db). lr_id x \<noteq> rid \<and> same_slot (lr_domain r') (lr_record_type r') x)
           then Inl UniqueViolation
           else if \<not> zone_link_ok db (lr_zone_id r') then Inl ForeignKeyViolation
           else (let db' = db\<lparr>ld_records := update_where lr_id rid (set_record now u) (ld_records db)\<rparr>
                 in Inr (get_record db' rid, db'))))"

definition delete_record_row :: "'u \<Rightarrow> 'u local_db \<Rightarrow> bool \<times> 'u local_db" where
  "delete_record_row rid db =
     (get_record db rid \<noteq> None, db\<lparr>ld_records := filter (\<lambda>r. lr_id r \<noteq> rid) (ld_records db)\<rparr>)"

definition list_rules :: "'u local_db \<Rightarrow> 'u forwarding_rule list" where
  "list_rules db = sort_key fr_domain (ld_rules db)"

definition get_rule :: "'u local_db \<Rightarrow> 'u \<Rightarrow> 'u forwarding_rule option" where
  "get_rule db rid = find (\<lambda>r. fr_id r = rid) (ld_rules db)"

definition create_rule_row ::
    "int \<Rightarrow> 'u \<Rightarrow> string \<Rightarrow> string \<Rightarrow> bool \<Rightarrow> 'u local_db \<Rightarrow> repo_error + 'u forwarding_rule \<times> 'u local_db" where
  "create_rule_row now rid domain upstream enabled db =
     (if (\<exists>r \<in> set (ld_rules db). fr_id r = rid \<or> fr_domain r = domain) then Inl UniqueViolation
      else (let r = \<lparr>fr_id = rid, fr_domain = domain, fr_upstream = upstream, fr_enabled = enabled, fr_created_at = now\<rparr>
            in Inr (r, db\<lparr>ld_rules := ld_rules db @ [r]\<rparr>)))"

definition set_rule :: "string option \<Rightarrow> string option \<Rightarrow> bool option \<Rightarrow> 'u forwarding_rule \<Rightarrow> 'u forwarding_rule" where
  "set_rule domain upstream enabled r =
     r\<lparr>fr_domain := given domain (fr_domain r), fr_upstream := given upstream (fr_upstream r),
       fr_enabled := given enabled (fr_enabled r)\<rparr>"

definition update_rule_row ::
    "'u \<Rightarrow> string option \<Rightarrow> string option \<Rightarrow> bool option \<Rightarrow> 'u local_db \<Rightarrow>
     repo_error + 'u forwarding_rule option \<times> 'u local_db" where
  "update_rule_row rid domain upstream enabled db =
     (if domain = None \<and> upstream = None \<and> enabled = None then Inr (get_rule db rid, db)
      else if (\<exists>n. domain = Some n \<and> get_rule db rid \<noteq> None \<and>
                  (\<exists>r \<in> set (ld_rules db). fr_id r \<noteq> rid \<and> fr_domain r = n))
      then Inl UniqueViolation
      else (let db' = db\<lparr>ld_rules := update_where fr_id rid (set_rule domain upstream enabled) (ld_rules db)\<rparr>
            in Inr (get_rule db' rid, db')))"

definition delete_rule_row :: "'u \<Rightarrow> 'u local_db \<Rightarrow> bool \<times> 'u local_db" where
  "delete_rule_row rid db =
     (get_rule db rid \<noteq> None, db\<lparr>ld_rules := filter (\<lambda>r. fr_id r \<noteq> rid) (ld_rules db)\<rparr>)"

section \<open>Validation\<close>

text \<open>The service and its tables, and the domains announced by \<open>DnsLocalChanged\<close> so far.\<close>

record 'u local_sys =
  ls_db :: "'u local_db"
  ls_events :: "string list"

definition emit_domain_changed :: "string \<Rightarrow> 'u local_sys \<Rightarrow> 'u local_sys" where
  "emit_domain_changed domain S = S\<lparr>ls_events := ls_events S @ [domain]\<rparr>"

definition validate_charset :: "string \<Rightarrow> app_error + unit" where
  "validate_charset s =
     (if \<not> list_all domain_char s
      then Inl (BadRequest (''value contains invalid characters (allowed: alphanumeric, '' @ quoted ''.'' @
             '', '' @ quoted ''-'' @ '', '' @ quoted ''_'' @ '')''))
      else Inr ())"

definition validate_local_domain :: "string \<Rightarrow> app_error + unit" where
  "validate_local_domain domain =
     (if domain = [] then Inl (BadRequest ''domain must not be empty'')
      else if length domain > 253 then Inl (BadRequest ''domain must be <= 253 characters'')
      else if CHR ''.'' \<notin> set domain then Inl (BadRequest (''domain must contain at least one '' @ quoted ''.''))
      else validate_charset domain)"

definition validate_record_domain :: "string \<Rightarrow> app_error + unit" where
  "validate_record_domain domain =
     validate_local_domain (case strip_prefix ''*.'' domain of Some s \<Rightarrow> s | None \<Rightarrow> domain)"

definition validate_zone_name :: "string \<Rightarrow> app_error + unit" where
  "validate_zone_name name0 =
     (let name = trim name0 in
      if name = [] then Inl (BadRequest ''zone name must not be empty'')
      else if length name > 253 then Inl (BadRequest ''zone name must be <= 253 characters'')
      else validate_charset name)"

definition require_non_empty :: "string \<Rightarrow> string \<Rightarrow> app_error + unit" where
  "require_non_empty field value =
     (if trim value = [] then Inl (BadRequest (field @ '' must not be empty'')) else Inr ())"

text \<open>The text of a database error is not modelled.\<close>

definition map_repo_err :: "repo_error + 'a \<Rightarrow> string \<Rightarrow> app_error + 'a" where
  "map_repo_err r conflict_msg =
     (case r of
        Inl UniqueViolation \<Rightarrow> Inl (Conflict conflict_msg)
      | Inl ForeignKeyViolation \<Rightarrow> Inl (Internal ''FOREIGN KEY constraint failed'')
      | Inr x \<Rightarrow> Inr x)"

definition repo_internal :: "repo_error + 'a \<Rightarrow> app_error + 'a" where
  "repo_internal r =
     (case r of
        Inl UniqueViolation \<Rightarrow> Inl (Internal ''UNIQUE constraint failed'')
      | Inl ForeignKeyViolation \<Rightarrow> Inl (Internal ''FOREIGN KEY constraint failed'')
      | Inr x \<Rightarrow> Inr x)"

definition not_found :: "('u \<Rightarrow> string) \<Rightarrow> string \<Rightarrow> 'u \<Rightarrow> app_error" where
  "not_found ustr what rid = NotFound (what @ '' '' @ ustr rid @ '' not found'')"

definition ensure_zone :: "('u \<Rightarrow> string) \<Rightarrow> 'u local_db \<Rightarrow> 'u \<Rightarrow> app_error + 'u dns_zone" where
  "ensure_zone ustr db rid = ok_or (not_found ustr ''zone'' rid) (get_zone db rid)"

definition ensure_record :: "('u \<Rightarrow> string) \<Rightarrow> 'u local_db \<Rightarrow> 'u \<Rightarrow> app_error + 'u local_record" where
  "ensure_record ustr db rid = ok_or (not_found ustr ''record'' rid) (get_record db rid)"

definition ensure_forwarding_rule :: "('u \<Rightarrow> string) \<Rightarrow> 'u local_db \<Rightarrow> 'u \<Rightarrow> app_error + 'u forwarding_rule" where
  "ensure_forwarding_rule ustr db rid = ok_or (not_found ustr ''forwarding rule'' rid) (get_rule db rid)"

section \<open>The service\<close>

definition svc_list_zones :: "'v auth_context option \<Rightarrow> 'u local_sys \<Rightarrow> app_error + 'u dns_zone list" where
  "svc_list_zones auth S = (case require_admin auth of Inl e \<Rightarrow> Inl e | Inr _ \<Rightarrow> Inr (list_zones (ls_db S)))"

definition svc_get_zone :: "('u \<Rightarrow> string) \<Rightarrow> 'v auth_context option \<Rightarrow> 'u \<Rightarrow> 'u local_sys \<Rightarrow> app_error + 'u dns_zone" where
  "svc_get_zone ustr auth rid S = (case require_admin auth of Inl e \<Rightarrow> Inl e | Inr _ \<Rightarrow> ensure_zone ustr (ls_db S) rid)"

definition create_zone ::
    "int \<Rightarrow> 'v auth_context option \<Rightarrow> 'u \<Rightarrow> string \<Rightarrow> bool \<Rightarrow> 'u local_sys \<Rightarrow> (app_error + 'u dns_zone) \<times> 'u local_sys" where
  "create_zone now auth rid name enabled S =
     attempt (require_admin auth) S (\<lambda>_.
     attempt (validate_zone_name name) S (\<lambda>_.
     attempt (map_repo_err (create_zone_row now rid name enabled ManualZone (ls_db S))
                ''a zone with this name already exists'') S (\<lambda>(zone, db).
       (Inr zone, emit_domain_changed (z_name zone) (S\<lparr>ls_db := db\<rparr>)))))"

text \<open>Announce the old name when it differs, then the new one.\<close>

definition emit_rename :: "string \<Rightarrow> string \<Rightarrow> 'u local_sys \<Rightarrow> 'u local_sys" where
  "emit_rename old_name new_name S =
     emit_domain_changed new_name (if old_name \<noteq> new_name then emit_domain_changed old_name S else S)"

definition update_zone ::
    "('u \<Rightarrow> string) \<Rightarrow> int \<Rightarrow> 'v auth_context option \<Rightarrow> 'u \<Rightarrow> string option \<Rightarrow> bool option \<Rightarrow> 'u local_sys \<Rightarrow>
     (app_error + 'u dns_zone) \<times> 'u local_sys" where
  "update_zone ustr now auth rid name enabled S =
     attempt (require_admin auth) S (\<lambda>_.
     attempt (ensure_zone ustr (ls_db S) rid) S (\<lambda>old_zone.
     attempt (validate_opt validate_zone_name name) S (\<lambda>_.
     attempt (map_repo_err (update_zone_row now rid name enabled (ls_db S))
                ''a zone with this name already exists'') S (\<lambda>(found, db).
     attempt (ok_or (not_found ustr ''zone'' rid) found) (S\<lparr>ls_db := db\<rparr>) (\<lambda>zone.
       (Inr zone, emit_rename (z_name old_zone) (z_name zone) (S\<lparr>ls_db := db\<rparr>)))))))"

definition delete_zone ::
    "('u \<Rightarrow> string) \<Rightarrow> 'v auth_context option \<Rightarrow> 'u \<Rightarrow> 'u local_sys \<Rightarrow> (app_error + unit) \<times> 'u local_sys" where
  "delete_zone ustr auth rid S =
     attempt (require_admin auth) S (\<lambda>_.
     attempt (ensure_zone ustr (ls_db S) rid) S (\<lambda>zone.
     attempt (require (z_source zone \<noteq> SystemZone)
                (Forbidden (''zone '' @ ustr rid @ '' is a system zone and cannot be deleted''))) S (\<lambda>_.
     let (deleted, db) = delete_zone_row rid (ls_db S); S' = S\<lparr>ls_db := db\<rparr> in
     attempt (require deleted (not_found ustr ''zone'' rid)) S' (\<lambda>_.
       (Inr (), emit_domain_changed (z_name zone) S')))))"

definition svc_list_zone_records ::
    "('u \<Rightarrow> string) \<Rightarrow> 'v auth_context option \<Rightarrow> 'u \<Rightarrow> 'u local_sys \<Rightarrow> app_error + 'u local_record list" where
  "svc_list_zone_records ustr auth zid S =
     (case require_admin auth of Inl e \<Rightarrow> Inl e | Inr _ \<Rightarrow>
      (case ensure_zone ustr (ls_db S) zid of Inl e \<Rightarrow> Inl e | Inr _ \<Rightarrow> Inr (list_records_by_zone (ls_db S) zid)))"

definition svc_list_records :: "'v auth_context option \<Rightarrow> 'u local_sys \<Rightarrow> app_error + 'u local_record list" where
  "svc_list_records auth S = (case require_admin auth of Inl e \<Rightarrow> Inl e | Inr _ \<Rightarrow> Inr (list_records (ls_db S)))"

definition svc_get_record :: "('u \<Rightarrow> string) \<Rightarrow> 'v auth_context option \<Rightarrow> 'u \<Rightarrow> 'u local_sys \<Rightarrow> app_error + 'u local_record" where
  "svc_get_record ustr auth rid S =
     (case require_admin auth of Inl e \<Rightarrow> Inl e | Inr _ \<Rightarrow> ensure_record ustr (ls_db S) rid)"

record 'u record_request =
  rq_zone_id :: "'u option"
  rq_domain :: string
  rq_record_type :: dns_record_type
  rq_value :: string
  rq_ttl :: nat
  rq_enabled :: bool

definition record_row :: "int \<Rightarrow> 'u \<Rightarrow> 'u record_request \<Rightarrow> dns_record_source \<Rightarrow> 'u local_record" where
  "record_row now rid req source =
     \<lparr>lr_id = rid, lr_zone_id = rq_zone_id req, lr_domain = rq_domain req, lr_record_type = rq_record_type req,
      lr_value = rq_value req, lr_ttl = rq_ttl req, lr_enabled = rq_enabled req, lr_source = source,
      lr_created_at = now, lr_updated_at = now\<rparr>"

definition check_request :: "('u \<Rightarrow> string) \<Rightarrow> 'u local_db \<Rightarrow> 'u record_request \<Rightarrow> app_error + unit" where
  "check_request ustr db req =
     (case validate_record_domain (rq_domain req) of Inl e \<Rightarrow> Inl e | Inr _ \<Rightarrow>
      (case require_non_empty ''value'' (rq_value req) of Inl e \<Rightarrow> Inl e | Inr _ \<Rightarrow>
       (case rq_zone_id req of None \<Rightarrow> Inr () | Some z \<Rightarrow>
        (case ensure_zone ustr db z of Inl e \<Rightarrow> Inl e | Inr _ \<Rightarrow> Inr ()))))"

definition create_record ::
    "('u \<Rightarrow> string) \<Rightarrow> int \<Rightarrow> 'v auth_context option \<Rightarrow> 'u \<Rightarrow> 'u record_request \<Rightarrow> 'u local_sys \<Rightarrow>
     (app_error + 'u local_record) \<times> 'u local_sys" where
  "create_record ustr now auth rid req S =
     attempt (require_admin auth) S (\<lambda>_.
     attempt (check_request ustr (ls_db S) req) S (\<lambda>_.
     attempt (map_repo_err (create_record_row (record_row now rid req ManualRecord) (ls_db S))
                ''a record with this domain and type already exists'') S (\<lambda>(r, db).
       (Inr r, emit_domain_changed (lr_domain r) (S\<lparr>ls_db := db\<rparr>)))))"

definition update_record ::
    "('u \<Rightarrow> string) \<Rightarrow> int \<Rightarrow> 'v auth_context option \<Rightarrow> 'u \<Rightarrow> 'u record_update \<Rightarrow> 'u local_sys \<Rightarrow>
     (app_error + 'u local_record) \<times> 'u local_sys" where
  "update_record ustr now auth rid u S =
     attempt (require_admin auth) S (\<lambda>_.
     attempt (ensure_record ustr (ls_db S) rid) S (\<lambda>old_record.
     attempt (validate_opt validate_record_domain (ru_domain u)) S (\<lambda>_.
     attempt (validate_opt (require_non_empty ''value'') (ru_value u)) S (\<lambda>_.
     attempt (case ru_zone_id u of
                Some (Some z) \<Rightarrow> (case ensure_zone ustr (ls_db S) z of Inl e \<Rightarrow> Inl e | Inr _ \<Rightarrow> Inr ())
              | _ \<Rightarrow> Inr ()) S (\<lambda>_.
     attempt (map_repo_err (update_record_row now rid u (ls_db S))
                ''a record with this domain and type already exists'') S (\<lambda>(found, db).
     attempt (ok_or (not_found ustr ''record'' rid) found) (S\<lparr>ls_db := db\<rparr>) (\<lambda>r.
       (Inr r, emit_rename (lr_domain old_record) (lr_domain r) (S\<lparr>ls_db := db\<rparr>)))))))))"

definition delete_record ::
    "('u \<Rightarrow> string) \<Rightarrow> 'v auth_context option \<Rightarrow> 'u \<Rightarrow> 'u local_sys \<Rightarrow> (app_error + unit) \<times> 'u local_sys" where
  "delete_record ustr auth rid S =
     attempt (require_admin auth) S (\<lambda>_.
     attempt (ensure_record ustr (ls_db S) rid) S (\<lambda>r.
     let (deleted, db) = delete_record_row rid (ls_db S); S' = S\<lparr>ls_db := db\<rparr> in
     attempt (require deleted (not_found ustr ''record'' rid)) S' (\<lambda>_.
       (Inr (), emit_domain_changed (lr_domain r) S'))))"

definition upsert_record ::
    "('u \<Rightarrow> string) \<Rightarrow> int \<Rightarrow> 'v auth_context option \<Rightarrow> 'u \<Rightarrow> 'u record_request \<Rightarrow> dns_record_source \<Rightarrow> 'u local_sys \<Rightarrow>
     (app_error + 'u local_record) \<times> 'u local_sys" where
  "upsert_record ustr now auth rid req source S =
     attempt (require_admin auth) S (\<lambda>_.
     attempt (check_request ustr (ls_db S) req) S (\<lambda>_.
     attempt (repo_internal (upsert_record_row (record_row now rid req source) (ls_db S))) S (\<lambda>(found, db).
     attempt (ok_or (Conflict (''record '' @ rq_domain req @ '' already exists from a different source'')) found)
       (S\<lparr>ls_db := db\<rparr>) (\<lambda>r.
       (Inr r, emit_domain_changed (lr_domain r) (S\<lparr>ls_db := db\<rparr>))))))"

definition svc_list_forwarding_rules :: "'v auth_context option \<Rightarrow> 'u local_sys \<Rightarrow> app_error + 'u forwarding_rule list" where
  "svc_list_forwarding_rules auth S = (case require_admin auth of Inl e \<Rightarrow> Inl e | Inr _ \<Rightarrow> Inr (list_rules (ls_db S)))"

definition svc_get_forwarding_rule ::
    "('u \<Rightarrow> string) \<Rightarrow> 'v auth_context option \<Rightarrow> 'u \<Rightarrow> 'u local_sys \<Rightarrow> app_error + 'u forwarding_rule" where
  "svc_get_forwarding_rule ustr auth rid S =
     (case require_admin auth of Inl e \<Rightarrow> Inl e | Inr _ \<Rightarrow> ensure_forwarding_rule ustr (ls_db S) rid)"

definition create_forwarding_rule ::
    "int \<Rightarrow> 'v auth_context option \<Rightarrow> 'u \<Rightarrow> string \<Rightarrow> string \<Rightarrow> bool \<Rightarrow> 'u local_sys \<Rightarrow>
     (app_error + 'u forwarding_rule) \<times> 'u local_sys" where
  "create_forwarding_rule now auth rid domain upstream enabled S =
     attempt (require_admin auth) S (\<lambda>_.
     attempt (validate_local_domain domain) S (\<lambda>_.
     attempt (require_non_empty ''upstream'' upstream) S (\<lambda>_.
     attempt (map_repo_err (create_rule_row now rid domain upstream enabled (ls_db S))
                ''a forwarding rule for this domain already exists'') S (\<lambda>(r, db).
       (Inr r, emit_domain_changed (fr_domain r) (S\<lparr>ls_db := db\<rparr>))))))"

definition update_forwarding_rule ::
    "('u \<Rightarrow> string) \<Rightarrow> 'v auth_context option \<Rightarrow> 'u \<Rightarrow> string option \<Rightarrow> string option \<Rightarrow> bool option \<Rightarrow> 'u local_sys \<Rightarrow>
     (app_error + 'u forwarding_rule) \<times> 'u local_sys" where
  "update_forwarding_rule ustr auth rid domain upstream enabled S =
     attempt (require_admin auth) S (\<lambda>_.
     attempt (ensure_forwarding_rule ustr (ls_db S) rid) S (\<lambda>old_rule.
     attempt (validate_opt validate_local_domain domain) S (\<lambda>_.
     attempt (validate_opt (require_non_empty ''upstream'') upstream) S (\<lambda>_.
     attempt (map_repo_err (update_rule_row rid domain upstream enabled (ls_db S))
                ''a forwarding rule for this domain already exists'') S (\<lambda>(found, db).
     attempt (ok_or (not_found ustr ''forwarding rule'' rid) found) (S\<lparr>ls_db := db\<rparr>) (\<lambda>r.
       (Inr r, emit_rename (fr_domain old_rule) (fr_domain r) (S\<lparr>ls_db := db\<rparr>))))))))"

definition delete_forwarding_rule ::
    "('u \<Rightarrow> string) \<Rightarrow> 'v auth_context option \<Rightarrow> 'u \<Rightarrow> 'u local_sys \<Rightarrow> (app_error + unit) \<times> 'u local_sys" where
  "delete_forwarding_rule ustr auth rid S =
     attempt (require_admin auth) S (\<lambda>_.
     attempt (ensure_forwarding_rule ustr (ls_db S) rid) S (\<lambda>r.
     let (deleted, db) = delete_rule_row rid (ls_db S); S' = S\<lparr>ls_db := db\<rparr> in
     attempt (require deleted (not_found ustr ''forwarding rule'' rid)) S' (\<lambda>_.
       (Inr (), emit_domain_changed (fr_domain r) S'))))"

section \<open>DHCP leases and the runner\<close>

text \<open>
  \<open>str::to_lowercase\<close> lowers all of Unicode: it is the argument \<open>lower\<close>. The lease duration is
  \<open>None\<close> when the DHCP configuration cannot be read.
\<close>

definition FALLBACK_TTL_SECS :: nat where "FALLBACK_TTL_SECS = 300"

definition lan_label :: "(string \<Rightarrow> string) \<Rightarrow> string \<Rightarrow> string option" where
  "lan_label lower hostname =
     (let label = lower (trim (hd (split_char (CHR ''.'') hostname))) in
      if label = [] then None else Some label)"

definition lease_ttl :: "nat option \<Rightarrow> nat" where
  "lease_ttl duration =
     (case duration of
        Some d \<Rightarrow> (if d > 0 then max (d div 2) 1 else FALLBACK_TTL_SECS)
      | None \<Rightarrow> FALLBACK_TTL_SECS)"

definition register_lease ::
    "(string \<Rightarrow> string) \<Rightarrow> ('u \<Rightarrow> string) \<Rightarrow> int \<Rightarrow> 'v auth_context \<Rightarrow> 'u \<Rightarrow> nat option \<Rightarrow> 'u \<Rightarrow> string \<Rightarrow> string \<Rightarrow>
     'u local_sys \<Rightarrow> 'u local_sys" where
  "register_lease lower ustr now admin lan_zone_id duration rid hostname ip S =
     (case lan_label lower hostname of
        None \<Rightarrow> S
      | Some label \<Rightarrow>
          (case svc_get_zone ustr (Some admin) lan_zone_id S of
             Inl (NotFound _) \<Rightarrow> S
           | _ \<Rightarrow>
               snd (upsert_record ustr now (Some admin) rid
                      \<lparr>rq_zone_id = Some lan_zone_id, rq_domain = label @ ''.lan'', rq_record_type = TypeA,
                       rq_value = ip, rq_ttl = lease_ttl duration, rq_enabled = True\<rparr> DhcpRecord S)))"

definition build_authoritative_view ::
    "'m hickory \<Rightarrow> ('u wildcard_entry list \<Rightarrow> 'u wildcard_entry list) \<Rightarrow> 'v auth_context \<Rightarrow> 'u local_sys \<Rightarrow>
     ('u, 'm) authoritative_view" where
  "build_authoritative_view H hash_order admin S =
     (case (svc_list_zones (Some admin) S, svc_list_records (Some admin) S, svc_list_forwarding_rules (Some admin) S) of
        (Inr z, Inr r, Inr ru) \<Rightarrow> view_build H hash_order z r ru
      | _ \<Rightarrow> view_empty)"

text \<open>The runner on \<open>DnsLocalChanged\<close>: a fresh view, then the announced subtree leaves the cache.\<close>

definition on_local_changed ::
    "'m hickory \<Rightarrow> ('u wildcard_entry list \<Rightarrow> 'u wildcard_entry list) \<Rightarrow> 'v auth_context \<Rightarrow> 'u local_sys \<Rightarrow> string \<Rightarrow>
     ('u, 'm) authoritative_view \<times> ('t, 'q) dns_cache \<Rightarrow> ('u, 'm) authoritative_view \<times> ('t, 'q) dns_cache" where
  "on_local_changed H hash_order admin S domain vc =
     (build_authoritative_view H hash_order admin S, snd (cache_invalidate_subtree domain (snd vc)))"

section \<open>Everything that edits the tables\<close>

inductive local_step :: "('u \<Rightarrow> string) \<Rightarrow> (string \<Rightarrow> string) \<Rightarrow> 'u \<Rightarrow> 'u local_sys \<Rightarrow> 'u local_sys \<Rightarrow> bool"
  for ustr lower lan where
  "local_step ustr lower lan S (snd (create_zone now (auth :: 'u auth_context option) rid name enabled S))"
| "local_step ustr lower lan S (snd (update_zone ustr now (auth :: 'u auth_context option) rid nm en S))"
| "local_step ustr lower lan S (snd (delete_zone ustr (auth :: 'u auth_context option) rid S))"
| "local_step ustr lower lan S (snd (create_record ustr now (auth :: 'u auth_context option) rid req S))"
| "local_step ustr lower lan S (snd (update_record ustr now (auth :: 'u auth_context option) rid u S))"
| "local_step ustr lower lan S (snd (delete_record ustr (auth :: 'u auth_context option) rid S))"
| "local_step ustr lower lan S (snd (upsert_record ustr now (auth :: 'u auth_context option) rid req source S))"
| "local_step ustr lower lan S (snd (create_forwarding_rule now (auth :: 'u auth_context option) rid domain upstream enabled S))"
| "local_step ustr lower lan S (snd (update_forwarding_rule ustr (auth :: 'u auth_context option) rid dm ups en S))"
| "local_step ustr lower lan S (snd (delete_forwarding_rule ustr (auth :: 'u auth_context option) rid S))"
| "local_step ustr lower lan S (register_lease lower ustr now (admin :: 'u auth_context) lan duration rid hostname ip S)"

text \<open>
  What one of them may do to the tables, with the domains it announces: every handler that changes
  anything makes one of these writes.
\<close>

inductive local_write :: "'u local_db \<Rightarrow> string list \<Rightarrow> 'u local_db \<Rightarrow> bool" where
  new_zone: "validate_zone_name name = Inr () \<Longrightarrow> create_zone_row now rid name en ManualZone db = Inr (z, db') \<Longrightarrow>
    local_write db [name] db'"
| set_zone: "validate_opt validate_zone_name nm = Inr () \<Longrightarrow> get_zone db rid = Some old \<Longrightarrow>
    update_zone_row now rid nm en db = Inr (Some z, db') \<Longrightarrow> set es = {z_name old, z_name z} \<Longrightarrow> local_write db es db'"
| drop_zone: "get_zone db rid = Some z \<Longrightarrow> z_source z \<noteq> SystemZone \<Longrightarrow> delete_zone_row rid db = (True, db') \<Longrightarrow>
    local_write db [z_name z] db'"
| new_record: "validate_record_domain (lr_domain r) = Inr () \<Longrightarrow> create_record_row r db = Inr (x, db') \<Longrightarrow>
    local_write db [lr_domain r] db'"
| set_record: "validate_opt validate_record_domain (ru_domain u) = Inr () \<Longrightarrow> get_record db rid = Some old \<Longrightarrow>
    update_record_row now rid u db = Inr (Some r, db') \<Longrightarrow> set es = {lr_domain old, lr_domain r} \<Longrightarrow> local_write db es db'"
| drop_record: "get_record db rid = Some r \<Longrightarrow> delete_record_row rid db = (True, db') \<Longrightarrow> local_write db [lr_domain r] db'"
| put_record: "validate_record_domain (lr_domain r) = Inr () \<Longrightarrow> upsert_record_row r db = Inr (Some x, db') \<Longrightarrow>
    local_write db [lr_domain r] db'"
| new_rule: "validate_local_domain dmn = Inr () \<Longrightarrow> create_rule_row now rid dmn ups en db = Inr (r, db') \<Longrightarrow>
    local_write db [dmn] db'"
| set_rule: "validate_opt validate_local_domain dm = Inr () \<Longrightarrow> get_rule db rid = Some old \<Longrightarrow>
    update_rule_row rid dm up enb db = Inr (Some r, db') \<Longrightarrow> set es = {fr_domain old, fr_domain r} \<Longrightarrow> local_write db es db'"
| drop_rule: "get_rule db rid = Some r \<Longrightarrow> delete_rule_row rid db = (True, db') \<Longrightarrow> local_write db [fr_domain r] db'"

definition announced :: "'u local_sys \<Rightarrow> string list \<Rightarrow> 'u local_db \<Rightarrow> 'u local_sys \<Rightarrow> bool" where
  "announced S es db' S' \<longleftrightarrow> S' = S\<lparr>ls_db := db', ls_events := ls_events S @ es\<rparr>"

definition wrote :: "'u local_sys \<Rightarrow> 'u local_sys \<Rightarrow> bool" where
  "wrote S S' \<longleftrightarrow> S' = S \<or> (\<exists>es db'. local_write (ls_db S) es db' \<and> announced S es db' S')"

lemma wrote_refl: "wrote S S" by (simp add: wrote_def)

lemma attempt_wrote: "(\<And>x. r = Inr x \<Longrightarrow> wrote S (snd (k x))) \<Longrightarrow> wrote S (snd (attempt r S k))"
  by (auto simp: attempt_def wrote_refl split: sum.splits)

lemma map_repo_err_Inr [simp]: "map_repo_err r m = Inr x \<longleftrightarrow> r = Inr x"
  by (auto simp: map_repo_err_def split: sum.splits repo_error.splits)

lemma repo_internal_Inr [simp]: "repo_internal r = Inr x \<longleftrightarrow> r = Inr x"
  by (auto simp: repo_internal_def split: sum.splits repo_error.splits)

lemma ok_or_Inr [simp]: "ok_or e x = Inr y \<longleftrightarrow> x = Some y"
  by (auto simp: ok_or_def split: option.splits)

lemma wrote_emit: "local_write (ls_db S) [d] db' \<Longrightarrow> wrote S (emit_domain_changed d (S\<lparr>ls_db := db'\<rparr>))"
  unfolding wrote_def announced_def emit_domain_changed_def by (rule disjI2, rule exI [of _ "[d]"]) auto

lemma wrote_rename:
  "(\<And>es. set es = {d, d'} \<Longrightarrow> local_write (ls_db S) es db') \<Longrightarrow> wrote S (emit_rename d d' (S\<lparr>ls_db := db'\<rparr>))"
  unfolding wrote_def announced_def emit_rename_def emit_domain_changed_def
  by (rule disjI2, rule exI [of _ "if d \<noteq> d' then [d, d'] else [d']"], rule exI [of _ db']) auto

text \<open>A row read back by its id after an update is there, and creating a row returns it.\<close>

lemma find_key_update: "find (\<lambda>x. key x = rid) (update_where key rid f xs) =
    map_option f (find (\<lambda>x. key x = rid) xs)" if "\<And>x. key (f x) = key x"
  by (induction xs) (simp_all add: update_where_def that)

lemma key_set_zone [simp]: "z_id (set_zone now nm en z) = z_id z" "z_source (set_zone now nm en z) = z_source z"
  by (simp_all add: set_zone_def)
lemma key_set_record [simp]: "lr_id (set_record now u r) = lr_id r" "lr_source (set_record now u r) = lr_source r"
  by (simp_all add: set_record_def)
lemma key_set_rule [simp]: "fr_id (set_rule dm up en r) = fr_id r"
  by (simp add: set_rule_def)

lemma update_zone_row_ok: "update_zone_row now rid nm en db = Inr (found, db') \<Longrightarrow>
    found = map_option (set_zone now nm en) (get_zone db rid) \<and>
    db' = db\<lparr>ld_zones := update_where z_id rid (set_zone now nm en) (ld_zones db)\<rparr>"
  by (auto simp: update_zone_row_def get_zone_def find_key_update Let_def split: if_splits)

lemma update_record_row_ok: "update_record_row now rid u db = Inr (Some r, db') \<Longrightarrow>
    (\<exists>old. get_record db rid = Some old \<and> r = set_record now u old \<and> zone_link_ok db (lr_zone_id r)) \<and>
    (\<forall>x \<in> set (ld_records db). lr_id x \<noteq> rid \<longrightarrow> \<not> same_slot (lr_domain r) (lr_record_type r) x) \<and>
    db' = db\<lparr>ld_records := update_where lr_id rid (set_record now u) (ld_records db)\<rparr>"
  by (auto simp: update_record_row_def get_record_def find_key_update Let_def split: if_splits option.splits)

lemma update_rule_row_ok: "update_rule_row rid dm up en db = Inr (found, db') \<Longrightarrow>
    found = map_option (set_rule dm up en) (get_rule db rid) \<and>
    ld_rules db' = update_where fr_id rid (set_rule dm up en) (ld_rules db) \<and> ld_zones db' = ld_zones db \<and>
    ld_records db' = ld_records db"
proof (cases "dm = None \<and> up = None \<and> en = None")
  case True
  have id: "set_rule None None None = (\<lambda>r :: 'a forwarding_rule. r)" by (simp add: fun_eq_iff set_rule_def given_def)
  assume "update_rule_row rid dm up en db = Inr (found, db')"
  with True show ?thesis by (auto simp: update_rule_row_def id option.map_ident update_where_def)
next
  case False
  assume "update_rule_row rid dm up en db = Inr (found, db')"
  with False show ?thesis
    unfolding update_rule_row_def if_not_P [OF False] by (auto simp: get_rule_def find_key_update Let_def split: if_splits)
qed

lemma check_request_ok: "check_request ustr db req = Inr () \<Longrightarrow> validate_record_domain (rq_domain req) = Inr ()"
  by (auto simp: check_request_def split: sum.splits)

lemma upsert_wrote: "wrote S (snd (upsert_record ustr now auth rid req source S))"
  unfolding upsert_record_def
proof (intro attempt_wrote, clarify)
  fix u u' found db
  assume c: "check_request ustr (ls_db S) req = Inr u'"
    and r: "repo_internal (upsert_record_row (record_row now rid req source) (ls_db S)) = Inr (found, db)"
  show "wrote S (snd (attempt (ok_or (Conflict (''record '' @ rq_domain req @ '' already exists from a different source'')) found)
       (S\<lparr>ls_db := db\<rparr>) (\<lambda>r. (Inr r, emit_domain_changed (lr_domain r) (S\<lparr>ls_db := db\<rparr>)))))"
  proof (cases found)
    case None
    with r have "db = ls_db S" by (auto simp: upsert_record_row_def Let_def split: option.splits if_splits)
    with None show ?thesis by (simp add: attempt_def ok_or_def wrote_refl)
  next
    case (Some x)
    with r have "lr_domain x = rq_domain req"
      by (auto simp: upsert_record_row_def record_row_def Let_def split: option.splits if_splits)
    with Some r c put_record [of "record_row now rid req source" "ls_db S" x db] show ?thesis
      by (simp add: attempt_def ok_or_def check_request_ok wrote_emit record_row_def)
  qed
qed

lemma lease_wrote: "wrote S (register_lease lower ustr now admin lan duration rid hostname ip S)"
  by (simp add: register_lease_def wrote_refl upsert_wrote split: option.split sum.split app_error.split)

lemma create_zone_wrote: "wrote S (snd (create_zone now auth rid name enabled S))"
  unfolding create_zone_def
proof (intro attempt_wrote, clarify)
  fix u u' z db
  assume v: "validate_zone_name name = Inr u'"
    and r: "map_repo_err (create_zone_row now rid name enabled ManualZone (ls_db S)) ''a zone with this name already exists'' = Inr (z, db)"
  from r have "z_name z = name" by (auto simp: create_zone_row_def Let_def split: if_splits)
  with v r new_zone [of name now rid enabled "ls_db S" z db]
  show "wrote S (snd (Inr z, emit_domain_changed (z_name z) (S\<lparr>ls_db := db\<rparr>)))"
    by (simp add: wrote_emit)
qed

lemma update_zone_wrote: "wrote S (snd (update_zone ustr now auth rid nm en S))"
  unfolding update_zone_def
proof (intro attempt_wrote, clarify)
  fix u old u' found db
  assume z: "ensure_zone ustr (ls_db S) rid = Inr old" and v: "validate_opt validate_zone_name nm = Inr u'"
    and r: "map_repo_err (update_zone_row now rid nm en (ls_db S)) ''a zone with this name already exists'' = Inr (found, db)"
  from z have g: "get_zone (ls_db S) rid = Some old" by (simp add: ensure_zone_def)
  from r g have f: "found = Some (set_zone now nm en old)" by (auto dest: update_zone_row_ok)
  show "wrote S (snd (attempt (ok_or (not_found ustr ''zone'' rid) found) (S\<lparr>ls_db := db\<rparr>)
      (\<lambda>zone. (Inr zone, emit_rename (z_name old) (z_name zone) (S\<lparr>ls_db := db\<rparr>)))))"
    using v r g by (auto simp: f attempt_def ok_or_def intro!: wrote_rename local_write.set_zone)
qed

lemma delete_zone_wrote: "wrote S (snd (delete_zone ustr auth rid S))"
  unfolding delete_zone_def
  by (intro attempt_wrote)
    (auto simp: ensure_zone_def require_def attempt_def delete_zone_row_def intro!: wrote_emit drop_zone split: if_splits)

lemma create_record_wrote: "wrote S (snd (create_record ustr now auth rid req S))"
  unfolding create_record_def
proof (intro attempt_wrote, clarify)
  fix u u' r db
  assume c: "check_request ustr (ls_db S) req = Inr u'"
    and w: "map_repo_err (create_record_row (record_row now rid req ManualRecord) (ls_db S))
      ''a record with this domain and type already exists'' = Inr (r, db)"
  from w have "lr_domain r = rq_domain req" by (auto simp: create_record_row_def record_row_def split: if_splits)
  with c w new_record [of "record_row now rid req ManualRecord" "ls_db S" r db]
  show "wrote S (snd (Inr r, emit_domain_changed (lr_domain r) (S\<lparr>ls_db := db\<rparr>)))"
    by (simp add: wrote_emit check_request_ok record_row_def)
qed

lemma update_record_wrote: "wrote S (snd (update_record ustr now auth rid u S))"
  unfolding update_record_def
proof (intro attempt_wrote, clarify)
  fix a old b c d found db
  assume z: "ensure_record ustr (ls_db S) rid = Inr old" and v: "validate_opt validate_record_domain (ru_domain u) = Inr b"
    and r: "map_repo_err (update_record_row now rid u (ls_db S)) ''a record with this domain and type already exists'' = Inr (found, db)"
  from z have g: "get_record (ls_db S) rid = Some old" by (simp add: ensure_record_def)
  from r g obtain x where f: "found = Some x"
    by (auto simp: update_record_row_def get_record_def find_key_update Let_def split: if_splits option.splits)
  show "wrote S (snd (attempt (ok_or (not_found ustr ''record'' rid) found) (S\<lparr>ls_db := db\<rparr>)
      (\<lambda>r. (Inr r, emit_rename (lr_domain old) (lr_domain r) (S\<lparr>ls_db := db\<rparr>)))))"
    using v r g by (auto simp: f attempt_def ok_or_def intro!: wrote_rename local_write.set_record)
qed

lemma delete_record_wrote: "wrote S (snd (delete_record ustr auth rid S))"
  unfolding delete_record_def
  by (intro attempt_wrote)
    (auto simp: ensure_record_def require_def attempt_def delete_record_row_def intro!: wrote_emit drop_record split: if_splits)

lemma create_rule_wrote: "wrote S (snd (create_forwarding_rule now auth rid domain upstream enabled S))"
  unfolding create_forwarding_rule_def
proof (intro attempt_wrote, clarify)
  fix a b c r db
  assume v: "validate_local_domain domain = Inr b"
    and w: "map_repo_err (create_rule_row now rid domain upstream enabled (ls_db S))
      ''a forwarding rule for this domain already exists'' = Inr (r, db)"
  from w have "fr_domain r = domain" by (auto simp: create_rule_row_def Let_def split: if_splits)
  with v w new_rule [of domain now rid upstream enabled "ls_db S" r db]
  show "wrote S (snd (Inr r, emit_domain_changed (fr_domain r) (S\<lparr>ls_db := db\<rparr>)))"
    by (simp add: wrote_emit)
qed

lemma update_rule_wrote: "wrote S (snd (update_forwarding_rule ustr auth rid dm ups en S))"
  unfolding update_forwarding_rule_def
proof (intro attempt_wrote, clarify)
  fix a old b c found db
  assume z: "ensure_forwarding_rule ustr (ls_db S) rid = Inr old" and v: "validate_opt validate_local_domain dm = Inr b"
    and r: "map_repo_err (update_rule_row rid dm ups en (ls_db S)) ''a forwarding rule for this domain already exists'' = Inr (found, db)"
  from z have g: "get_rule (ls_db S) rid = Some old" by (simp add: ensure_forwarding_rule_def)
  from r g have f: "found = Some (set_rule dm ups en old)" by (auto dest: update_rule_row_ok)
  show "wrote S (snd (attempt (ok_or (not_found ustr ''forwarding rule'' rid) found) (S\<lparr>ls_db := db\<rparr>)
      (\<lambda>r. (Inr r, emit_rename (fr_domain old) (fr_domain r) (S\<lparr>ls_db := db\<rparr>)))))"
    using v r g by (auto simp: f attempt_def ok_or_def intro!: wrote_rename local_write.set_rule)
qed

lemma delete_rule_wrote: "wrote S (snd (delete_forwarding_rule ustr auth rid S))"
  unfolding delete_forwarding_rule_def
  by (intro attempt_wrote)
    (auto simp: ensure_forwarding_rule_def require_def attempt_def delete_rule_row_def intro!: wrote_emit drop_rule split: if_splits)

lemmas handlers_wrote =
  create_zone_wrote update_zone_wrote delete_zone_wrote create_record_wrote update_record_wrote delete_record_wrote
  upsert_wrote create_rule_wrote update_rule_wrote delete_rule_wrote lease_wrote

lemma local_step_wrote: "local_step ustr lower lan S S' \<Longrightarrow> wrote S S'"
  by (induction rule: local_step.induct) (rule handlers_wrote)+

section \<open>The tables stay well formed\<close>

definition slot :: "'u local_record \<Rightarrow> string \<times> dns_record_type" where
  "slot r = (lr_domain r, lr_record_type r)"

definition zones_ok :: "'u dns_zone list \<Rightarrow> bool" where
  "zones_ok zs \<longleftrightarrow> distinct (map z_id zs) \<and> distinct (map z_name zs) \<and> (\<forall>z \<in> set zs. validate_zone_name (z_name z) = Inr ())"

definition records_ok :: "'u local_record list \<Rightarrow> bool" where
  "records_ok rs \<longleftrightarrow>
     distinct (map lr_id rs) \<and> distinct (map slot rs) \<and> (\<forall>r \<in> set rs. validate_record_domain (lr_domain r) = Inr ())"

definition rules_ok :: "'u forwarding_rule list \<Rightarrow> bool" where
  "rules_ok rs \<longleftrightarrow>
     distinct (map fr_id rs) \<and> distinct (map fr_domain rs) \<and> (\<forall>r \<in> set rs. validate_local_domain (fr_domain r) = Inr ())"

definition links_ok :: "'u local_record list \<Rightarrow> 'u set \<Rightarrow> bool" where
  "links_ok rs ids \<longleftrightarrow> (\<forall>r \<in> set rs. \<forall>z. lr_zone_id r = Some z \<longrightarrow> z \<in> ids)"

definition local_ok :: "'u local_db \<Rightarrow> bool" where
  "local_ok db \<longleftrightarrow> zones_ok (ld_zones db) \<and> records_ok (ld_records db) \<and> rules_ok (ld_rules db) \<and>
     links_ok (ld_records db) (z_id ` set (ld_zones db))"

lemma find_key_Some: "find (\<lambda>x. key x = rid) xs = Some x \<Longrightarrow> x \<in> set xs \<and> key x = rid"
  by (induction xs) (auto split: if_splits)

lemma find_key_None: "find (\<lambda>x. key x = rid) xs = None \<longleftrightarrow> rid \<notin> key ` set xs"
  by (auto simp: find_None_iff)

lemma set_update_where: "distinct (map key xs) \<Longrightarrow> x \<in> set xs \<Longrightarrow> key x = rid \<Longrightarrow>
    set (update_where key rid f xs) = insert (f x) {y \<in> set xs. key y \<noteq> rid}"
  by (induction xs) (auto simp: update_where_def image_iff)

lemma map_update_where: "(\<And>x. k (f x) = k x) \<Longrightarrow> map k (update_where key rid f xs) = map k xs"
  by (simp add: update_where_def)

lemma update_where_Cons: "update_where key rid f (a # xs) = (if key a = rid then f a else a) # update_where key rid f xs"
  by (simp add: update_where_def)

lemma distinct_update_where:
  assumes "distinct (map key xs)" and "distinct (map k xs)"
    and "\<And>x y. x \<in> set xs \<Longrightarrow> key x = rid \<Longrightarrow> y \<in> set xs \<Longrightarrow> key y \<noteq> rid \<Longrightarrow> k (f x) \<noteq> k y"
  shows "distinct (map k (update_where key rid f xs))"
  using assms
proof (induction xs)
  case (Cons a xs)
  have ih: "distinct (map k (update_where key rid f xs))" by (rule Cons.IH) (use Cons.prems in auto)
  show ?case
  proof (cases "key a = rid")
    case True
    with Cons.prems(1) have other: "key y \<noteq> rid" if "y \<in> set xs" for y using that by (auto simp: image_iff)
    then have "update_where key rid f xs = xs" by (simp add: update_where_def map_idI)
    moreover have "k (f a) \<notin> k ` set xs" using Cons.prems(3) [of a] True other by fastforce
    ultimately show ?thesis using True Cons.prems(2) by (simp add: update_where_Cons)
  next
    case False
    have "k a \<notin> k ` set (update_where key rid f xs)"
    proof
      assume "k a \<in> k ` set (update_where key rid f xs)"
      then obtain x where x: "x \<in> set xs" "k a = k (if key x = rid then f x else x)" by (auto simp: update_where_def)
      with Cons.prems(2) have "key x = rid" by (auto split: if_splits)
      with x Cons.prems(3) [of x a] False show False by simp
    qed
    with ih False show ?thesis by (simp add: update_where_Cons)
  qed
qed (simp add: update_where_def)

text \<open>Updating one row of a table with two keys: the row is replaced, the keys stay unique.\<close>

lemma update_where_table:
  assumes key: "distinct (map key xs)" and k: "distinct (map k xs)" and old: "old \<in> set xs" "key old = rid"
    and f: "\<And>x. key (f x) = key x" and free: "\<forall>y \<in> set xs. key y \<noteq> rid \<longrightarrow> k y \<noteq> k (f old)"
  shows "distinct (map key (update_where key rid f xs)) \<and> distinct (map k (update_where key rid f xs)) \<and>
    set (update_where key rid f xs) = insert (f old) {y \<in> set xs. key y \<noteq> rid} \<and>
    key ` set (update_where key rid f xs) = key ` set xs"
proof -
  have m: "map key (update_where key rid f xs) = map key xs" by (rule map_update_where) (rule f)
  have "x = old" if "x \<in> set xs" "key x = rid" for x using that old key by (auto simp: distinct_map dest: inj_onD)
  then have "distinct (map k (update_where key rid f xs))"
    by (intro distinct_update_where [OF key k]) (use free in metis)
  moreover have "key ` set (update_where key rid f xs) = key ` set xs" using arg_cong [OF m, of set] by simp
  ultimately show ?thesis using key set_update_where [OF key old] unfolding m by blast
qed

lemma zone_link_ok_iff: "zone_link_ok db zid \<longleftrightarrow> (\<forall>z. zid = Some z \<longrightarrow> z \<in> z_id ` set (ld_zones db))"
  by (auto simp: zone_link_ok_def get_zone_def find_key_None split: option.splits)

lemma same_slot_iff: "same_slot (lr_domain r) (lr_record_type r) x \<longleftrightarrow> slot x = slot r"
  by (auto simp: same_slot_def slot_def)

lemma zones_ok_update:
  assumes ok: "zones_ok (ld_zones db)" and g: "get_zone db rid = Some old"
    and v: "validate_opt validate_zone_name nm = Inr ()" and u: "update_zone_row now rid nm en db = Inr (found, db')"
  shows "zones_ok (ld_zones db') \<and> z_id ` set (ld_zones db') = z_id ` set (ld_zones db)"
proof -
  let ?f = "set_zone now nm en" and ?zs = "ld_zones db"
  have old: "old \<in> set ?zs" "z_id old = rid" using g by (auto simp: get_zone_def dest: find_key_Some)
  have n: "z_name (?f old) = given nm (z_name old)" by (simp add: set_zone_def given_def)
  have free: "\<forall>y \<in> set ?zs. z_id y \<noteq> rid \<longrightarrow> z_name y \<noteq> z_name (?f old)"
  proof (cases nm)
    case None
    then show ?thesis using n ok old by (auto simp: given_def zones_ok_def distinct_map dest: inj_onD)
  next
    case (Some m)
    then show ?thesis using n u old by (auto simp: given_def update_zone_row_def Let_def split: if_splits)
  qed
  have "distinct (map z_id ?zs)" "distinct (map z_name ?zs)" using ok by (simp_all add: zones_ok_def)
  note t = update_where_table [where f = ?f, OF this old key_set_zone(1) free]
  have "validate_zone_name (z_name (?f old)) = Inr ()"
    using n v ok old by (cases nm) (auto simp: given_def zones_ok_def)
  with t ok have "zones_ok (update_where z_id rid ?f ?zs)" by (simp add: zones_ok_def)
  with t update_zone_row_ok [OF u] show ?thesis by (metis local_db.select_convs(1) local_db.surjective local_db.update_convs(1))
qed

lemma rules_ok_update:
  assumes ok: "rules_ok (ld_rules db)" and g: "get_rule db rid = Some old"
    and v: "validate_opt validate_local_domain nm = Inr ()" and u: "update_rule_row rid nm up en db = Inr (found, db')"
  shows "rules_ok (ld_rules db')"
proof -
  let ?f = "set_rule nm up en" and ?rs = "ld_rules db"
  have old: "old \<in> set ?rs" "fr_id old = rid" using g by (auto simp: get_rule_def dest: find_key_Some)
  have n: "fr_domain (?f old) = given nm (fr_domain old)" by (simp add: set_rule_def)
  have free: "\<forall>y \<in> set ?rs. fr_id y \<noteq> rid \<longrightarrow> fr_domain y \<noteq> fr_domain (?f old)"
  proof (cases nm)
    case None
    then show ?thesis using n ok old by (auto simp: given_def rules_ok_def distinct_map dest: inj_onD)
  next
    case (Some m)
    then show ?thesis using n u g by (auto simp: given_def update_rule_row_def Let_def split: if_splits)
  qed
  have "distinct (map fr_id ?rs)" "distinct (map fr_domain ?rs)" using ok by (simp_all add: rules_ok_def)
  note t = update_where_table [where f = ?f, OF this old key_set_rule free]
  have "validate_local_domain (fr_domain (?f old)) = Inr ()"
    using n v ok old by (cases nm) (auto simp: given_def rules_ok_def)
  with t ok update_rule_row_ok [OF u] show ?thesis by (auto simp: rules_ok_def)
qed

lemma records_ok_update:
  assumes ok: "records_ok (ld_records db)" and g: "get_record db rid = Some old"
    and v: "validate_opt validate_record_domain (ru_domain u) = Inr ()" and w: "update_record_row now rid u db = Inr (Some r, db')"
    and l: "links_ok (ld_records db) (z_id ` set (ld_zones db))"
  shows "records_ok (ld_records db') \<and> links_ok (ld_records db') (z_id ` set (ld_zones db))"
proof -
  let ?f = "set_record now u" and ?rs = "ld_records db"
  note up = update_record_row_ok [OF w]
  have old: "old \<in> set ?rs" "lr_id old = rid" using g by (auto simp: get_record_def dest: find_key_Some)
  have r: "r = ?f old" using up g by simp
  have free: "\<forall>y \<in> set ?rs. lr_id y \<noteq> rid \<longrightarrow> slot y \<noteq> slot (?f old)"
    using up unfolding r same_slot_iff by blast
  have "distinct (map lr_id ?rs)" "distinct (map slot ?rs)" using ok by (simp_all add: records_ok_def)
  note t = update_where_table [where f = ?f, OF this old key_set_record(1) free]
  have "validate_record_domain (lr_domain (?f old)) = Inr ()"
    using v ok old by (cases "ru_domain u") (auto simp: set_record_def given_def records_ok_def)
  moreover have "\<forall>z. lr_zone_id (?f old) = Some z \<longrightarrow> z \<in> z_id ` set (ld_zones db)"
    using up unfolding r zone_link_ok_iff by blast
  ultimately show ?thesis using t ok up l by (auto simp: records_ok_def links_ok_def)
qed

lemma records_ok_upsert:
  assumes ok: "records_ok (ld_records db)" and v: "validate_record_domain (lr_domain r) = Inr ()"
    and w: "upsert_record_row r db = Inr (Some x, db')" and l: "links_ok (ld_records db) (z_id ` set (ld_zones db))"
  shows "records_ok (ld_records db') \<and> links_ok (ld_records db') (z_id ` set (ld_zones db)) \<and>
    ld_zones db' = ld_zones db \<and> ld_rules db' = ld_rules db"
proof (cases "find (same_slot (lr_domain r) (lr_record_type r)) (ld_records db)")
  case None
  then have s: "slot r \<notin> slot ` set (ld_records db)" by (auto simp: find_None_iff same_slot_iff)
  from None w have "lr_id r \<notin> lr_id ` set (ld_records db)" "zone_link_ok db (lr_zone_id r)"
    "db' = db\<lparr>ld_records := ld_records db @ [r]\<rparr>"
    by (auto simp: upsert_record_row_def split: if_splits)
  with s ok v l show ?thesis by (simp add: records_ok_def links_ok_def zone_link_ok_iff ball_Un)
next
  case (Some y)
  let ?x = "r\<lparr>lr_id := lr_id y, lr_created_at := lr_created_at y\<rparr>"
  let ?rs' = "update_where slot (slot r) (\<lambda>_. ?x) (ld_records db)"
  have y: "y \<in> set (ld_records db)" "slot y = slot r" using Some by (auto simp: find_Some_iff same_slot_iff)
  have "map (\<lambda>z. if same_slot (lr_domain r) (lr_record_type r) z then ?x else z) (ld_records db) = ?rs'"
    by (simp add: update_where_def same_slot_iff)
  with Some w have db': "db' = db\<lparr>ld_records := ?rs'\<rparr>" and z: "zone_link_ok db (lr_zone_id r)"
    by (auto simp: upsert_record_row_def Let_def split: if_splits)
  have s: "set ?rs' = insert ?x {z \<in> set (ld_records db). slot z \<noteq> slot r}"
    using ok y by (intro set_update_where [where x = y]) (simp_all add: records_ok_def)
  have k: "map slot ?rs' = map slot (ld_records db)" by (auto simp: update_where_def slot_def)
  have "lr_id y \<noteq> lr_id z" if "z \<in> set (ld_records db)" "slot z \<noteq> slot r" for z
    using that y ok by (auto simp: records_ok_def distinct_map dest: inj_onD)
  then have "distinct (map lr_id ?rs')"
    using ok by (intro distinct_update_where) (simp_all add: records_ok_def)
  with k s db' z ok v l show ?thesis by (auto simp: records_ok_def links_ok_def zone_link_ok_iff)
qed

lemma records_ok_unlink: "records_ok rs \<Longrightarrow>
    records_ok (map (\<lambda>r. if lr_zone_id r = Some z then r\<lparr>lr_zone_id := None\<rparr> else r) rs)"
proof -
  let ?f = "\<lambda>r. if lr_zone_id r = Some z then r\<lparr>lr_zone_id := None\<rparr> else r"
  have f: "lr_id (?f r) = lr_id r" "slot (?f r) = slot r" "lr_domain (?f r) = lr_domain r" for r by (simp_all add: slot_def)
  assume "records_ok rs"
  then show ?thesis unfolding records_ok_def map_map comp_def set_map ball_simps f by simp
qed

lemma local_write_ok: "local_write db es db' \<Longrightarrow> local_ok db \<Longrightarrow> local_ok db'"
proof (induction rule: local_write.induct)
  case (new_zone name now rid en db z db')
  then show ?case by (auto simp: create_zone_row_def local_ok_def zones_ok_def links_ok_def Let_def split: if_splits)
next
  case (set_zone nm db rid old now en z db' es)
  then show ?case using zones_ok_update [OF _ set_zone.hyps(2,1,3)] update_zone_row_ok [OF set_zone.hyps(3)]
    by (simp add: local_ok_def)
next
  case (drop_zone db rid z db')
  have "z_id ` {x \<in> set (ld_zones db). z_id x \<noteq> rid} = z_id ` set (ld_zones db) - {rid}" by auto
  with drop_zone show ?case
    by (auto simp: delete_zone_row_def local_ok_def zones_ok_def records_ok_unlink distinct_map_filter links_ok_def)
next
  case (new_record r db x db')
  then have "lr_id r \<notin> lr_id ` set (ld_records db)" "slot r \<notin> slot ` set (ld_records db)" "zone_link_ok db (lr_zone_id r)"
    "db' = db\<lparr>ld_records := ld_records db @ [r]\<rparr>"
    by (auto simp: create_record_row_def same_slot_iff split: if_splits)
  with new_record show ?case by (auto simp: local_ok_def records_ok_def links_ok_def zone_link_ok_iff)
next
  case (set_record u db rid old now r db' es)
  then show ?case using records_ok_update [OF _ set_record.hyps(2,1,3)] update_record_row_ok [OF set_record.hyps(3)]
    by (simp add: local_ok_def)
next
  case (drop_record db rid r db')
  then show ?case by (auto simp: delete_record_row_def local_ok_def records_ok_def links_ok_def distinct_map_filter)
next
  case (put_record r db x db')
  then show ?case using records_ok_upsert [OF _ put_record.hyps] by (simp add: local_ok_def)
next
  case (new_rule dmn now rid ups en db r db')
  then show ?case by (auto simp: create_rule_row_def local_ok_def rules_ok_def Let_def split: if_splits)
next
  case (set_rule dm db rid old up enb r db' es)
  then show ?case using rules_ok_update [OF _ set_rule.hyps(2,1,3)] update_rule_row_ok [OF set_rule.hyps(3)]
    by (simp add: local_ok_def)
next
  case (drop_rule db rid r db')
  then show ?case by (auto simp: delete_rule_row_def local_ok_def rules_ok_def distinct_map_filter)
qed

lemma local_write_system:
  "local_write db es db' \<Longrightarrow> z \<in> set (ld_zones db) \<Longrightarrow> z_source z = SystemZone \<Longrightarrow> local_ok db \<Longrightarrow>
   \<exists>z' \<in> set (ld_zones db'). z_id z' = z_id z \<and> z_source z' = SystemZone"
proof (induction rule: local_write.induct)
  case (set_zone nm db rid old now en y db' es)
  then show ?case using update_zone_row_ok [OF set_zone.hyps(3)]
    by (intro bexI [of _ "if z_id z = rid then set_zone now nm en z else z"]) (auto simp: update_where_def set_zone_def given_def)
next
  case (drop_zone db rid y db')
  then have "y = z" if "z_id z = rid"
    using that by (auto simp: local_ok_def zones_ok_def get_zone_def distinct_map dest!: find_key_Some dest: inj_onD)
  with drop_zone have "z_id z \<noteq> rid" by metis
  with drop_zone show ?case by (intro bexI [of _ z]) (auto simp: delete_zone_row_def)
qed (auto simp: create_zone_row_def create_record_row_def update_record_row_def delete_record_row_def upsert_record_row_def
    create_rule_row_def update_rule_row_def delete_rule_row_def Let_def split: if_splits option.splits)

lemma wrote_ok: "wrote S S' \<Longrightarrow> local_ok (ls_db S) \<Longrightarrow> local_ok (ls_db S')"
  by (auto simp: wrote_def announced_def local_write_ok)

lemma wrote_system:
  "wrote S S' \<Longrightarrow> z \<in> set (ld_zones (ls_db S)) \<Longrightarrow> z_source z = SystemZone \<Longrightarrow> local_ok (ls_db S) \<Longrightarrow>
   \<exists>z' \<in> set (ld_zones (ls_db S')). z_id z' = z_id z \<and> z_source z' = SystemZone"
  using local_write_system by (fastforce simp: wrote_def announced_def)

text \<open>
  C16: the local-DNS tables stay well formed. Whatever requests and lease registrations run, in
  whatever order: ids, zone names, (domain, type) pairs and rule domains stay unique, every record
  that names a zone names an existing one, every stored name has passed validation, and a system
  zone is never lost nor demoted.
\<close>

theorem local_tables_invariant:
  assumes "(local_step ustr lower lan)\<^sup>*\<^sup>* S S'" and "local_ok (ls_db S)"
  shows "local_ok (ls_db S') \<and>
    (\<forall>z \<in> set (ld_zones (ls_db S)). z_source z = SystemZone \<longrightarrow>
       (\<exists>z' \<in> set (ld_zones (ls_db S')). z_id z' = z_id z \<and> z_source z' = SystemZone))"
  using assms
proof (induction rule: rtranclp_induct)
  case base
  then show ?case by blast
next
  case (step T T')
  note w = local_step_wrote [OF step.hyps(2)]
  from step have ok: "local_ok (ls_db T)" by blast
  show ?case
  proof (intro conjI ballI impI)
    show "local_ok (ls_db T')" by (rule wrote_ok [OF w ok])
    fix z assume "z \<in> set (ld_zones (ls_db S))" "z_source z = SystemZone"
    with step obtain y where "y \<in> set (ld_zones (ls_db T))" "z_id y = z_id z" "z_source y = SystemZone" by blast
    with wrote_system [OF w _ _ ok] show "\<exists>z' \<in> set (ld_zones (ls_db T')). z_id z' = z_id z \<and> z_source z' = SystemZone"
      by metis
  qed
qed

definition ex_lan :: "nat dns_zone" where
  "ex_lan = \<lparr>z_id = 10, z_name = ''lan'', z_enabled = True, z_source = SystemZone, z_created_at = 0, z_updated_at = 0\<rparr>"

definition ex_local :: "nat local_sys" where
  "ex_local = \<lparr>ls_db = \<lparr>ld_zones = [ex_lan], ld_records = [], ld_rules = []\<rparr>, ls_events = []\<rparr>"

definition ex_root :: "nat auth_context" where "ex_root = User 1 AdminRole"

lemma lan_zone_name [simp]: "validate_zone_name ''lan'' = Inr ()"
proof -
  have "trim ''lan'' = ''lan''" by (rule trim_graphic) (simp_all add: graphic_def code_def)
  then show ?thesis
    by (simp add: validate_zone_name_def validate_charset_def domain_char_def is_ascii_alphanumeric_def is_ascii_lowercase_def code_def)
qed

lemma ex_local_ok: "local_ok (ls_db ex_local)"
  by (simp add: ex_local_def ex_lan_def local_ok_def zones_ok_def records_ok_def rules_ok_def links_ok_def)

theorem local_tables_invariant_witness:
  "local_ok (ls_db (snd (create_forwarding_rule 5 (Some ex_root) 2 ''corp.example'' ''10.0.0.1'' True ex_local)))"
  using local_tables_invariant [OF r_into_rtranclp ex_local_ok, of show_nat id 10]
    local_step.intros(8) [of show_nat id 10 ex_local 5 "Some ex_root" 2 "''corp.example''" "''10.0.0.1''" True]
  by blast

section \<open>Cached answers and forwarding rules\<close>

abbreviation evicted_base :: "string \<Rightarrow> string" where
  "evicted_base domain \<equiv> canonical_domain (case strip_prefix ''*.'' domain of Some s \<Rightarrow> s | None \<Rightarrow> domain)"

lemma lookup_invalidated:
  "Mapping.lookup (c_entries (snd (cache_invalidate_subtree domain c))) (u, d, t) =
     (if in_subtree (evicted_base domain) d then None else Mapping.lookup (c_entries c) (u, d, t))"
  by (simp add: cache_invalidate_subtree_def Let_def lookup_filter suffix_covers_in_subtree split: option.splits)

lemma runner_cache:
  "Mapping.lookup (c_entries (snd (fold (on_local_changed H hash_order admin S) es vc))) (u, d, t) = Some e \<Longrightarrow>
   Mapping.lookup (c_entries (snd vc)) (u, d, t) = Some e \<and> (\<forall>n \<in> set es. \<not> in_subtree (evicted_base n) d)"
proof (induction es arbitrary: vc)
  case (Cons n es)
  from Cons.IH [OF Cons.prems [unfolded fold_Cons comp_apply]]
  show ?case by (auto simp: on_local_changed_def lookup_invalidated split: if_splits prod.splits)
qed simp

lemma runner_view:
  "fst (fold (on_local_changed H hash_order admin S) es vc) =
     (if es = [] then fst vc else build_authoritative_view H hash_order admin S)"
  by (induction es arbitrary: vc) (auto simp: on_local_changed_def)

definition rule_covers :: "string \<Rightarrow> 'u forwarding_rule \<Rightarrow> bool" where
  "rule_covers d r \<longleftrightarrow> fr_enabled r \<and> in_subtree (to_ascii_lowercase (fr_domain r)) d"

lemma find_filter: "find P xs = find P (filter P xs)"
  by (induction xs) auto

lemma match_rule_filter:
  assumes "filter (rule_covers d) rules = filter (rule_covers d) rules'"
  shows "match_forwarding_rule (view_build H ho zs rs (sort_key fr_domain rules)) d =
    match_forwarding_rule (view_build H' ho' zs' rs' (sort_key fr_domain rules')) d"
proof -
  have key: "filter (\<lambda>r. suffix_covers (fr_domain r) d) (sort_longest_first fr_domain
      (map (\<lambda>r. r\<lparr>fr_domain := to_ascii_lowercase (fr_domain r)\<rparr>) (filter fr_enabled (sort_key fr_domain rs)))) =
    sort_longest_first fr_domain (map (\<lambda>r. r\<lparr>fr_domain := to_ascii_lowercase (fr_domain r)\<rparr>)
      (sort_key fr_domain (filter (rule_covers d) rs)))" for rs :: "'a forwarding_rule list"
    unfolding sort_longest_first_def
    by (simp add: filter_sort filter_map comp_def suffix_covers_in_subtree rule_covers_def [abs_def] conj_commute)
  show ?thesis
    unfolding match_forwarding_rule_def view_build_def Let_def authoritative_view.simps
    by (subst (1 2) find_filter) (simp only: key assms)
qed

lemma rule_base:
  assumes "validate_local_domain n = Inr ()" and "canonical d" and "in_subtree (to_ascii_lowercase n) d"
  shows "in_subtree (evicted_base n) d"
proof -
  have n: "n \<noteq> []" "list_all domain_char n"
    using assms(1) by (auto simp: validate_local_domain_def validate_charset_def split: if_splits)
  have "last n \<noteq> CHR ''.''"
  proof
    assume "last n = CHR ''.''"
    with n(1) have "last (to_ascii_lowercase n) = CHR ''.''" by (simp add: last_map)
    with assms(3) n(1) have "last d = CHR ''.''" "d \<noteq> []" by (auto simp: in_subtree_def)
    with assms(2) show False by (simp add: canonical_def)
  qed
  then have "normalize_owned n = to_ascii_lowercase n" by (simp add: normalize_owned_def trim_end_matches_id)
  moreover have "strip_prefix ''*.'' n = None"
  proof (rule ccontr)
    assume "strip_prefix ''*.'' n \<noteq> None"
    then obtain r where "n = ''*.'' @ r" by (auto simp: strip_prefix_Some)
    with n(2) show False by (simp add: domain_char_def is_ascii_alphanumeric_def is_ascii_uppercase_def
        is_ascii_lowercase_def is_ascii_digit_def code_def)
  qed
  ultimately show ?thesis using assms(3) by (simp add: canonical_domain_def)
qed

lemma filter_update_where:
  "(\<And>x. x \<in> set xs \<Longrightarrow> key x = rid \<Longrightarrow> \<not> P x \<and> \<not> P (f x)) \<Longrightarrow> filter P (update_where key rid f xs) = filter P xs"
  by (induction xs) (auto simp: update_where_def)

lemma filter_dropped: "(\<And>x. x \<in> set xs \<Longrightarrow> \<not> Q x \<Longrightarrow> \<not> P x) \<Longrightarrow> filter P (filter Q xs) = filter P xs"
  by (induction xs) auto

lemma rules_change:
  assumes "local_write db es db'" and ok: "rules_ok (ld_rules db)" and d: "canonical d"
    and out: "\<forall>n \<in> set es. \<not> in_subtree (evicted_base n) d"
  shows "filter (rule_covers d) (ld_rules db') = filter (rule_covers d) (ld_rules db)"
proof -
  have no: "\<not> rule_covers d r" if "fr_domain r \<in> set es" "validate_local_domain (fr_domain r) = Inr ()" for r
    using that out rule_base [OF that(2) d] by (auto simp: rule_covers_def)
  from assms(1) no show ?thesis
  proof cases
    case (new_rule dmn now rid ups en r)
    then have "fr_domain r = dmn" "ld_rules db' = ld_rules db @ [r]" by (auto simp: create_rule_row_def Let_def split: if_splits)
    with no [of r] new_rule show ?thesis by simp
  next
    case (set_rule dm rid old up enb r)
    from set_rule have old: "old \<in> set (ld_rules db)" "fr_id old = rid" by (auto simp: get_rule_def dest: find_key_Some)
    from update_rule_row_ok [OF set_rule(3)] set_rule(2)
    have r: "r = set_rule dm up enb old" "ld_rules db' = update_where fr_id rid (set_rule dm up enb) (ld_rules db)" by auto
    have v: "validate_local_domain (fr_domain old) = Inr ()" "validate_local_domain (fr_domain r) = Inr ()"
      using ok old(1) set_rule(1) by (auto simp: r(1) rules_ok_def set_rule_def given_def split: option.splits)
    have "x = old" if "x \<in> set (ld_rules db)" "fr_id x = rid" for x
      using that old ok by (auto simp: rules_ok_def distinct_map dest: inj_onD)
    with no v set_rule(4) show ?thesis
      unfolding r(2) by (intro filter_update_where) (auto simp: r(1))
  next
    case (drop_rule rid r)
    then have r: "r \<in> set (ld_rules db)" "fr_id r = rid" by (auto simp: get_rule_def dest: find_key_Some)
    with ok have "validate_local_domain (fr_domain r) = Inr ()" by (simp add: rules_ok_def)
    moreover have "x = r" if "x \<in> set (ld_rules db)" "fr_id x = rid" for x
      using that r ok by (auto simp: rules_ok_def distinct_map dest: inj_onD)
    ultimately have "x \<in> set (ld_rules db) \<Longrightarrow> fr_id x = rid \<Longrightarrow> \<not> rule_covers d x" for x
      using no drop_rule(1) by auto
    with drop_rule show ?thesis by (auto simp: delete_rule_row_def simp del: filter_filter intro!: filter_dropped)
  qed (auto simp: create_zone_row_def create_record_row_def update_record_row_def delete_record_row_def upsert_record_row_def
    create_rule_row_def delete_zone_row_def Let_def dest: update_zone_row_ok split: if_splits option.splits)
qed

lemma view_of_tables [simp]:
  "build_authoritative_view H hash_order (User i AdminRole) S =
     view_build H hash_order (list_zones (ls_db S)) (list_records (ls_db S)) (sort_key fr_domain (ld_rules (ls_db S)))"
  by (simp add: build_authoritative_view_def svc_list_zones_def svc_list_records_def svc_list_forwarding_rules_def
      require_admin_def list_rules_def)

text \<open>
  C15: the cache follows the forwarding rules. Let a request edit the tables and let the runner handle
  the events it announced. Every answer still in the cache is for a name that the same rule (the
  longest enabled one, or none) forwarded before the edit and forwards after it: no answer survives
  a change of the resolver that is to answer its name.
\<close>

theorem cache_follows_forwarding_rules:
  assumes "local_step ustr lower lan S S'" and "local_ok (ls_db S)"
    and "ls_events S' = ls_events S @ es" and "canonical d"
    and "fold (on_local_changed H hash_order (User i AdminRole) S') es
           (build_authoritative_view H hash_order (User i AdminRole) S, c) = (view', c')"
    and "Mapping.lookup (c_entries c') (u, d, t) = Some e"
  shows "Mapping.lookup (c_entries c) (u, d, t) = Some e \<and>
    match_forwarding_rule view' d = match_forwarding_rule (build_authoritative_view H hash_order (User i AdminRole) S) d"
proof -
  have out: "Mapping.lookup (c_entries c) (u, d, t) = Some e" "\<forall>n \<in> set es. \<not> in_subtree (evicted_base n) d"
    using runner_cache [of H hash_order "User i AdminRole" S' es
        "(build_authoritative_view H hash_order (User i AdminRole) S, c)" u d t e] assms(5,6) by auto
  have "filter (rule_covers d) (ld_rules (ls_db S')) = filter (rule_covers d) (ld_rules (ls_db S))"
    using local_step_wrote [OF assms(1)] assms(2-4) out(2) rules_change
    by (auto simp: wrote_def announced_def local_ok_def)
  moreover have "view' = (if es = [] then build_authoritative_view H hash_order (User i AdminRole) S
      else build_authoritative_view H hash_order (User i AdminRole) S')"
    using runner_view [of H hash_order "User i AdminRole" S' es
        "(build_authoritative_view H hash_order (User i AdminRole) S, c)"] assms(5) by (simp del: view_of_tables)
  ultimately show ?thesis
    using out(1) match_rule_filter by (auto split: if_splits)
qed

text \<open>Deleting the rule for \<open>corp.example\<close> while an answer for \<open>a.b\<close> is cached.\<close>

definition ex_hickory :: "unit hickory" where
  "ex_hickory = \<lparr>h_from_bytes = (\<lambda>_. None), h_to_bytes = (\<lambda>_. None), h_from_str_relaxed = (\<lambda>_. None),
     h_from_utf8 = (\<lambda>_. None), h_to_string = (\<lambda>_. [])\<rparr>"

definition ex_cached :: "(nat, nat) dns_cache" where
  "ex_cached = (cache_new 10)\<lparr>c_entries := Mapping.update (DefaultUpstream, ''a.b'', 1)
     \<lparr>ce_wire = [1], ce_inserted_at = 0, ce_ttl = 60, ce_seq = 0\<rparr> Mapping.empty\<rparr>"

definition ex_ruled :: "nat local_sys" where
  "ex_ruled = \<lparr>ls_db = \<lparr>ld_zones = [], ld_records = [], ld_rules = [\<lparr>fr_id = 2, fr_domain = ''corp.example'',
     fr_upstream = ''10.0.0.1'', fr_enabled = True, fr_created_at = 5\<rparr>]\<rparr>, ls_events = []\<rparr>"

definition ex_unruled :: "nat local_sys" where
  "ex_unruled = snd (delete_forwarding_rule show_nat (Some ex_root) 2 ex_ruled)"

lemma ex_ruled_ok: "local_ok (ls_db ex_ruled)"
proof -
  have "validate_local_domain ''corp.example'' = Inr ()" by code_simp
  then show ?thesis by (simp add: ex_ruled_def local_ok_def zones_ok_def records_ok_def rules_ok_def links_ok_def)
qed

theorem cache_follows_forwarding_rules_witness:
  "\<exists>e. Mapping.lookup (c_entries ex_cached) (DefaultUpstream, ''a.b'', 1) = Some e \<and>
     match_forwarding_rule (build_authoritative_view ex_hickory id ex_root ex_unruled) ''a.b'' =
     match_forwarding_rule (build_authoritative_view ex_hickory id ex_root ex_ruled) ''a.b''"
proof -
  let ?run = "fold (on_local_changed ex_hickory id (User (1::nat) AdminRole) ex_unruled) [''corp.example'']
    (build_authoritative_view ex_hickory id (User (1::nat) AdminRole) ex_ruled, ex_cached)"
  have events: "ls_events ex_unruled = ls_events ex_ruled @ [''corp.example'']"
    by (simp add: ex_unruled_def ex_ruled_def ex_root_def delete_forwarding_rule_def attempt_def require_admin_def
        ensure_forwarding_rule_def get_rule_def ok_or_def require_def delete_rule_row_def emit_domain_changed_def)
  have "\<not> suffix_covers (evicted_base ''corp.example'') ''a.b''" by code_simp
  moreover have "Mapping.lookup (c_entries ex_cached) (DefaultUpstream, ''a.b'', 1) \<noteq> None" by (simp add: ex_cached_def)
  ultimately obtain e where e: "Mapping.lookup (c_entries (snd ?run)) (DefaultUpstream, ''a.b'', 1) = Some e"
    by (auto simp: on_local_changed_def lookup_invalidated suffix_covers_in_subtree)
  have c: "canonical ''a.b''" by code_simp
  have "local_step show_nat id 10 ex_ruled ex_unruled" unfolding ex_unruled_def by (rule local_step.intros(10))
  from cache_follows_forwarding_rules [OF this ex_ruled_ok events c prod.collapse [symmetric] e]
  show ?thesis by (simp add: on_local_changed_def ex_root_def)
qed

section \<open>What deleting a zone and registering a lease do to the records\<close>

text \<open>
  Deleting a disabled zone puts its records back into service. A record of a disabled zone is
  not served; the zone's row goes, the record's link becomes empty (\<open>ON DELETE SET NULL\<close>), and an
  enabled record without a zone is always served.
\<close>

theorem deleting_disabled_zone_publishes_records:
  assumes "local_ok (ls_db S)" and "get_zone (ls_db S) zid = Some z" and "\<not> z_enabled z" and "z_source z = ManualZone"
    and "r \<in> set (ld_records (ls_db S))" and "lr_zone_id r = Some zid" and "lr_enabled r"
    and "require_admin auth = Inr ()"
  shows "fst (delete_zone ustr auth zid S) = Inr () \<and>
    \<not> record_served (ld_zones (ls_db S)) r \<and>
    r\<lparr>lr_zone_id := None\<rparr> \<in> set (ld_records (ls_db (snd (delete_zone ustr auth zid S)))) \<and>
    record_served (ld_zones (ls_db (snd (delete_zone ustr auth zid S)))) (r\<lparr>lr_zone_id := None\<rparr>)"
proof -
  have "\<not> record_served (ld_zones (ls_db S)) r"
    using assms(1-3,6) by (auto simp: record_served_def local_ok_def zones_ok_def get_zone_def distinct_map
        dest!: find_key_Some dest: inj_onD)
  moreover have "delete_zone ustr auth zid S =
      (Inr (), emit_domain_changed (z_name z) (S\<lparr>ls_db := snd (delete_zone_row zid (ls_db S))\<rparr>))"
    using assms(2,4) by (simp add: delete_zone_def assms(8) attempt_def ensure_zone_def ok_or_def require_def delete_zone_row_def)
  ultimately show ?thesis
    using assms(5-7) by (auto simp: emit_domain_changed_def delete_zone_row_def record_served_def image_iff intro: bexI [of _ r])
qed

definition ex_guest :: "nat dns_zone" where
  "ex_guest = \<lparr>z_id = 10, z_name = ''lan'', z_enabled = False, z_source = ManualZone, z_created_at = 0, z_updated_at = 0\<rparr>"

definition ex_nas :: "nat local_record" where
  "ex_nas = \<lparr>lr_id = 3, lr_zone_id = Some 10, lr_domain = ''nas.lan'', lr_record_type = TypeA, lr_value = ''10.0.0.9'',
     lr_ttl = 60, lr_enabled = True, lr_source = ManualRecord, lr_created_at = 0, lr_updated_at = 0\<rparr>"

definition ex_off :: "nat local_sys" where
  "ex_off = \<lparr>ls_db = \<lparr>ld_zones = [ex_guest], ld_records = [ex_nas], ld_rules = []\<rparr>, ls_events = []\<rparr>"

lemma ex_off_ok: "local_ok (ls_db ex_off)"
proof -
  have "validate_record_domain ''nas.lan'' = Inr ()" by code_simp
  then show ?thesis by (simp add: ex_off_def ex_guest_def ex_nas_def local_ok_def zones_ok_def records_ok_def rules_ok_def links_ok_def)
qed

theorem deleting_disabled_zone_publishes_records_witness:
  "\<not> record_served (ld_zones (ls_db ex_off)) ex_nas \<and>
   record_served (ld_zones (ls_db (snd (delete_zone show_nat (Some ex_root) 10 ex_off)))) (ex_nas\<lparr>lr_zone_id := None\<rparr>)"
proof -
  have "get_zone (ls_db ex_off) 10 = Some ex_guest" "ex_nas \<in> set (ld_records (ls_db ex_off))"
    by (simp_all add: ex_off_def get_zone_def ex_guest_def)
  moreover have "\<not> z_enabled ex_guest" "z_source ex_guest = ManualZone" "lr_zone_id ex_nas = Some 10" "lr_enabled ex_nas"
    by (simp_all add: ex_guest_def ex_nas_def)
  moreover have "require_admin (Some ex_root) = Inr ()" by (simp add: ex_root_def)
  ultimately show ?thesis
    using deleting_disabled_zone_publishes_records [OF ex_off_ok, of 10 ex_guest ex_nas "Some ex_root" show_nat] by blast
qed

text \<open>What the DHCP runner may write: an enabled \<open>A\<close> record one label below \<open>lan\<close>, linked to the LAN zone.\<close>

definition lease_record :: "'u \<Rightarrow> string \<Rightarrow> 'u local_record \<Rightarrow> bool" where
  "lease_record lan ip r \<longleftrightarrow>
     lr_source r = DhcpRecord \<and> lr_record_type r = TypeA \<and> lr_zone_id r = Some lan \<and> lr_value r = ip \<and> lr_enabled r \<and>
     1 \<le> lr_ttl r \<and>
     (\<exists>label. lr_domain r = label @ ''.lan'' \<and> label \<noteq> [] \<and> CHR ''.'' \<notin> set label \<and> CHR ''*'' \<notin> set label)"

lemma dotless_prefix: "CHR ''.'' \<notin> set p \<Longrightarrow> strip_prefix ''*.'' (p @ ''.lan'') = Some s \<Longrightarrow> p = ''*'' \<and> s = ''lan''"
  by (cases p; cases "tl p") (auto split: if_splits)

lemma star_not_domain_char: "list_all domain_char s \<Longrightarrow> CHR ''*'' \<notin> set s"
  by (auto simp: list_all_iff domain_char_def is_ascii_alphanumeric_def is_ascii_uppercase_def is_ascii_lowercase_def
      is_ascii_digit_def code_def)

lemma valid_lease_label:
  assumes "validate_record_domain (label @ ''.lan'') = Inr ()" and "CHR ''.'' \<notin> set label"
  shows "CHR ''*'' \<notin> set label"
proof (cases "strip_prefix ''*.'' (label @ ''.lan'')")
  case None
  with assms(1) have "list_all domain_char (label @ ''.lan'')"
    by (auto simp: validate_record_domain_def validate_local_domain_def validate_charset_def split: if_splits)
  then show ?thesis using star_not_domain_char by fastforce
next
  case (Some s)
  with dotless_prefix [OF assms(2)] assms(1) show ?thesis
    by (auto simp: validate_record_domain_def validate_local_domain_def)
qed

lemma upsert_confined:
  assumes w: "upsert_record_row r db = Inr (found, db')" and ok: "records_ok (ld_records db)"
  shows "(\<forall>x \<in> set (ld_records db'). x \<in> set (ld_records db) \<or> (\<exists>i t. x = r\<lparr>lr_id := i, lr_created_at := t\<rparr>)) \<and>
    (\<forall>x \<in> set (ld_records db). lr_source x \<noteq> lr_source r \<longrightarrow> x \<in> set (ld_records db'))"
proof (cases "find (same_slot (lr_domain r) (lr_record_type r)) (ld_records db)")
  case None
  have "\<exists>i t. r = r\<lparr>lr_id := i, lr_created_at := t\<rparr>"
    by (rule exI [of _ "lr_id r"], rule exI [of _ "lr_created_at r"]) simp
  with None w show ?thesis by (auto simp: upsert_record_row_def split: if_splits)
next
  case (Some y)
  then have y: "y \<in> set (ld_records db)" "slot y = slot r" by (auto simp: find_Some_iff same_slot_iff)
  have "z = y" if "z \<in> set (ld_records db)" "slot z = slot r" for z
    using that y ok by (metis records_ok_def distinct_map inj_onD)
  with Some w show ?thesis by (auto simp: upsert_record_row_def Let_def same_slot_iff image_iff split: if_splits)
qed

lemma strip_any_subset: "strip_any qs s = Some r \<Longrightarrow> set r \<subseteq> set s"
  by (induction qs) (auto simp: strip_prefix_Some split: option.splits)

lemma trim_with_subset: "set (trim_with qs s) \<subseteq> set s"
proof (induction qs s rule: trim_with.induct)
  case (1 qs s)
  show ?case
    using "1.IH" strip_any_subset [of qs s] by (subst trim_with.simps) (auto split: option.splits)
qed

lemma trim_subset: "set (trim s) \<subseteq> set s"
  using trim_with_subset [of "map rev ws_seqs" "rev (trim_with ws_seqs s)"] trim_with_subset [of ws_seqs s]
  by (auto simp: trim_def)

lemma hd_split_char: "c \<notin> set (hd (split_char c s))"
  by (induction s) (auto split: list.splits)

lemma lan_label_dotless:
  assumes "lan_label lower hostname = Some label" and "\<And>s. CHR ''.'' \<notin> set s \<Longrightarrow> CHR ''.'' \<notin> set (lower s)"
  shows "label \<noteq> [] \<and> CHR ''.'' \<notin> set label"
proof -
  have "CHR ''.'' \<notin> set (trim (hd (split_char (CHR ''.'') hostname)))"
    using trim_subset hd_split_char by (metis subsetD)
  then have "CHR ''.'' \<notin> set (lower (trim (hd (split_char (CHR ''.'') hostname))))" by (rule assms(2))
  with assms(1) show ?thesis by (auto simp: lan_label_def Let_def split: if_splits)
qed

abbreviation lease_row :: "int \<Rightarrow> 'u \<Rightarrow> nat option \<Rightarrow> 'u \<Rightarrow> string \<Rightarrow> string \<Rightarrow> 'u local_record" where
  "lease_row now lan duration rid label ip \<equiv>
     record_row now rid \<lparr>rq_zone_id = Some lan, rq_domain = label @ ''.lan'', rq_record_type = TypeA,
       rq_value = ip, rq_ttl = lease_ttl duration, rq_enabled = True\<rparr> DhcpRecord"

lemma upsert_record_writes:
  assumes "ls_db (snd (upsert_record ustr now auth rid req source S)) \<noteq> ls_db S"
  shows "validate_record_domain (rq_domain req) = Inr () \<and>
    (\<exists>found. upsert_record_row (record_row now rid req source) (ls_db S) =
       Inr (found, ls_db (snd (upsert_record ustr now auth rid req source S))))"
proof -
  have ad: "\<exists>u. require_admin auth = Inr u" "\<exists>u. check_request ustr (ls_db S) req = Inr u"
    "\<exists>w. upsert_record_row (record_row now rid req source) (ls_db S) = Inr w"
    using assms unfolding upsert_record_def attempt_def repo_internal_def by (auto split: sum.splits repo_error.splits)
  then obtain found db where w: "upsert_record_row (record_row now rid req source) (ls_db S) = Inr (found, db)" by auto
  with ad have "ls_db (snd (upsert_record ustr now auth rid req source S)) = db"
    by (auto simp: upsert_record_def attempt_def repo_internal_def ok_or_def emit_domain_changed_def require_admin_def
        split: option.splits)
  moreover have "validate_record_domain (rq_domain req) = Inr ()"
    using ad(2) by (auto simp: check_request_def split: sum.splits)
  ultimately show ?thesis using w by blast
qed

lemma register_lease_wrote:
  assumes "S' = register_lease lower ustr now admin lan duration rid hostname ip S" and "ls_db S' \<noteq> ls_db S"
  shows "\<exists>label found. lan_label lower hostname = Some label \<and> validate_record_domain (label @ ''.lan'') = Inr () \<and>
    upsert_record_row (lease_row now lan duration rid label ip) (ls_db S) = Inr (found, ls_db S')"
proof -
  obtain label where l: "lan_label lower hostname = Some label"
    using assms by (auto simp: register_lease_def split: option.splits)
  let ?up = "upsert_record ustr now (Some admin) rid \<lparr>rq_zone_id = Some lan, rq_domain = label @ ''.lan'',
    rq_record_type = TypeA, rq_value = ip, rq_ttl = lease_ttl duration, rq_enabled = True\<rparr> DhcpRecord S"
  have "S' = S \<or> S' = snd ?up" using assms(1) l by (auto simp: register_lease_def split: sum.splits app_error.splits)
  with assms(2) have "S' = snd ?up" by blast
  with upsert_record_writes [of ustr now "Some admin" rid _ DhcpRecord S] assms(2) l show ?thesis by fastforce
qed

lemma lease_row_is:
  "label \<noteq> [] \<Longrightarrow> CHR ''.'' \<notin> set label \<Longrightarrow> CHR ''*'' \<notin> set label \<Longrightarrow>
   lease_record lan ip ((lease_row now lan duration rid label ip)\<lparr>lr_id := i, lr_created_at := t\<rparr>)"
  by (auto simp: lease_record_def record_row_def lease_ttl_def FALLBACK_TTL_SECS_def split: option.splits)

text \<open>
  C17: a lease can only put a single-label name under \<open>lan\<close>. Whatever host name a DHCP client sends,
  registering its lease leaves every manual and system record as it was, and a record that is new
  or changed is an enabled \<open>A\<close> record of the LAN zone for \<open>label.lan\<close>, where the label is not empty
  and has neither a dot nor a wildcard. Lower-casing is assumed not to produce a dot.
\<close>

theorem register_lease_confined:
  assumes ok: "local_ok (ls_db S)" and low: "\<And>s. CHR ''.'' \<notin> set s \<Longrightarrow> CHR ''.'' \<notin> set (lower s)"
    and S': "S' = register_lease lower ustr now admin lan duration rid hostname ip S"
  shows "(\<forall>r \<in> set (ld_records (ls_db S)). lr_source r \<noteq> DhcpRecord \<longrightarrow> r \<in> set (ld_records (ls_db S'))) \<and>
    (\<forall>r \<in> set (ld_records (ls_db S')). r \<in> set (ld_records (ls_db S)) \<or> lease_record lan ip r)"
proof (cases "ls_db S' = ls_db S")
  case False
  obtain label found where l: "lan_label lower hostname = Some label"
    and v: "validate_record_domain (label @ ''.lan'') = Inr ()"
    and w: "upsert_record_row (lease_row now lan duration rid label ip) (ls_db S) = Inr (found, ls_db S')"
    using register_lease_wrote [OF S' False] by blast
  have d: "label \<noteq> []" "CHR ''.'' \<notin> set label" using lan_label_dotless [OF l low] by auto
  note row = lease_row_is [OF d valid_lease_label [OF v d(2)], where lan = lan and ip = ip and now = now and duration = duration and rid = rid]
  have "lr_source (lease_row now lan duration rid label ip) = DhcpRecord" by (simp add: record_row_def)
  moreover have "records_ok (ld_records (ls_db S))" using ok by (simp add: local_ok_def)
  ultimately show ?thesis using upsert_confined [OF w] row by metis
qed simp

theorem register_lease_confined_witness:
  "list_all (\<lambda>r. r \<in> set (ld_records (ls_db ex_off)) \<or> lease_record 10 ''10.0.0.7'' r)
     (ld_records (ls_db (register_lease to_ascii_lowercase show_nat 0 ex_root 10 None 4 ''*.evil'' ''10.0.0.7'' ex_off)))"
proof -
  have "CHR ''.'' \<notin> set (map ascii_lower s)" if "CHR ''.'' \<notin> set s" for s
    using that ascii_lower_dot by (metis (no_types, lifting) image_iff list.set_map)
  from register_lease_confined [OF ex_off_ok, of "map ascii_lower", OF this refl] show ?thesis unfolding list_all_iff by blast
qed

end
