(* ===== verification/Upstream_Pool.thy ===== *)
theory Upstream_Pool
  imports Ip_Addr Complex_Main "HOL-Library.Sublist"
begin

text \<open>
  The forwarding ladder (\<open>wardnetd/src/dns/upstream_pool.rs\<close>), the reachability the prober publishes
  (\<open>wardnetd-services/src/dns/upstream_health.rs\<close>) and the prober itself
  (\<open>spawn_upstream_latency_prober\<close> of \<open>wardnetd/src/dns/server.rs\<close>).

  A resolver of the third-party crate is the record of what it is built from. Latencies are
  rationals (\<open>f64\<close> in the source; the rounding of the running average is the parameter \<open>fl\<close>), and
  what a probe measures is the parameter \<open>probe\<close>. Shown: which upstreams serve and in which order,
  that the pool is never empty nor plaintext where the administrator asked for encryption, that
  reachability is debounced, and two ways in which it is not.
\<close>

section \<open>Configuration\<close>

datatype dns_resolution_mode = Forwarding | RecursiveMode
datatype forwarder_selection_mode = Failover | Fastest | SingleUpstream
datatype dns_protocol = UdpProto | TcpProto | TlsProto | HttpsProto

definition forwarder_mode_as_str :: "forwarder_selection_mode \<Rightarrow> string" where
  "forwarder_mode_as_str m = (case m of Failover \<Rightarrow> ''failover'' | Fastest \<Rightarrow> ''fastest'' | SingleUpstream \<Rightarrow> ''single'')"

definition forwarder_mode_from_wire :: "string \<Rightarrow> forwarder_selection_mode" where
  "forwarder_mode_from_wire s = (if s = ''fastest'' then Fastest else if s = ''single'' then SingleUpstream else Failover)"

record upstream_dns =
  up_address :: string
  up_name :: string
  up_protocol :: dns_protocol
  up_port :: "nat option"
  up_tls_server_name :: "string option"

record dns_config =
  cfg_enabled :: bool
  cfg_resolution_mode :: dns_resolution_mode
  cfg_upstream_servers :: "upstream_dns list"
  cfg_forwarder_selection_mode :: forwarder_selection_mode
  cfg_single_upstream :: "string option"
  cfg_cache_size :: nat
  cfg_cache_ttl_min_secs :: nat
  cfg_cache_ttl_max_secs :: nat
  cfg_dnssec_enabled :: bool
  cfg_rebinding_protection :: bool
  cfg_rate_limit_per_second :: nat
  cfg_upstream_timeout_ms :: nat
  cfg_forward_deadline_ms :: nat
  cfg_dns_filtering_enabled :: bool
  cfg_query_log_enabled :: bool
  cfg_query_log_retention_days :: nat

section \<open>Resolvers and the pool\<close>

text \<open>What a single-server resolver of \<open>hickory_resolver\<close> is built from; times in milliseconds.\<close>

datatype connection = ConnUdp | ConnTcp | ConnTls string | ConnHttps string

record resolver =
  rv_connection :: connection
  rv_port :: nat
  rv_name_server :: "ip_addr option"
  rv_timeout :: nat
  rv_attempts :: nat
  rv_concurrent :: nat
  rv_cache_size :: nat
  rv_validate :: bool

definition resolver_for :: "upstream_dns \<Rightarrow> bool \<Rightarrow> nat \<Rightarrow> resolver" where
  "resolver_for upstream dnssec timeout =
     (let sni = (case up_tls_server_name upstream of Some n \<Rightarrow> n | None \<Rightarrow> [])
      in \<lparr>rv_connection = (case up_protocol upstream of UdpProto \<Rightarrow> ConnUdp | TcpProto \<Rightarrow> ConnTcp
             | HttpsProto \<Rightarrow> ConnHttps sni | TlsProto \<Rightarrow> ConnTls sni),
          rv_port = (case up_port upstream of Some p \<Rightarrow> p
             | None \<Rightarrow> (case up_protocol upstream of UdpProto \<Rightarrow> 53 | TcpProto \<Rightarrow> 53 | TlsProto \<Rightarrow> 853 | HttpsProto \<Rightarrow> 443)),
          rv_name_server = parse_ip (up_address upstream), rv_timeout = timeout, rv_attempts = 0, rv_concurrent = 1,
          rv_cache_size = 0, rv_validate = dnssec\<rparr>)"

record upstream_entry =
  ue_upstream :: upstream_dns
  ue_resolver :: resolver

abbreviation entry_address :: "upstream_entry \<Rightarrow> string" where
  "entry_address e \<equiv> up_address (ue_upstream e)"

record upstream_pool =
  pl_all :: "upstream_entry list"
  pl_serving :: "upstream_entry list"

record upstream_latency =
  ul_address :: string
  ul_avg_latency_ms :: "rat option"
  ul_reachable :: bool

type_synonym upstream_health = "upstream_latency list"

definition is_unreachable :: "upstream_health \<Rightarrow> string \<Rightarrow> bool" where
  "is_unreachable health address = list_ex (\<lambda>u. ul_address u = address \<and> \<not> ul_reachable u) health"

definition latency_ms :: "upstream_health \<Rightarrow> string \<Rightarrow> rat option" where
  "latency_ms health address =
     (case find (\<lambda>u. ul_address u = address) health of Some u \<Rightarrow> ul_avg_latency_ms u | None \<Rightarrow> None)"

definition encrypted :: "upstream_dns \<Rightarrow> bool" where
  "encrypted u \<longleftrightarrow> up_protocol u = TlsProto \<or> up_protocol u = HttpsProto"

definition FALLBACK_UPSTREAM :: string where "FALLBACK_UPSTREAM = ''1.1.1.1''"

definition resolvable_upstreams :: "upstream_dns list \<Rightarrow> upstream_dns list" where
  "resolvable_upstreams configured =
     (let usable = filter (\<lambda>u. if parse_ip (up_address u) = None then False
                               else if encrypted u \<and> up_tls_server_name u = None then False else True) configured
      in if usable = []
         then [\<lparr>up_address = FALLBACK_UPSTREAM, up_name = ''Cloudflare'', up_protocol = UdpProto, up_port = None,
                up_tls_server_name = None\<rparr>]
         else usable)"

definition build_resolver :: "upstream_dns \<Rightarrow> dns_config \<Rightarrow> resolver" where
  "build_resolver upstream cfg = resolver_for upstream (cfg_dnssec_enabled cfg) (cfg_upstream_timeout_ms cfg)"

definition effective :: "upstream_entry list \<Rightarrow> dns_config \<Rightarrow> upstream_entry list" where
  "effective all cfg =
     (case (cfg_forwarder_selection_mode cfg, cfg_single_upstream cfg) of
        (SingleUpstream, Some addr) \<Rightarrow>
          (let selected = filter (\<lambda>e. entry_address e = addr) all in if selected = [] then all else selected)
      | _ \<Rightarrow> all)"

text \<open>\<open>f64::MAX\<close>, the sort key of an upstream without a measurement.\<close>

definition F64_MAX :: rat where "F64_MAX = of_nat ((2 ^ 53 - 1) * 2 ^ 971)"

definition latency_key :: "upstream_health \<Rightarrow> upstream_entry \<Rightarrow> rat" where
  "latency_key health e = (case latency_ms health (entry_address e) of Some l \<Rightarrow> l | None \<Rightarrow> F64_MAX)"

definition serving_order :: "upstream_entry list \<Rightarrow> dns_config \<Rightarrow> upstream_health \<Rightarrow> upstream_entry list" where
  "serving_order all cfg health =
     (let eff = effective all cfg;
          reachable = filter (\<lambda>e. \<not> is_unreachable health (entry_address e)) eff;
          serving = (if reachable = [] then eff else reachable)
      in if cfg_forwarder_selection_mode cfg = Fastest then sort_key (latency_key health) serving else serving)"

definition pool_build :: "dns_config \<Rightarrow> upstream_pool" where
  "pool_build cfg =
     (let all = map (\<lambda>u. \<lparr>ue_upstream = u, ue_resolver = build_resolver u cfg\<rparr>) (resolvable_upstreams (cfg_upstream_servers cfg))
      in \<lparr>pl_all = all, pl_serving = effective all cfg\<rparr>)"

definition with_serving :: "dns_config \<Rightarrow> upstream_health \<Rightarrow> upstream_pool \<Rightarrow> upstream_pool" where
  "with_serving cfg health p = p\<lparr>pl_serving := serving_order (pl_all p) cfg health\<rparr>"

section \<open>The prober\<close>

definition LATENCY_UNREACHABLE_STREAK :: nat where "LATENCY_UNREACHABLE_STREAK = 2"

text \<open>
  The rolling state: \<open>ewma\<close> and \<open>fail_streak\<close>. The streak is a \<open>u32\<close> in the source, which one
  probe every 30 seconds fills in four thousand years.
\<close>

record prober =
  pb_ewma :: "string \<rightharpoonup> rat"
  pb_streak :: "string \<rightharpoonup> nat"

definition probe_upstreams :: "(upstream_dns \<Rightarrow> rat option) \<Rightarrow> upstream_dns list \<Rightarrow> (string \<times> rat option) list" where
  "probe_upstreams probe upstreams =
     map (\<lambda>u. (up_address u, if parse_ip (up_address u) \<noteq> None then probe u else None)) upstreams"

text \<open>\<open>ALPHA * rtt + (1 - ALPHA) * prev\<close> with \<open>ALPHA = 0.3\<close>, every operation rounded.\<close>

definition ewma_step :: "(rat \<Rightarrow> rat) \<Rightarrow> rat \<Rightarrow> rat \<Rightarrow> rat" where
  "ewma_step fl rtt prev = fl (fl (fl (3 / 10) * rtt) + fl (fl (1 - fl (3 / 10)) * prev))"

fun fold_outcome ::
    "(rat \<Rightarrow> rat) \<Rightarrow> string \<times> rat option \<Rightarrow> prober \<times> upstream_latency list \<Rightarrow> prober \<times> upstream_latency list" where
  "fold_outcome fl (addr, rtt) (p, results) =
     (let p' = (case rtt of
                  Some r \<Rightarrow> p\<lparr>pb_streak := (pb_streak p)(addr \<mapsto> 0),
                             pb_ewma := (pb_ewma p)(addr \<mapsto> (case pb_ewma p addr of Some prev \<Rightarrow> ewma_step fl r prev | None \<Rightarrow> r))\<rparr>
                | None \<Rightarrow> p\<lparr>pb_streak := (pb_streak p)(addr \<mapsto> (case pb_streak p addr of Some n \<Rightarrow> n | None \<Rightarrow> 0) + 1)\<rparr>);
          streak = (case pb_streak p' addr of Some n \<Rightarrow> n | None \<Rightarrow> 0)
      in (p', results @ [\<lparr>ul_address = addr, ul_avg_latency_ms = pb_ewma p' addr,
                          ul_reachable = (streak < LATENCY_UNREACHABLE_STREAK)\<rparr>]))"

definition fold_probe_outcomes :: "(rat \<Rightarrow> rat) \<Rightarrow> (string \<times> rat option) list \<Rightarrow> prober \<Rightarrow> prober \<times> upstream_latency list" where
  "fold_probe_outcomes fl outcomes p =
     (let p0 = p\<lparr>pb_ewma := (pb_ewma p) |` (fst ` set outcomes), pb_streak := (pb_streak p) |` (fst ` set outcomes)\<rparr>
      in fold (fold_outcome fl) outcomes (p0, []))"

text \<open>What the prober task reads and writes: its state, the published health, and the pool.\<close>

record probing =
  ps_prober :: prober
  ps_health :: upstream_health
  ps_pool :: upstream_pool

definition probing_active :: "dns_config \<Rightarrow> bool" where
  "probing_active cfg \<longleftrightarrow> cfg_enabled cfg \<and> cfg_resolution_mode cfg = Forwarding"

definition prober_tick :: "(rat \<Rightarrow> rat) \<Rightarrow> (upstream_dns \<Rightarrow> rat option) \<Rightarrow> dns_config \<Rightarrow> probing \<Rightarrow> probing" where
  "prober_tick fl probe cfg s =
     (if \<not> probing_active cfg then s\<lparr>ps_health := []\<rparr>
      else (let (p, results) = fold_probe_outcomes fl (probe_upstreams probe (cfg_upstream_servers cfg)) (ps_prober s)
            in s\<lparr>ps_prober := p, ps_health := results, ps_pool := with_serving cfg results (ps_pool s)\<rparr>))"

section \<open>Who serves\<close>


lemma parse_ip_fallback: "parse_ip FALLBACK_UPSTREAM \<noteq> None"
proof -
  have "octets (ipv4_new 1 1 1 1) = (1, 1, 1, 1)" by (simp add: octets_def ipv4_new_def)
  moreover have "show_nat 1 = ''1''" by code_simp
  ultimately have "ipv4_to_string (ipv4_new 1 1 1 1) = FALLBACK_UPSTREAM"
    by (simp add: ipv4_to_string_def FALLBACK_UPSTREAM_def)
  then show ?thesis using parse_ip_V4 [OF parse_ipv4_to_string] by (metis option.distinct(1))
qed

lemma resolvable_spec:
  "resolvable_upstreams us \<noteq> [] \<and>
   (\<forall>u \<in> set (resolvable_upstreams us). parse_ip (up_address u) \<noteq> None \<and> (encrypted u \<longrightarrow> up_tls_server_name u \<noteq> None))"
  using parse_ip_fallback by (auto simp: resolvable_upstreams_def Let_def encrypted_def split: if_splits)

text \<open>
  The pool is usable and never downgraded. Whatever is configured, the pool built from it has
  an upstream to ask; each resolver dials the literal address of its upstream with the configured
  per-upstream timeout, and over TLS or HTTPS with the configured server name where the
  configuration says so.
\<close>

theorem pool_build_usable:
  "pl_serving (pool_build cfg) \<noteq> [] \<and> set (pl_serving (pool_build cfg)) \<subseteq> set (pl_all (pool_build cfg)) \<and>
   (\<forall>e \<in> set (pl_all (pool_build cfg)).
      rv_name_server (ue_resolver e) = parse_ip (entry_address e) \<and> rv_name_server (ue_resolver e) \<noteq> None \<and>
      rv_timeout (ue_resolver e) = cfg_upstream_timeout_ms cfg \<and> rv_validate (ue_resolver e) = cfg_dnssec_enabled cfg \<and>
      (up_protocol (ue_upstream e) = TlsProto \<longrightarrow>
         (\<exists>n. up_tls_server_name (ue_upstream e) = Some n \<and> rv_connection (ue_resolver e) = ConnTls n)) \<and>
      (up_protocol (ue_upstream e) = HttpsProto \<longrightarrow>
         (\<exists>n. up_tls_server_name (ue_upstream e) = Some n \<and> rv_connection (ue_resolver e) = ConnHttps n)))"
proof -
  let ?us = "resolvable_upstreams (cfg_upstream_servers cfg)"
  let ?all = "map (\<lambda>u. \<lparr>ue_upstream = u, ue_resolver = build_resolver u cfg\<rparr>) ?us"
  have p: "pool_build cfg = \<lparr>pl_all = ?all, pl_serving = effective ?all cfg\<rparr>" by (simp add: pool_build_def Let_def)
  have ne: "?all \<noteq> []" using resolvable_spec by simp
  have eff: "effective all cfg \<noteq> [] \<and> set (effective all cfg) \<subseteq> set all" if "all \<noteq> []" for all
    using that by (auto simp: effective_def Let_def split: forwarder_selection_mode.splits option.splits)
  have each: "parse_ip (up_address u) \<noteq> None" "encrypted u \<Longrightarrow> up_tls_server_name u \<noteq> None" if "u \<in> set ?us" for u
    using that resolvable_spec by auto
  have res: "rv_name_server (build_resolver u cfg) = parse_ip (up_address u)"
    "rv_timeout (build_resolver u cfg) = cfg_upstream_timeout_ms cfg" "rv_validate (build_resolver u cfg) = cfg_dnssec_enabled cfg"
    "up_protocol u = TlsProto \<Longrightarrow> up_tls_server_name u = Some n \<Longrightarrow> rv_connection (build_resolver u cfg) = ConnTls n"
    "up_protocol u = HttpsProto \<Longrightarrow> up_tls_server_name u = Some n \<Longrightarrow> rv_connection (build_resolver u cfg) = ConnHttps n" for u n
    by (simp_all add: build_resolver_def resolver_for_def Let_def)
  have "\<exists>n. up_tls_server_name u = Some n \<and> rv_connection (build_resolver u cfg) = ConnTls n"
    if "u \<in> set ?us" "up_protocol u = TlsProto" for u using each(2) [OF that(1)] res(4) that(2) by (auto simp: encrypted_def)
  moreover have "\<exists>n. up_tls_server_name u = Some n \<and> rv_connection (build_resolver u cfg) = ConnHttps n"
    if "u \<in> set ?us" "up_protocol u = HttpsProto" for u using each(2) [OF that(1)] res(5) that(2) by (auto simp: encrypted_def)
  ultimately show ?thesis using eff [OF ne] each(1) by (auto simp: p res(1-3))
qed

section \<open>Reachability\<close>

definition streak_of :: "prober \<Rightarrow> string \<Rightarrow> nat" where
  "streak_of p a = (case pb_streak p a of Some n \<Rightarrow> n | None \<Rightarrow> 0)"

definition missed :: "string \<Rightarrow> (string \<times> rat option) list \<Rightarrow> bool" where
  "missed a outcomes \<longleftrightarrow> map_of outcomes a = Some None"

lemma fold_outcome_other:
  "a \<notin> fst ` set os \<Longrightarrow>
   streak_of (fst (fold (fold_outcome fl) os pr)) a = streak_of (fst pr) a \<and>
   (\<exists>rs. snd (fold (fold_outcome fl) os pr) = snd pr @ rs \<and> (\<forall>u \<in> set rs. ul_address u \<noteq> a))"
proof (induction os arbitrary: pr)
  case (Cons o1 os)
  obtain addr rtt p results where [simp]: "o1 = (addr, rtt)" "pr = (p, results)" by (cases o1, cases pr)
  from Cons.prems have "a \<noteq> addr" "a \<notin> fst ` set os" by auto
  with Cons.IH [OF this(2), of "fold_outcome fl o1 pr"] show ?case
    by (auto simp: streak_of_def Let_def split: option.splits)
qed (simp add: streak_of_def)

lemma fold_probe_streak:
  assumes "distinct (map fst os)" and "a \<in> fst ` set os" and "fold_probe_outcomes fl os p = (p', results)"
  shows "streak_of p' a = (if missed a os then streak_of p a + 1 else 0)"
    and "is_unreachable results a \<longleftrightarrow> LATENCY_UNREACHABLE_STREAK \<le> streak_of p' a"
proof -
  obtain xs rtt ys where os: "os = xs @ (a, rtt) # ys" using assms(2) by (metis (no_types, lifting) image_iff prod.collapse split_list)
  with assms(1) have out: "a \<notin> fst ` set xs" "a \<notin> fst ` set ys" by auto
  have m: "missed a os \<longleftrightarrow> rtt = None" using out(1) by (auto simp: missed_def os map_add_def map_of_eq_None_iff [THEN iffD2])
  define p0 where "p0 = p\<lparr>pb_ewma := (pb_ewma p) |` (fst ` set os), pb_streak := (pb_streak p) |` (fst ` set os)\<rparr>"
  have s0: "streak_of p0 a = streak_of p a" using assms(2) by (simp add: p0_def streak_of_def)
  define s1 where "s1 = fold (fold_outcome fl) xs (p0, [])"
  define s2 where "s2 = fold_outcome fl (a, rtt) s1"
  obtain rs1 where r1: "streak_of (fst s1) a = streak_of p a" "snd s1 = rs1" "\<forall>u \<in> set rs1. ul_address u \<noteq> a"
    using fold_outcome_other [OF out(1), of fl "(p0, [])"] s0 by (auto simp: s1_def)
  have r2: "streak_of (fst s2) a = (if rtt = None then streak_of p a + 1 else 0)"
    "\<exists>u. snd s2 = rs1 @ [u] \<and> ul_address u = a \<and> ul_reachable u = (streak_of (fst s2) a < LATENCY_UNREACHABLE_STREAK)"
    using r1 by (cases s1; auto simp: s2_def streak_of_def Let_def split: option.splits)+
  have fin: "(p', results) = fold (fold_outcome fl) ys s2"
    using assms(3) by (simp add: fold_probe_outcomes_def Let_def p0_def os s1_def s2_def)
  obtain rs3 where r3: "streak_of p' a = streak_of (fst s2) a" "results = snd s2 @ rs3" "\<forall>u \<in> set rs3. ul_address u \<noteq> a"
    using fold_outcome_other [OF out(2), of fl s2] fin by (metis fst_conv snd_conv)
  show "streak_of p' a = (if missed a os then streak_of p a + 1 else 0)" using r3(1) r2(1) m by simp
  show "is_unreachable results a \<longleftrightarrow> LATENCY_UNREACHABLE_STREAK \<le> streak_of p' a"
    using r2(2) r3 r1(3) by (auto simp: is_unreachable_def list_ex_iff)
qed

text \<open>The state and the snapshot after a sequence of probe rounds.\<close>

definition probe_rounds ::
    "(rat \<Rightarrow> rat) \<Rightarrow> (string \<times> rat option) list list \<Rightarrow> prober \<Rightarrow> prober \<times> upstream_latency list" where
  "probe_rounds fl rounds p = fold (\<lambda>os (p, _). fold_probe_outcomes fl os p) rounds (p, [])"

lemma probe_rounds_snoc:
  "probe_rounds fl (rounds @ [os]) p = fold_probe_outcomes fl os (fst (probe_rounds fl rounds p))"
  by (simp add: probe_rounds_def split: prod.splits)

lemma probe_rounds_streak:
  assumes "\<forall>os \<in> set rounds. distinct (map fst os) \<and> a \<in> fst ` set os" and "streak_of p a = 0"
  shows "streak_of (fst (probe_rounds fl rounds p)) a = length (takeWhile (missed a) (rev rounds))"
  using assms(1)
proof (induction rounds rule: rev_induct)
  case Nil
  then show ?case by (simp add: probe_rounds_def assms(2))
next
  case (snoc os rounds)
  obtain p' results where f: "fold_probe_outcomes fl os (fst (probe_rounds fl rounds p)) = (p', results)" by fastforce
  from snoc have "distinct (map fst os)" "a \<in> fst ` set os" by auto
  from fold_probe_streak(1) [OF this f] snoc show ?case by (simp add: probe_rounds_snoc f)
qed

text \<open>
  Reachability is debounced. As long as no two upstreams share an address, an upstream is
  reported unreachable exactly when at least its last two probes in a row were missed: one lost
  packet never takes an upstream out of rotation, and one answer puts it back.
\<close>

theorem probe_debounce:
  assumes "\<forall>os \<in> set rounds. distinct (map fst os) \<and> a \<in> fst ` set os" and "streak_of p a = 0"
  shows "is_unreachable (snd (probe_rounds fl rounds p)) a \<longleftrightarrow> 2 \<le> length (takeWhile (missed a) (rev rounds))"
proof (cases rounds rule: rev_cases)
  case Nil
  then show ?thesis by (simp add: probe_rounds_def is_unreachable_def)
next
  case (snoc rs os)
  obtain p' results where f: "fold_probe_outcomes fl os (fst (probe_rounds fl rs p)) = (p', results)" by fastforce
  have "distinct (map fst os)" "a \<in> fst ` set os" using assms(1) snoc by auto
  from fold_probe_streak(2) [OF this f] probe_rounds_streak [OF assms, of fl]
  show ?thesis by (simp add: snoc probe_rounds_snoc f LATENCY_UNREACHABLE_STREAK_def)
qed

definition fresh_prober :: prober where
  "fresh_prober = \<lparr>pb_ewma = Map.empty, pb_streak = Map.empty\<rparr>"

theorem probe_debounce_witness:
  "\<not> is_unreachable (snd (probe_rounds id [[(''1.1.1.1'', Some 5)], [(''1.1.1.1'', None)]] fresh_prober)) ''1.1.1.1''"
  using probe_debounce [of "[[(''1.1.1.1'', Some 5)], [(''1.1.1.1'', None)]]" "''1.1.1.1''" fresh_prober id]
  by (simp add: streak_of_def fresh_prober_def missed_def)

text \<open>
  Two upstreams with one address defeat the debounce. The streak is kept by address alone, so a
  single round in which neither answers counts as two misses and takes both out of rotation.
\<close>

theorem shared_address_evicted_at_once:
  "is_unreachable (snd (probe_rounds fl [[(a, None), (a, None)]] fresh_prober)) a"
  by (simp add: probe_rounds_def fold_probe_outcomes_def fresh_prober_def is_unreachable_def LATENCY_UNREACHABLE_STREAK_def Let_def)

text \<open>
  Switching probing off does not readmit an evicted upstream. While DNS is disabled or resolves
  recursively a tick empties the published health, but the ladder keeps the order of the last
  active round, and the recursive mode still falls back to that ladder.
\<close>

theorem inactive_tick_keeps_ladder:
  assumes "\<not> probing_active cfg"
  shows "ps_health (prober_tick fl probe cfg s) = [] \<and> ps_pool (prober_tick fl probe cfg s) = ps_pool s \<and>
    (e \<in> set (effective (pl_all (ps_pool s)) cfg) \<and> e \<notin> set (pl_serving (ps_pool s)) \<longrightarrow>
       e \<in> set (serving_order (pl_all (ps_pool s)) cfg (ps_health (prober_tick fl probe cfg s))) \<and>
       e \<notin> set (pl_serving (ps_pool (prober_tick fl probe cfg s))))"
  using assms by (simp add: prober_tick_def serving_order_def is_unreachable_def Let_def)

definition ex_upstream :: "string \<Rightarrow> upstream_entry" where
  "ex_upstream a =
     (let u = \<lparr>up_address = a, up_name = a, up_protocol = UdpProto, up_port = None, up_tls_server_name = None\<rparr>
      in \<lparr>ue_upstream = u, ue_resolver = resolver_for u False 1500\<rparr>)"

definition ex_config :: dns_config where
  "ex_config = \<lparr>cfg_enabled = True, cfg_resolution_mode = RecursiveMode, cfg_upstream_servers = [],
     cfg_forwarder_selection_mode = Failover, cfg_single_upstream = None, cfg_cache_size = 10000,
     cfg_cache_ttl_min_secs = 0, cfg_cache_ttl_max_secs = 86400, cfg_dnssec_enabled = False,
     cfg_rebinding_protection = True, cfg_rate_limit_per_second = 0, cfg_upstream_timeout_ms = 1500,
     cfg_forward_deadline_ms = 3500, cfg_dns_filtering_enabled = True, cfg_query_log_enabled = True,
     cfg_query_log_retention_days = 7\<rparr>"

definition ex_probing :: probing where
  "ex_probing = \<lparr>ps_prober = fresh_prober, ps_health = [],
     ps_pool = \<lparr>pl_all = [ex_upstream ''1.1.1.1'', ex_upstream ''9.9.9.9''], pl_serving = [ex_upstream ''9.9.9.9'']\<rparr>\<rparr>"

theorem inactive_tick_keeps_ladder_witness:
  "ex_upstream ''1.1.1.1'' \<notin> set (pl_serving (ps_pool (prober_tick id (\<lambda>_. None) ex_config ex_probing)))"
  using inactive_tick_keeps_ladder [where cfg = ex_config and e = "ex_upstream ''1.1.1.1''" and s = ex_probing and fl = id and probe = "\<lambda>_. None"]
  by (simp add: probing_active_def ex_config_def ex_probing_def effective_def ex_upstream_def Let_def)

definition ex_health :: upstream_health where
  "ex_health = [\<lparr>ul_address = ''1.1.1.1'', ul_avg_latency_ms = Some 20, ul_reachable = False\<rparr>]"


theorem pool_build_usable_witness:
  "list_all (\<lambda>e. rv_timeout (ue_resolver e) = 1500) (pl_all (pool_build ex_config))"
  using pool_build_usable [of ex_config] by (simp add: ex_config_def list_all_iff)

end
