(* ===== verification/Rate_Limit.thy ===== *)
theory Rate_Limit
  imports Prelude Complex_Main "HOL-Library.Mapping"
begin

text \<open>
  The per-client token buckets in front of the upstreams (\<open>wardnetd/src/dns/rate_limit.rs\<close>).

  Instants are nanoseconds, an \<open>f64\<close> is a rational together with the rounding \<open>fl\<close> that every
  arithmetic operation of the source applies; \<open>f64_rounding\<close> collects what IEEE 754 says about it.
  The hash that picks the shard of a key is the parameter \<open>hash_one\<close>. Shown: buckets never hold
  more than the rate, so at one instant a client gets at most \<open>rate\<close> answers; a client that was
  silent for a second is let through; dropping idle buckets changes no verdict; and the cap on
  tracked clients is not enforced when no bucket of the shard is idle.
\<close>

section \<open>Floating-point rounding\<close>

text \<open>Up to here every natural number is an \<open>f64\<close>.\<close>

definition F64_EXACT :: nat where "F64_EXACT = 2 ^ 53"

text \<open>The longest time the limiter is looked at: as many seconds.\<close>

definition UPTIME_MAX :: nat where "UPTIME_MAX = F64_EXACT * 1000000000"

definition f64_rounding :: "(rat \<Rightarrow> rat) \<Rightarrow> bool" where
  "f64_rounding fl \<longleftrightarrow>
     mono fl \<and> (\<forall>x. fl (fl x) = fl x) \<and> (\<forall>n :: nat. n \<le> F64_EXACT \<longrightarrow> fl (of_nat n) = of_nat n) \<and>
     (\<forall>x. 1 \<le> fl x \<longrightarrow> fl x \<le> of_nat F64_EXACT \<longrightarrow> fl (fl x - 1) = fl x - 1)"

lemma fl_mono: "f64_rounding fl \<Longrightarrow> x \<le> y \<Longrightarrow> fl x \<le> fl y"
  by (auto simp: f64_rounding_def mono_def)

lemma fl_idem: "f64_rounding fl \<Longrightarrow> fl (fl x) = fl x"
  by (simp add: f64_rounding_def)

lemma fl_nat: "f64_rounding fl \<Longrightarrow> n \<le> F64_EXACT \<Longrightarrow> fl (of_nat n) = of_nat n"
  unfolding f64_rounding_def by blast

lemma fl_zero [simp]: "f64_rounding fl \<Longrightarrow> fl 0 = 0"
  using fl_nat [of fl 0] by simp

lemma fl_one: "f64_rounding fl \<Longrightarrow> fl 1 = 1"
  using fl_nat [of fl 1] by (simp add: F64_EXACT_def)

lemma fl_minus_one: "f64_rounding fl \<Longrightarrow> fl x = x \<Longrightarrow> 1 \<le> x \<Longrightarrow> x \<le> of_nat F64_EXACT \<Longrightarrow> fl (x - 1) = x - 1"
  unfolding f64_rounding_def by metis

lemma fl_nonneg: "f64_rounding fl \<Longrightarrow> 0 \<le> x \<Longrightarrow> 0 \<le> fl x"
  using fl_mono [of fl 0 x] by simp

section \<open>The limiter\<close>

definition SHARDS :: nat where "SHARDS = 16"
definition MAX_TRACKED_CLIENTS :: nat where "MAX_TRACKED_CLIENTS = 65536"
definition MAX_TRACKED_PER_SHARD :: nat where "MAX_TRACKED_PER_SHARD = MAX_TRACKED_CLIENTS div SHARDS"

record bucket =
  b_tokens :: rat
  b_last :: nat

record 'k rate_limiter =
  rl_rate :: nat
  rl_shards :: "('k, bucket) mapping list"

definition limiter_new :: "nat \<Rightarrow> 'k rate_limiter" where
  "limiter_new rate = \<lparr>rl_rate = rate, rl_shards = replicate SHARDS Mapping.empty\<rparr>"

definition set_rate :: "nat \<Rightarrow> 'k rate_limiter \<Rightarrow> 'k rate_limiter" where
  "set_rate rate rl = rl\<lparr>rl_rate := rate\<rparr>"

text \<open>\<open>Duration::as_secs_f64\<close>: whole seconds plus the fraction, each rounded.\<close>

definition as_secs_f64 :: "(rat \<Rightarrow> rat) \<Rightarrow> nat \<Rightarrow> rat" where
  "as_secs_f64 fl d = fl (fl (of_nat (d div 1000000000)) + fl (of_nat (d mod 1000000000) / 1000000000))"

text \<open>\<open>(b.tokens + elapsed * rate).min(rate)\<close>; \<open>saturating_duration_since\<close> is subtraction on \<open>nat\<close>.\<close>

definition refilled :: "(rat \<Rightarrow> rat) \<Rightarrow> nat \<Rightarrow> nat \<Rightarrow> bucket \<Rightarrow> rat" where
  "refilled fl rate now b = min (fl (b_tokens b + fl (as_secs_f64 fl (now - b_last b) * of_nat rate))) (of_nat rate)"

definition drop_idle :: "(rat \<Rightarrow> rat) \<Rightarrow> nat \<Rightarrow> nat \<Rightarrow> ('k, bucket) mapping \<Rightarrow> ('k, bucket) mapping" where
  "drop_idle fl rate now m = Mapping.filter (\<lambda>_ b. refilled fl rate now b < of_nat rate) m"

definition check_shard ::
    "(rat \<Rightarrow> rat) \<Rightarrow> 'k \<Rightarrow> nat \<Rightarrow> nat \<Rightarrow> ('k, bucket) mapping \<Rightarrow> bool \<times> ('k, bucket) mapping" where
  "check_shard fl key rate now m0 =
     (let m = (if Mapping.lookup m0 key = None \<and> Mapping.size m0 \<ge> MAX_TRACKED_PER_SHARD
               then drop_idle fl rate now m0 else m0);
          b = (case Mapping.lookup m key of Some b \<Rightarrow> b | None \<Rightarrow> \<lparr>b_tokens = of_nat rate, b_last = now\<rparr>);
          tokens = refilled fl rate now b
      in if tokens \<ge> 1 then (True, Mapping.update key \<lparr>b_tokens = fl (tokens - 1), b_last = now\<rparr> m)
         else (False, Mapping.update key \<lparr>b_tokens = tokens, b_last = now\<rparr> m))"

definition check_at ::
    "(rat \<Rightarrow> rat) \<Rightarrow> ('k \<Rightarrow> nat) \<Rightarrow> 'k \<Rightarrow> nat \<Rightarrow> nat \<Rightarrow> 'k rate_limiter \<Rightarrow> bool \<times> 'k rate_limiter" where
  "check_at fl hash_one key rate now rl =
     (if rate = 0 then (True, rl)
      else (let shard = hash_one key mod SHARDS;
                (ok, m) = check_shard fl key rate now (rl_shards rl ! shard)
            in (ok, rl\<lparr>rl_shards := (rl_shards rl)[shard := m]\<rparr>)))"

definition limiter_check ::
    "(rat \<Rightarrow> rat) \<Rightarrow> ('k \<Rightarrow> nat) \<Rightarrow> 'k \<Rightarrow> nat \<Rightarrow> 'k rate_limiter \<Rightarrow> bool \<times> 'k rate_limiter" where
  "limiter_check fl hash_one key now rl = check_at fl hash_one key (rl_rate rl) now rl"

section \<open>Refilling\<close>

lemma as_secs_f64_mono:
  assumes "f64_rounding fl" and "d \<le> d'" and "d' \<le> UPTIME_MAX"
  shows "as_secs_f64 fl d \<le> as_secs_f64 fl d'"
proof -
  let ?s = "d div 1000000000" and ?s' = "d' div 1000000000"
  let ?f = "\<lambda>d. fl (of_nat (d mod 1000000000) / 1000000000)"
  have le: "?s \<le> ?s'" using assms(2) by (rule div_le_mono)
  have "?s' \<le> F64_EXACT" using div_le_mono [OF assms(3), of 1000000000] by (simp add: UPTIME_MAX_def)
  with le have b: "?s \<le> F64_EXACT" "?s' \<le> F64_EXACT" by simp_all
  have f1: "?f d \<le> 1" for d
    using fl_mono [OF assms(1), of "of_nat (d mod 1000000000) / 1000000000" 1] fl_one [OF assms(1)]
    by (simp add: less_imp_le)
  have f0: "0 \<le> ?f d" for d by (rule fl_nonneg [OF assms(1)]) simp
  have "fl (of_nat ?s) + ?f d \<le> fl (of_nat ?s') + ?f d'"
  proof (cases "?s = ?s'")
    case True
    then have "d mod 1000000000 \<le> d' mod 1000000000" using assms(2)
      by (metis add_le_cancel_left div_mult_mod_eq)
    then have "?f d \<le> ?f d'" by (intro fl_mono [OF assms(1)] divide_right_mono) simp_all
    with True show ?thesis by simp
  next
    case False
    with le have "?s + 1 \<le> ?s'" by simp
    then have "of_nat ?s + 1 \<le> (of_nat ?s' :: rat)" by (metis of_nat_1 of_nat_add of_nat_le_iff)
    with f1 [of d] f0 [of d'] show ?thesis by (simp add: fl_nat [OF assms(1) b(1)] fl_nat [OF assms(1) b(2)])
  qed
  then show ?thesis unfolding as_secs_f64_def by (rule fl_mono [OF assms(1)])
qed

lemma as_secs_f64_0 [simp]: "f64_rounding fl \<Longrightarrow> as_secs_f64 fl 0 = 0"
  by (simp add: as_secs_f64_def)

lemma as_secs_f64_nonneg: "f64_rounding fl \<Longrightarrow> 0 \<le> as_secs_f64 fl d"
  unfolding as_secs_f64_def by (simp add: fl_nonneg [of fl])

lemma refilled_mono:
  assumes "f64_rounding fl" and "now \<le> now'" and "now' \<le> UPTIME_MAX"
  shows "refilled fl rate now b \<le> refilled fl rate now' b"
proof -
  have "now - b_last b \<le> now' - b_last b" "now' - b_last b \<le> UPTIME_MAX" using assms(2,3) by auto
  then have "as_secs_f64 fl (now - b_last b) * of_nat rate \<le> as_secs_f64 fl (now' - b_last b) * of_nat rate"
    by (intro mult_right_mono as_secs_f64_mono [OF assms(1)]) simp_all
  then show ?thesis unfolding refilled_def by (intro min.mono add_left_mono fl_mono [OF assms(1)]) auto
qed

lemma refilled_le: "refilled fl rate now b \<le> of_nat rate"
  by (simp add: refilled_def)

text \<open>A bucket holds a float that is not negative.\<close>

definition bucket_ok :: "(rat \<Rightarrow> rat) \<Rightarrow> bucket \<Rightarrow> bool" where
  "bucket_ok fl b \<longleftrightarrow> 0 \<le> b_tokens b \<and> fl (b_tokens b) = b_tokens b"

lemma refilled_nonneg: "f64_rounding fl \<Longrightarrow> 0 \<le> b_tokens b \<Longrightarrow> 0 \<le> refilled fl rate now b"
  unfolding refilled_def by (simp add: fl_nonneg [of fl] as_secs_f64_nonneg)

lemma refilled_float:
  assumes "f64_rounding fl" and "rate \<le> F64_EXACT"
  shows "fl (refilled fl rate now b) = refilled fl rate now b"
  using fl_idem [OF assms(1)] fl_nat [OF assms] by (auto simp: refilled_def min_def)

lemma refilled_same_instant:
  "f64_rounding fl \<Longrightarrow> fl t = t \<Longrightarrow> t \<le> of_nat rate \<Longrightarrow> refilled fl rate now \<lparr>b_tokens = t, b_last = now\<rparr> = t"
  by (simp add: refilled_def)

lemma refilled_second:
  assumes fl: "f64_rounding fl" and "rate \<le> F64_EXACT" and "0 \<le> b_tokens b"
    and "b_last b + 1000000000 \<le> now" and "now \<le> UPTIME_MAX"
  shows "refilled fl rate now b = of_nat rate"
proof -
  have "as_secs_f64 fl 1000000000 = 1" using fl_one [OF fl] by (simp add: as_secs_f64_def fl)
  then have "1 \<le> as_secs_f64 fl (now - b_last b)"
    using as_secs_f64_mono [OF fl, of 1000000000 "now - b_last b"] assms(4,5) by simp
  then have "of_nat rate \<le> as_secs_f64 fl (now - b_last b) * of_nat rate"
    using mult_right_mono [of 1 "as_secs_f64 fl (now - b_last b)" "of_nat rate :: rat"] by simp
  then have "of_nat rate \<le> fl (as_secs_f64 fl (now - b_last b) * of_nat rate)"
    using fl_mono [OF fl] fl_nat [OF fl assms(2)] by metis
  with assms(3) have "of_nat rate \<le> b_tokens b + fl (as_secs_f64 fl (now - b_last b) * of_nat rate)" by simp
  then have "of_nat rate \<le> fl (b_tokens b + fl (as_secs_f64 fl (now - b_last b) * of_nat rate))"
    using fl_mono [OF fl] fl_nat [OF fl assms(2)] by metis
  then show ?thesis by (simp add: refilled_def)
qed

section \<open>What a client has left\<close>

definition shard_level :: "(rat \<Rightarrow> rat) \<Rightarrow> nat \<Rightarrow> nat \<Rightarrow> ('k, bucket) mapping \<Rightarrow> 'k \<Rightarrow> rat" where
  "shard_level fl rate now m k = (case Mapping.lookup m k of Some b \<Rightarrow> refilled fl rate now b | None \<Rightarrow> of_nat rate)"

definition level :: "(rat \<Rightarrow> rat) \<Rightarrow> ('k \<Rightarrow> nat) \<Rightarrow> nat \<Rightarrow> nat \<Rightarrow> 'k rate_limiter \<Rightarrow> 'k \<Rightarrow> rat" where
  "level fl hash_one rate now rl k = shard_level fl rate now (rl_shards rl ! (hash_one k mod SHARDS)) k"

definition shard_ok :: "(rat \<Rightarrow> rat) \<Rightarrow> ('k, bucket) mapping \<Rightarrow> bool" where
  "shard_ok fl m \<longleftrightarrow> (\<forall>k b. Mapping.lookup m k = Some b \<longrightarrow> bucket_ok fl b)"

definition limiter_ok :: "(rat \<Rightarrow> rat) \<Rightarrow> 'k rate_limiter \<Rightarrow> bool" where
  "limiter_ok fl rl \<longleftrightarrow> length (rl_shards rl) = SHARDS \<and> list_all (shard_ok fl) (rl_shards rl)"

lemma limiter_new_ok: "limiter_ok fl (limiter_new rate)"
  by (simp add: limiter_ok_def limiter_new_def shard_ok_def list_all_iff)

lemma shard_level_update [simp]: "shard_level fl rate now (Mapping.update k b m) k = refilled fl rate now b"
  by (simp add: shard_level_def)

lemma shard_level_le: "shard_level fl rate now m k \<le> of_nat rate"
  by (auto simp: shard_level_def refilled_le split: option.splits)

lemma shard_level_nonneg: "f64_rounding fl \<Longrightarrow> shard_ok fl m \<Longrightarrow> 0 \<le> shard_level fl rate now m k"
  by (auto simp: shard_level_def shard_ok_def bucket_ok_def refilled_nonneg split: option.splits)

lemma shard_level_float:
  "f64_rounding fl \<Longrightarrow> rate \<le> F64_EXACT \<Longrightarrow> fl (shard_level fl rate now m k) = shard_level fl rate now m k"
  by (auto simp: shard_level_def refilled_float fl_nat split: option.splits)

text \<open>Dropping idle buckets loses nothing: a dropped bucket is full, now and later.\<close>

lemma drop_idle_level:
  assumes "f64_rounding fl" and "now \<le> now'" and "now' \<le> UPTIME_MAX"
  shows "shard_level fl rate now' (drop_idle fl rate now m) k = shard_level fl rate now' m k"
proof (cases "Mapping.lookup m k")
  case (Some b)
  have "refilled fl rate now' b = of_nat rate" if "\<not> refilled fl rate now b < of_nat rate"
    using that refilled_mono [OF assms, of rate b] refilled_le [of fl rate now' b] by simp
  with Some show ?thesis by (auto simp: shard_level_def drop_idle_def lookup_filter)
qed (simp add: shard_level_def drop_idle_def lookup_filter)

lemma drop_idle_ok: "shard_ok fl m \<Longrightarrow> shard_ok fl (drop_idle fl rate now m)"
  by (auto simp: shard_ok_def drop_idle_def lookup_filter split: option.splits if_splits)

lemma check_shard_level:
  assumes fl: "f64_rounding fl" and r: "rate \<le> F64_EXACT" and ok: "shard_ok fl m" and now: "now \<le> UPTIME_MAX"
    and c: "check_shard fl key rate now m = (allowed, m')"
  shows "allowed \<longleftrightarrow> 1 \<le> shard_level fl rate now m key"
    and "shard_level fl rate now m' key = shard_level fl rate now m key - (if allowed then 1 else 0)"
    and "k \<noteq> key \<Longrightarrow> now \<le> now' \<Longrightarrow> now' \<le> UPTIME_MAX \<Longrightarrow> shard_level fl rate now' m' k = shard_level fl rate now' m k"
    and "shard_ok fl m'"
proof -
  define m1 where "m1 = (if Mapping.lookup m key = None \<and> Mapping.size m \<ge> MAX_TRACKED_PER_SHARD
    then drop_idle fl rate now m else m)"
  define t where "t = shard_level fl rate now m key"
  have m1: "shard_level fl rate n m1 k = shard_level fl rate n m k" if "now \<le> n" "n \<le> UPTIME_MAX" for n k
    by (simp add: m1_def drop_idle_level [OF fl that])
  have ok1: "shard_ok fl m1" using ok by (simp add: m1_def drop_idle_ok)
  have full: "refilled fl rate now \<lparr>b_tokens = of_nat rate, b_last = now\<rparr> = of_nat rate"
    using refilled_same_instant [OF fl fl_nat [OF fl r]] by simp
  have "refilled fl rate now (case Mapping.lookup m1 key of Some b \<Rightarrow> b | None \<Rightarrow> \<lparr>b_tokens = of_nat rate, b_last = now\<rparr>) = t"
    using m1 [OF order_refl now, of key] full by (auto simp: t_def shard_level_def split: option.splits)
  with c have c': "allowed \<longleftrightarrow> 1 \<le> t"
    "m' = Mapping.update key \<lparr>b_tokens = (if 1 \<le> t then fl (t - 1) else t), b_last = now\<rparr> m1"
    by (auto simp: check_shard_def m1_def [symmetric] Let_def split: if_splits)
  have t: "0 \<le> t" "t \<le> of_nat rate" "fl t = t"
    using shard_level_nonneg [OF fl ok] shard_level_le shard_level_float [OF fl r] by (auto simp: t_def)
  have "of_nat rate \<le> (of_nat F64_EXACT :: rat)" using r by simp
  with t(2) have "t \<le> of_nat F64_EXACT" by linarith
  then have one: "fl (t - 1) = t - 1" if "1 \<le> t" using fl_minus_one [OF fl t(3) that] by simp
  show "allowed \<longleftrightarrow> 1 \<le> shard_level fl rate now m key" using c'(1) by (simp add: t_def)
  show "shard_level fl rate now m' key = shard_level fl rate now m key - (if allowed then 1 else 0)"
    using t one c'(1) refilled_same_instant [OF fl] by (auto simp: c'(2) t_def [symmetric])
  show "shard_level fl rate now' m' k = shard_level fl rate now' m k"
    if "k \<noteq> key" "now \<le> now'" "now' \<le> UPTIME_MAX"
    using m1 [OF that(2,3), of k] that(1) by (simp add: shard_level_def c'(2) lookup_update')
  show "shard_ok fl m'" using ok1 t one by (auto simp: shard_ok_def c'(2) lookup_update' bucket_ok_def split: if_splits)
qed

lemma shard_lt [simp]: "n mod SHARDS < SHARDS"
  by (simp add: SHARDS_def)

lemma check_at_level:
  assumes fl: "f64_rounding fl" and r: "0 < rate" "rate \<le> F64_EXACT" and ok: "limiter_ok fl rl" and now: "now \<le> UPTIME_MAX"
    and c: "check_at fl hash_one key rate now rl = (allowed, rl')"
  shows "allowed \<longleftrightarrow> 1 \<le> level fl hash_one rate now rl key"
    and "level fl hash_one rate now rl' key = level fl hash_one rate now rl key - (if allowed then 1 else 0)"
    and "k \<noteq> key \<Longrightarrow> now \<le> now' \<Longrightarrow> now' \<le> UPTIME_MAX \<Longrightarrow>
      level fl hash_one rate now' rl' k = level fl hash_one rate now' rl k"
    and "limiter_ok fl rl'"
proof -
  let ?i = "hash_one key mod SHARDS"
  obtain m' where m': "check_shard fl key rate now (rl_shards rl ! ?i) = (allowed, m')"
    "rl' = rl\<lparr>rl_shards := (rl_shards rl)[?i := m']\<rparr>"
    using c r(1) by (auto simp: check_at_def Let_def split: prod.splits)
  have len: "length (rl_shards rl) = SHARDS" and "shard_ok fl (rl_shards rl ! ?i)"
    using ok by (auto simp: limiter_ok_def list_all_length)
  note s = check_shard_level [OF fl r(2) this(2) now m'(1)]
  show "allowed \<longleftrightarrow> 1 \<le> level fl hash_one rate now rl key" using s(1) by (simp add: level_def)
  show "level fl hash_one rate now rl' key = level fl hash_one rate now rl key - (if allowed then 1 else 0)"
    using s(2) len by (simp add: level_def m'(2))
  show "level fl hash_one rate now' rl' k = level fl hash_one rate now' rl k"
    if "k \<noteq> key" "now \<le> now'" "now' \<le> UPTIME_MAX"
    using s(3) [OF that] len by (auto simp: level_def m'(2) nth_list_update)
  show "limiter_ok fl rl'"
    using ok s(4) len by (auto simp: limiter_ok_def m'(2) list_all_length nth_list_update)
qed

section \<open>What the limiter guarantees\<close>

text \<open>
  C36: clients do not disturb each other, and the bound on tracked clients is invisible. A query is
  let through exactly when its client has a token left, an answered query costs its own client one
  token, and no query ever changes what another client has left, now or at any later time, even
  when its arrival makes the limiter drop idle buckets.
\<close>

theorem limiter_isolates_clients:
  assumes "f64_rounding fl" and "0 < rate" and "rate \<le> F64_EXACT" and "limiter_ok fl rl" and "now \<le> UPTIME_MAX"
    and "check_at fl hash_one key rate now rl = (allowed, rl')"
  shows "(allowed \<longleftrightarrow> 1 \<le> level fl hash_one rate now rl key) \<and>
    level fl hash_one rate now rl' key = level fl hash_one rate now rl key - (if allowed then 1 else 0) \<and>
    (\<forall>k now'. k \<noteq> key \<and> now \<le> now' \<and> now' \<le> UPTIME_MAX \<longrightarrow>
       level fl hash_one rate now' rl' k = level fl hash_one rate now' rl k)"
  using check_at_level [OF assms] by blast

text \<open>The queries of one instant, in whatever order the clients send them.\<close>

fun checks :: "(rat \<Rightarrow> rat) \<Rightarrow> ('k \<Rightarrow> nat) \<Rightarrow> nat \<Rightarrow> nat \<Rightarrow> 'k list \<Rightarrow> 'k rate_limiter \<Rightarrow> ('k \<times> bool) list" where
  "checks fl hash_one rate now [] rl = []"
| "checks fl hash_one rate now (k # ks) rl =
     (case check_at fl hash_one k rate now rl of (allowed, rl') \<Rightarrow> (k, allowed) # checks fl hash_one rate now ks rl')"

lemma burst_level:
  assumes "f64_rounding fl" and "0 < rate" and "rate \<le> F64_EXACT" and "limiter_ok fl rl" and "now \<le> UPTIME_MAX"
  shows "count_list (checks fl hash_one rate now ks rl) (k, True) =
    min (count_list ks k) (nat \<lfloor>level fl hash_one rate now rl k\<rfloor>)"
  using assms(4)
proof (induction ks arbitrary: rl)
  case (Cons key ks)
  obtain allowed rl' where c: "check_at fl hash_one key rate now rl = (allowed, rl')" by fastforce
  note s = check_at_level [OF assms(1-3) Cons.prems assms(5) c]
  note IH = Cons.IH [OF s(4)]
  show ?case
  proof (cases "k = key")
    case True
    show ?thesis
    proof (cases allowed)
      case a: True
      then have f: "1 \<le> \<lfloor>level fl hash_one rate now rl key\<rfloor>" using s(1) by (simp add: le_floor_iff)
      have "\<lfloor>level fl hash_one rate now rl key - 1\<rfloor> = \<lfloor>level fl hash_one rate now rl key\<rfloor> - 1" by simp
      with f have "nat \<lfloor>level fl hash_one rate now rl key\<rfloor> = Suc (nat \<lfloor>level fl hash_one rate now rl key - 1\<rfloor>)" by linarith
      with a True IH s(2) c show ?thesis by simp
    next
      case False
      then have "\<lfloor>level fl hash_one rate now rl key\<rfloor> \<le> 0" using s(1) by (simp add: floor_le_iff)
      with False True IH s(2) c show ?thesis by simp
    qed
  next
    case False
    with IH s(3) [of k now] c assms(5) show ?thesis by simp
  qed
qed simp

text \<open>
  C35: the burst is bounded, whatever came before. Of all queries that arrive at one instant, in any
  interleaving of clients, each client gets exactly as many through as it has whole tokens, and so
  never more than the rate.
\<close>

theorem burst_bounded:
  assumes "f64_rounding fl" and "0 < rate" and "rate \<le> F64_EXACT" and "limiter_ok fl rl" and "now \<le> UPTIME_MAX"
  shows "count_list (checks fl hash_one rate now ks rl) (k, True) =
      min (count_list ks k) (nat \<lfloor>level fl hash_one rate now rl k\<rfloor>) \<and>
    count_list (checks fl hash_one rate now ks rl) (k, True) \<le> rate"
proof -
  have "\<lfloor>level fl hash_one rate now rl k\<rfloor> \<le> int rate"
    using shard_level_le [of fl rate now "rl_shards rl ! (hash_one k mod SHARDS)" k] by (simp add: level_def floor_le_iff)
  then show ?thesis using burst_level [OF assms, of hash_one ks k] by simp
qed

text \<open>
  Nobody is locked out. A client of whom the limiter knows nothing, or whose last query is at
  least a second old, has its full burst again, so its next query is let through.
\<close>

theorem silent_client_let_through:
  assumes "f64_rounding fl" and "0 < rate" and "rate \<le> F64_EXACT" and "limiter_ok fl rl" and "now \<le> UPTIME_MAX"
    and "case Mapping.lookup (rl_shards rl ! (hash_one key mod SHARDS)) key of
           None \<Rightarrow> True | Some b \<Rightarrow> b_last b + 1000000000 \<le> now"
  shows "fst (check_at fl hash_one key rate now rl) \<and> level fl hash_one rate now rl key = of_nat rate"
proof -
  have "shard_ok fl (rl_shards rl ! (hash_one key mod SHARDS))"
    using assms(4) by (auto simp: limiter_ok_def list_all_length)
  then have full: "level fl hash_one rate now rl key = of_nat rate"
    using assms(6) refilled_second [OF assms(1,3) _ _ assms(5)]
    by (auto simp: level_def shard_level_def shard_ok_def bucket_ok_def split: option.splits)
  obtain allowed rl' where c: "check_at fl hash_one key rate now rl = (allowed, rl')" by fastforce
  from assms(2) have "1 \<le> (of_nat rate :: rat)" by simp
  with check_at_level(1) [OF assms(1-5) c] full c show ?thesis by simp
qed

lemma check_shard_update:
  "drop_idle fl rate now m = m \<Longrightarrow> \<exists>b. snd (check_shard fl key rate now m) = Mapping.update key b m"
  by (auto simp: check_shard_def Let_def)

lemma check_at_shard:
  "0 < rate \<Longrightarrow> length (rl_shards rl) = SHARDS \<Longrightarrow>
   rl_shards (snd (check_at fl hash_one key rate now rl)) ! (hash_one key mod SHARDS) =
     snd (check_shard fl key rate now (rl_shards rl ! (hash_one key mod SHARDS)))"
  by (simp add: check_at_def Let_def split: prod.splits)

text \<open>
  The number of tracked clients is not bounded by the constant that is meant to bound it. When
  no bucket of a shard is idle, a new client is added whatever the size of the shard.
\<close>

theorem tracked_clients_unbounded:
  assumes "0 < rate" and "Mapping.lookup (rl_shards rl ! (hash_one key mod SHARDS)) key = None"
    and "finite (Mapping.keys (rl_shards rl ! (hash_one key mod SHARDS)))" and "length (rl_shards rl) = SHARDS"
    and "\<forall>k b. Mapping.lookup (rl_shards rl ! (hash_one key mod SHARDS)) k = Some b \<longrightarrow> refilled fl rate now b < of_nat rate"
  shows "Mapping.size (rl_shards (snd (check_at fl hash_one key rate now rl)) ! (hash_one key mod SHARDS)) =
    Mapping.size (rl_shards rl ! (hash_one key mod SHARDS)) + 1"
proof -
  let ?m = "rl_shards rl ! (hash_one key mod SHARDS)"
  have "drop_idle fl rate now ?m = ?m"
    using assms(5) by (intro mapping_eqI) (auto simp: drop_idle_def lookup_filter split: option.splits)
  then obtain b where "rl_shards (snd (check_at fl hash_one key rate now rl)) ! (hash_one key mod SHARDS) = Mapping.update key b ?m"
    using check_at_shard [OF assms(1,4)] check_shard_update by metis
  moreover have "key \<notin> Mapping.keys ?m" using assms(2) by (simp add: keys_dom_lookup domIff)
  ultimately show ?thesis using assms(3) by (simp add: Mapping.size_def)
qed

section \<open>A limiter at work\<close>

lemma exact_rounding: "f64_rounding (\<lambda>x. x)"
  by (simp add: f64_rounding_def mono_def)

lemma two_le_exact: "2 \<le> F64_EXACT" "3 \<le> UPTIME_MAX"
  by (simp_all add: F64_EXACT_def UPTIME_MAX_def)

theorem limiter_isolates_clients_witness:
  "\<exists>allowed rl'. check_at (\<lambda>x. x) (\<lambda>k. k) 7 2 3 (limiter_new 2 :: nat rate_limiter) = (allowed, rl') \<and>
     (allowed \<longleftrightarrow> 1 \<le> level (\<lambda>x. x) (\<lambda>k. k) 2 3 (limiter_new 2) 7)"
proof -
  obtain allowed rl' where c: "check_at (\<lambda>x. x) (\<lambda>k. k) 7 2 3 (limiter_new 2 :: nat rate_limiter) = (allowed, rl')"
    by fastforce
  show ?thesis
    using limiter_isolates_clients [OF exact_rounding _ two_le_exact(1) limiter_new_ok two_le_exact(2) c] c by auto
qed

theorem burst_bounded_witness:
  "count_list (checks (\<lambda>x. x) (\<lambda>k. k) 2 3 [7, 7, 8, 7] (limiter_new 2)) (7 :: nat, True) = 2"
proof -
  have "level (\<lambda>x. x) (\<lambda>k. k) 2 3 (limiter_new 2) (7 :: nat) = 2"
    by (simp add: level_def limiter_new_def shard_level_def)
  then show ?thesis
    using burst_bounded [OF exact_rounding _ two_le_exact(1) limiter_new_ok two_le_exact(2), of "\<lambda>k. k" "[7, 7, 8, 7]" 2 7] by simp
qed

theorem silent_client_let_through_witness:
  "fst (check_at (\<lambda>x. x) (\<lambda>k. k) 7 2 3 (limiter_new 2 :: nat rate_limiter))"
  using silent_client_let_through [OF exact_rounding _ two_le_exact(1) limiter_new_ok two_le_exact(2), where key = "7 :: nat"
      and hash_one = "\<lambda>k. k"] by (simp add: limiter_new_def)

definition ex_busy :: "nat rate_limiter" where
  "ex_busy = \<lparr>rl_rate = 2, rl_shards = replicate SHARDS (Mapping.update 9 \<lparr>b_tokens = 0, b_last = 3\<rparr> Mapping.empty)\<rparr>"

theorem tracked_clients_unbounded_witness:
  "Mapping.size (rl_shards (snd (check_at (\<lambda>x. x) (\<lambda>k. k) 7 2 3 ex_busy)) ! (7 mod SHARDS)) = 2"
proof -
  let ?m = "Mapping.update 9 \<lparr>b_tokens = 0, b_last = 3\<rparr> Mapping.empty :: (nat, bucket) mapping"
  have m: "rl_shards ex_busy ! (7 mod SHARDS) = ?m" "length (rl_shards ex_busy) = SHARDS" by (simp_all add: ex_busy_def)
  have size: "Mapping.size ?m = 1" by (simp add: Mapping.size_def)
  have "\<forall>k b. Mapping.lookup ?m k = Some b \<longrightarrow> refilled (\<lambda>x. x) 2 3 b < of_nat 2"
    by (auto simp: lookup_update' lookup_empty refilled_def as_secs_f64_def split: if_splits)
  moreover have "Mapping.lookup ?m 7 = None" by (simp add: lookup_update' lookup_empty)
  ultimately show ?thesis
    using tracked_clients_unbounded [of 2 ex_busy "\<lambda>k. k" 7 "\<lambda>x. x" 3] by (simp add: m size)
qed

end
