(* ===== verification/Query_Log.thy ===== *)
theory Query_Log
  imports Ip_Addr Dns_Message
begin

text \<open>
  How a query ended (\<open>DnsQueryResult\<close> of \<open>wardnet-common/src/dns.rs\<close>) and the row the pipeline
  writes about it (\<open>QueryLogRow\<close>, \<open>record_query\<close>). Every result is written as a string and read
  back from it; the two directions are shown to fit.
\<close>

section \<open>Results\<close>

datatype dns_query_result =
    ResForwarded | ResCacheHit | ResBlocked | ResBlockedSkipped | ResRewritten | ResRecursive | ResUpstreamError
  | ResNegative | ResAuthoritative | ResAuthoritativeNodata | ResAuthoritativeNxdomain | ResRateLimited
  | ResRebindingBlocked | ResRecursorFailed | ResError

definition ALL_RESULTS :: "dns_query_result list" where
  "ALL_RESULTS =
     [ResForwarded, ResCacheHit, ResBlocked, ResBlockedSkipped, ResRewritten, ResRecursive, ResUpstreamError,
      ResNegative, ResAuthoritative, ResAuthoritativeNodata, ResAuthoritativeNxdomain, ResRateLimited,
      ResRebindingBlocked, ResRecursorFailed, ResError]"

fun result_slot :: "dns_query_result \<Rightarrow> nat" where
  "result_slot ResForwarded = 0"
| "result_slot ResCacheHit = 1"
| "result_slot ResBlocked = 2"
| "result_slot ResBlockedSkipped = 3"
| "result_slot ResRewritten = 4"
| "result_slot ResRecursive = 5"
| "result_slot ResUpstreamError = 6"
| "result_slot ResNegative = 7"
| "result_slot ResAuthoritative = 8"
| "result_slot ResAuthoritativeNodata = 9"
| "result_slot ResAuthoritativeNxdomain = 10"
| "result_slot ResRateLimited = 11"
| "result_slot ResRebindingBlocked = 12"
| "result_slot ResRecursorFailed = 13"
| "result_slot ResError = 14"

fun result_as_str :: "dns_query_result \<Rightarrow> string" where
  "result_as_str ResForwarded = ''forwarded''"
| "result_as_str ResCacheHit = ''cache_hit''"
| "result_as_str ResBlocked = ''blocked''"
| "result_as_str ResBlockedSkipped = ''blocked_skipped''"
| "result_as_str ResRewritten = ''rewritten''"
| "result_as_str ResRecursive = ''recursive''"
| "result_as_str ResUpstreamError = ''upstream_error''"
| "result_as_str ResNegative = ''negative''"
| "result_as_str ResAuthoritative = ''authoritative''"
| "result_as_str ResAuthoritativeNodata = ''authoritative_nodata''"
| "result_as_str ResAuthoritativeNxdomain = ''authoritative_nxdomain''"
| "result_as_str ResRateLimited = ''rate_limited''"
| "result_as_str ResRebindingBlocked = ''rebinding_blocked''"
| "result_as_str ResRecursorFailed = ''recursor_failed''"
| "result_as_str ResError = ''error''"

definition result_from_db_str :: "string \<Rightarrow> dns_query_result option" where
  "result_from_db_str s =
     (if s = ''forwarded'' then Some ResForwarded
      else if s = ''cache_hit'' then Some ResCacheHit
      else if s = ''blocked'' then Some ResBlocked
      else if s = ''blocked_skipped'' then Some ResBlockedSkipped
      else if s = ''rewritten'' then Some ResRewritten
      else if s = ''recursive'' then Some ResRecursive
      else if s = ''upstream_error'' then Some ResUpstreamError
      else if s = ''negative'' then Some ResNegative
      else if s = ''authoritative'' then Some ResAuthoritative
      else if s = ''authoritative_nodata'' then Some ResAuthoritativeNodata
      else if s = ''authoritative_nxdomain'' then Some ResAuthoritativeNxdomain
      else if s = ''rate_limited'' then Some ResRateLimited
      else if s = ''rebinding_blocked'' then Some ResRebindingBlocked
      else if s = ''recursor_failed'' then Some ResRecursorFailed
      else if s = ''error'' then Some ResError
      else None)"

definition result_parse :: "string \<Rightarrow> dns_query_result" where
  "result_parse s = (case result_from_db_str s of Some r \<Rightarrow> r | None \<Rightarrow> ResError)"

lemma result_from_as_str [simp]: "result_from_db_str (result_as_str r) = Some r"
  by (cases r) (simp_all add: result_from_db_str_def)

lemma result_as_from_str: "result_from_db_str s = Some r \<Longrightarrow> s = result_as_str r"
  by (auto simp: result_from_db_str_def split: if_splits)

lemma result_parse_as_str [simp]: "result_parse (result_as_str r) = r"
  by (simp add: result_parse_def)

lemma result_slot_nth: "ALL_RESULTS ! result_slot r = r"
  by (cases r) (simp_all add: ALL_RESULTS_def)

lemma result_slots: "map result_slot ALL_RESULTS = [0..<15]"
  by (simp add: ALL_RESULTS_def upt_rec)

lemma all_results: "distinct ALL_RESULTS \<and> set ALL_RESULTS = UNIV"
proof
  show "distinct ALL_RESULTS" using result_slots by (metis distinct_map distinct_upt)
  have "length ALL_RESULTS = 15" by (simp add: ALL_RESULTS_def)
  moreover have "result_slot r < 15" for r by (cases r) simp_all
  ultimately have "r \<in> set ALL_RESULTS" for r using result_slot_nth [of r] nth_mem [of "result_slot r" ALL_RESULTS] by simp
  then show "set ALL_RESULTS = UNIV" by blast
qed

section \<open>Rows\<close>

datatype transport_protocol = UdpTransport | DotTransport

fun protocol_as_str :: "transport_protocol \<Rightarrow> string" where
  "protocol_as_str UdpTransport = ''udp''"
| "protocol_as_str DotTransport = ''dot''"

record 'u query_attribution =
  at_device_id :: "'u option"
  at_protocol :: transport_protocol

text \<open>
  The upstream column is a server's configured address, \<open>recursive\<close>, or a printed address; the last
  is kept as the address it prints. The client column likewise.
\<close>

datatype upstream_label = LabelText string | LabelIp ip_addr

record 'u query_log_row =
  ql_timestamp :: int
  ql_client_ip :: ip_addr
  ql_domain :: string
  ql_query_type :: record_type
  ql_result :: string
  ql_upstream :: "upstream_label option"
  ql_latency_us :: nat
  ql_device_id :: "'u option"
  ql_protocol :: string

end
