(* ===== verification/Pipeline.thy ===== *)
theory Pipeline
  imports Authoritative Filter_Service Upstream_Pool Rate_Limit Query_Log
begin

text \<open>
  The resolve core every query goes through (\<open>wardnetd/src/dns/pipeline.rs\<close>): local answers, the
  cache, the filter, the rate limit, and the four ways upstream.

  \<open>handle\<close> is one query from its bytes to its reply. The state it may change is \<open>query_state\<close>; what
  it reads and what the outside world does during that query are the fields of \<open>query_env\<close>: the
  snapshots, the filter service, what each upstream answers and after how many milliseconds, what
  arrives on a socket, and which sends succeed. A query never waits for another one except on
  locks, so each shared structure is read and written as one step.
\<close>

section \<open>Types\<close>

datatype 'u client_identity = ClientIp ip_addr | ClientDevice 'u string

record tunnel_forwarder_info =
  tf_interface_name :: string
  tf_upstream :: socket_addr

record 'm soa_record =
  sr_name :: 'm
  sr_ttl :: nat
  sr_data :: "'m soa"

text \<open>The errors of \<open>hickory_resolver\<close>, by the questions the code asks about them.\<close>

record 'm lookup_error =
  le_no_records_found :: bool
  le_nx_domain :: bool
  le_soa :: "'m soa_record option"

datatype 'm lookup_outcome = Resolved "'m dns_record list" | LookupFailed "'m lookup_error"

datatype 'm recursor_outcome = RecursorOk "'m dns_message" | RecursorFailed "'m lookup_error"

text \<open>What a receive on a socket yields, and when, in milliseconds after the query was sent.\<close>

datatype recv_event = Datagram nat bytes | RecvError nat string

datatype pipe_error = DecodeError | NameError | EncodeError | SendError | UpstreamFailure string

record ('u, 'm) query_env =
  e_hickory :: "'m hickory"
  e_name_eq :: "'m \<Rightarrow> 'm \<Rightarrow> bool"
  e_config :: dns_config
  e_serving :: "upstream_entry list"
  e_lookup :: "upstream_entry \<Rightarrow> string \<Rightarrow> record_type \<Rightarrow> (nat \<times> 'm lookup_outcome) option"
  e_recursor :: "('m \<times> record_type \<Rightarrow> bool \<Rightarrow> 'm recursor_outcome) option"
  e_view :: "('u, 'm) authoritative_view"
  e_filter_check :: "string \<Rightarrow> record_type \<Rightarrow> ip_addr \<Rightarrow> check_outcome"
  e_filter_check_for_device :: "string \<Rightarrow> record_type \<Rightarrow> 'u \<Rightarrow> ip_addr \<Rightarrow> check_outcome"
  e_routing_profile :: bool
  e_log_sink :: bool
  e_routing_snapshot :: "ip_addr \<rightharpoonup> 'u upstream_id"
  e_device_routing_snapshot :: "'u \<rightharpoonup> 'u upstream_id"
  e_device_snapshot :: "ip_addr \<rightharpoonup> 'u"
  e_find_tunnel :: "'u \<Rightarrow> string + string option"
  e_find_tunnel_config :: "'u \<Rightarrow> string + string list option"
  e_tunnel_exchange :: "string \<Rightarrow> socket_addr \<Rightarrow> bytes \<Rightarrow> string + recv_event option"
  e_bind :: "string + unit"
  e_conditional :: "socket_addr \<Rightarrow> bytes \<Rightarrow> string + recv_event list"
  e_recv_timeout :: nat
  e_send_ok :: "nat \<Rightarrow> bool"
  e_fl :: "rat \<Rightarrow> rat"
  e_hash :: "ip_addr \<Rightarrow> nat"
  e_now_get :: nat
  e_now_check :: nat
  e_now_insert :: nat
  e_timestamp :: int
  e_latency_us :: nat

text \<open>
  A pooled socket is the list of the datagrams queued on it. \<open>qs_sent\<close> are the replies that left,
  \<open>qs_attempts\<close> counts the sends tried, \<open>qs_notes\<close> are the calls of \<open>note_resolution\<close>.
\<close>

record 'u query_state =
  qs_cache :: "('u, record_type) dns_cache"
  qs_limiter :: "ip_addr rate_limiter"
  qs_forwarders :: "'u \<rightharpoonup> tunnel_forwarder_info"
  qs_sockets :: "bytes list list"
  qs_sent :: "(bytes \<times> socket_addr) list"
  qs_attempts :: nat
  qs_log :: "'u query_log_row list"
  qs_notes :: "('u \<times> ip_addr \<times> string \<times> ip_addr list \<times> nat) list"

type_synonym ('u, 'a) pipe = "'u query_state \<Rightarrow> (pipe_error + 'a) \<times> 'u query_state"

text \<open>The query being handled, as \<open>handle\<close> passes it on to its helpers.\<close>

record ('u, 'm) dns_query =
  q_packet :: bytes
  q_request :: "'m dns_message"
  q_domain :: string
  q_rtype :: record_type
  q_src :: socket_addr
  q_attribution :: "'u query_attribution"
  q_upstream_id :: "'u upstream_id"
  q_routing_profile :: bool
  q_pass_result :: dns_query_result

abbreviation q_id :: "('u, 'm) dns_query \<Rightarrow> nat" where
  "q_id Q \<equiv> dm_id (q_request Q)"

section \<open>Replies and the log\<close>

definition pipe_bind :: "('u, 'a) pipe \<Rightarrow> ('a \<Rightarrow> ('u, 'b) pipe) \<Rightarrow> ('u, 'b) pipe" where
  "pipe_bind m k S = (case m S of (Inl e, S') \<Rightarrow> (Inl e, S') | (Inr x, S') \<Rightarrow> k x S')"

definition pipe_return :: "'a \<Rightarrow> ('u, 'a) pipe" where
  "pipe_return x S = (Inr x, S)"

definition pipe_fail :: "pipe_error \<Rightarrow> ('u, 'a) pipe" where
  "pipe_fail e S = (Inl e, S)"

definition pipe_option :: "pipe_error \<Rightarrow> 'a option \<Rightarrow> ('u, 'a) pipe" where
  "pipe_option e x = (case x of Some y \<Rightarrow> pipe_return y | None \<Rightarrow> pipe_fail e)"

definition pipe_update :: "('u query_state \<Rightarrow> 'u query_state) \<Rightarrow> ('u, unit) pipe" where
  "pipe_update f S = (Inr (), f S)"

definition send_to :: "('u, 'm) query_env \<Rightarrow> bytes \<Rightarrow> socket_addr \<Rightarrow> ('u, unit) pipe" where
  "send_to E wire dst S =
     (if e_send_ok E (qs_attempts S)
      then (Inr (), S\<lparr>qs_sent := qs_sent S @ [(wire, dst)], qs_attempts := qs_attempts S + 1\<rparr>)
      else (Inl SendError, S\<lparr>qs_attempts := qs_attempts S + 1\<rparr>))"

definition response_for :: "('u, 'm) dns_query \<Rightarrow> 'm dns_message" where
  "response_for Q =
     \<lparr>dm_id = q_id Q, dm_code = NoError, dm_authoritative = False, dm_recursion_desired = True,
      dm_recursion_available = True, dm_queries = dm_queries (q_request Q), dm_answers = [], dm_authorities = [],
      dm_additionals = []\<rparr>"

definition send_message :: "('u, 'm) query_env \<Rightarrow> ('u, 'm) dns_query \<Rightarrow> 'm dns_message \<Rightarrow> ('u, bytes) pipe" where
  "send_message E Q msg =
     pipe_bind (pipe_option EncodeError (h_to_bytes (e_hickory E) msg)) (\<lambda>wire.
     pipe_bind (send_to E wire (q_src Q)) (\<lambda>_. pipe_return wire))"

definition record_query ::
    "('u, 'm) query_env \<Rightarrow> ('u, 'm) dns_query \<Rightarrow> dns_query_result \<Rightarrow> upstream_label option \<Rightarrow> ('u, unit) pipe" where
  "record_query E Q result upstream =
     pipe_update (\<lambda>S.
       if \<not> e_log_sink E then S
       else S\<lparr>qs_log := qs_log S @
         [\<lparr>ql_timestamp = e_timestamp E, ql_client_ip = sa_ip (q_src Q), ql_domain = trim_end_matches (CHR ''.'') (q_domain Q),
           ql_query_type = q_rtype Q, ql_result = result_as_str result, ql_upstream = upstream,
           ql_latency_us = e_latency_us E, ql_device_id = at_device_id (q_attribution Q),
           ql_protocol = protocol_as_str (at_protocol (q_attribution Q))\<rparr>]\<rparr>)"

text \<open>The common ending: encode, send, log.\<close>

definition reply_and_record ::
    "('u, 'm) query_env \<Rightarrow> ('u, 'm) dns_query \<Rightarrow> 'm dns_message \<Rightarrow> dns_query_result \<Rightarrow> upstream_label option \<Rightarrow> ('u, unit) pipe" where
  "reply_and_record E Q msg result upstream = pipe_bind (send_message E Q msg) (\<lambda>_. record_query E Q result upstream)"

definition send_servfail :: "('u, 'm) query_env \<Rightarrow> ('u, 'm) dns_query \<Rightarrow> ('u, unit) pipe" where
  "send_servfail E Q = pipe_bind (send_message E Q ((response_for Q)\<lparr>dm_code := ServFail\<rparr>)) (\<lambda>_. pipe_return ())"

definition send_refused :: "('u, 'm) query_env \<Rightarrow> ('u, 'm) dns_query \<Rightarrow> ('u, unit) pipe" where
  "send_refused E Q = pipe_bind (send_message E Q ((response_for Q)\<lparr>dm_code := Refused\<rparr>)) (\<lambda>_. pipe_return ())"

definition send_negative ::
    "('u, 'm) query_env \<Rightarrow> ('u, 'm) dns_query \<Rightarrow> bool \<Rightarrow> 'm dns_record option \<Rightarrow> ('u, bytes) pipe" where
  "send_negative E Q nx_domain authority =
     send_message E Q ((response_for Q)\<lparr>dm_code := (if nx_domain then NXDomain else NoError),
       dm_authorities := (case authority of Some a \<Rightarrow> [a] | None \<Rightarrow> [])\<rparr>)"

section \<open>Local answers\<close>

fun rtype_from_hickory :: "record_type \<Rightarrow> dns_record_type option" where
  "rtype_from_hickory RT_A = Some TypeA"
| "rtype_from_hickory RT_AAAA = Some TypeAaaa"
| "rtype_from_hickory RT_CNAME = Some TypeCname"
| "rtype_from_hickory RT_TXT = Some TypeTxt"
| "rtype_from_hickory RT_MX = Some TypeMx"
| "rtype_from_hickory RT_SRV = Some TypeSrv"
| "rtype_from_hickory _ = None"

definition parse_ipv6 :: "string \<Rightarrow> ipv6 option" where
  "parse_ipv6 s = (case read_ipv6_addr s of Some (ip, []) \<Rightarrow> Some ip | _ \<Rightarrow> None)"

text \<open>\<open>str::splitn\<close> for at least one part.\<close>

fun splitn :: "nat \<Rightarrow> char \<Rightarrow> string \<Rightarrow> string list" where
  "splitn 0 c s = []"
| "splitn (Suc 0) c s = [s]"
| "splitn (Suc (Suc n)) c s = (case split_once c s of None \<Rightarrow> [s] | Some (a, b) \<Rightarrow> a # splitn (Suc n) c b)"

fun make_rdata :: "'m hickory \<Rightarrow> dns_record_type \<Rightarrow> string \<Rightarrow> 'm rdata option" where
  "make_rdata H TypeA v = map_option RD_A (parse_ipv4 v)"
| "make_rdata H TypeAaaa v = map_option RD_AAAA (parse_ipv6 v)"
| "make_rdata H TypeCname v = map_option RD_CNAME (h_from_str_relaxed H v)"
| "make_rdata H TypeTxt v = Some (RD_TXT [v])"
| "make_rdata H TypeMx v =
     (case split_once (CHR '' '') v of
        None \<Rightarrow> None
      | Some (prio, exchange) \<Rightarrow>
          (case (parse_uint 65535 prio, h_from_str_relaxed H exchange) of
             (Some p, Some x) \<Rightarrow> Some (RD_MX p x) | _ \<Rightarrow> None))"
| "make_rdata H TypeSrv v =
     (case splitn 4 (CHR '' '') v of
        [prio, weight, port, target] \<Rightarrow>
          (case (parse_uint 65535 prio, parse_uint 65535 weight, parse_uint 65535 port, h_from_str_relaxed H target) of
             (Some p, Some w, Some q, Some t) \<Rightarrow> Some (RD_SRV p w q t) | _ \<Rightarrow> None)
      | _ \<Rightarrow> None)"

definition rdata_records :: "'m hickory \<Rightarrow> 'm \<Rightarrow> 'u local_record list \<Rightarrow> 'm dns_record list" where
  "rdata_records H name recs =
     List.map_filter (\<lambda>r. map_option (\<lambda>d. \<lparr>dr_name = name, dr_ttl = lr_ttl r, dr_data = d\<rparr>)
       (make_rdata H (lr_record_type r) (lr_value r))) recs"

text \<open>Stage 0.4: the reverse name of a private address, unless a forwarding rule covers it.\<close>

definition reverse_target :: "('u, 'm) query_env \<Rightarrow> record_type \<Rightarrow> string \<Rightarrow> (ipv4 \<times> string) option" where
  "reverse_target E rtype domain_lower =
     (if rtype = RT_PTR \<or> rtype = RT_ANY
      then (case parse_ptr_ipv4 domain_lower of
              None \<Rightarrow> None
            | Some ip \<Rightarrow>
                (case private_reverse_zone ip of
                   None \<Rightarrow> None
                 | Some zone \<Rightarrow> (if match_forwarding_rule (e_view E) domain_lower = None then Some (ip, zone) else None)))
      else None)"

definition answer_reverse :: "('u, 'm) query_env \<Rightarrow> ('u, 'm) dns_query \<Rightarrow> ipv4 \<Rightarrow> string \<Rightarrow> ('u, unit) pipe" where
  "answer_reverse E Q ptr_ip zone =
     (let H = e_hickory E;
          ptr_records = (case reverse_lookup (e_view E) ptr_ip of
                           Some recs \<Rightarrow> map (\<lambda>r. (lr_domain r, lr_ttl r)) recs | None \<Rightarrow> []);
          name_exists = (ptr_records \<noteq> [])
      in pipe_bind (pipe_option NameError (h_from_str_relaxed H (q_domain Q))) (\<lambda>name.
           (let answers = List.map_filter (\<lambda>(target, ttl).
                  map_option (\<lambda>tname. \<lparr>dr_name = name, dr_ttl = ttl, dr_data = RD_PTR tname\<rparr>) (h_from_str_relaxed H target))
                  ptr_records;
                response = (response_for Q)\<lparr>dm_authoritative := True, dm_answers := answers\<rparr>
            in if answers = []
               then reply_and_record E Q
                      (response\<lparr>dm_code := (if \<not> name_exists then NXDomain else NoError),
                         dm_authorities := (case build_soa H zone 1 of Some soa \<Rightarrow> [soa] | None \<Rightarrow> [])\<rparr>)
                      (if name_exists then ResAuthoritativeNodata else ResAuthoritativeNxdomain) None
               else reply_and_record E Q response ResAuthoritative None)))"

text \<open>Stage 0.5: the local records, with the hop to \<open>.lan\<close> for a bare name of a system record.\<close>

definition LOCAL_ZONE_SUFFIX :: string where "LOCAL_ZONE_SUFFIX = ''lan''"

definition local_lookup :: "('u, 'm) query_env \<Rightarrow> record_type \<Rightarrow> string \<Rightarrow> 'u local_record list option" where
  "local_lookup E rtype name =
     (if rtype = RT_ANY then lookup_all (e_view E) name
      else (case rtype_from_hickory rtype of Some rt \<Rightarrow> view_lookup (e_view E) name rt | None \<Rightarrow> None))"

definition auth_lookup :: "('u, 'm) query_env \<Rightarrow> record_type \<Rightarrow> string \<Rightarrow> 'u local_record list option" where
  "auth_lookup E rtype domain_lower =
     (let found = local_lookup E rtype domain_lower in
      if (found = None \<or> found = Some []) \<and> domain_lower \<noteq> [] \<and> CHR ''.'' \<notin> set domain_lower
      then (case local_lookup E rtype (domain_lower @ ''.'' @ LOCAL_ZONE_SUFFIX) of
              Some recs \<Rightarrow> (if recs \<noteq> [] \<and> list_all (\<lambda>r. lr_source r = SystemRecord) recs then Some recs else found)
            | None \<Rightarrow> found)
      else found)"

definition cname_records ::
    "('u, 'm) query_env \<Rightarrow> 'm \<Rightarrow> dns_record_type \<Rightarrow> string \<Rightarrow> 'm dns_record list \<times> 'm dns_record list" where
  "cname_records E name rt domain_lower =
     (let H = e_hickory E in
      case lookup_cname (e_view E) domain_lower of
        None \<Rightarrow> ([], [])
      | Some cname \<Rightarrow>
          ((case make_rdata H TypeCname (lr_value cname) of
              Some d \<Rightarrow> [\<lparr>dr_name = name, dr_ttl = lr_ttl cname, dr_data = d\<rparr>] | None \<Rightarrow> []),
           (case (view_lookup (e_view E) (to_ascii_lowercase (trim_end_matches (CHR ''.'') (lr_value cname))) rt,
                  h_from_str_relaxed H (lr_value cname)) of
              (Some targets, Some target_name) \<Rightarrow> rdata_records H target_name targets
            | _ \<Rightarrow> [])))"

definition answer_authoritative ::
    "('u, 'm) query_env \<Rightarrow> ('u, 'm) dns_query \<Rightarrow> string \<Rightarrow> 'u local_record list \<Rightarrow> ('u, unit) pipe" where
  "answer_authoritative E Q domain_lower recs =
     pipe_bind (pipe_option NameError (h_from_str_relaxed (e_hickory E) (q_domain Q))) (\<lambda>name.
       (let response = (response_for Q)\<lparr>dm_authoritative := True\<rparr>;
            msg = (if recs = []
                   then (case Option.bind (authoritative_zone (e_view E) domain_lower) za_soa of
                           Some soa \<Rightarrow> response\<lparr>dm_authorities := [soa]\<rparr> | None \<Rightarrow> response)
                   else (let answers = rdata_records (e_hickory E) name recs in
                         if answers = [] \<and> (rtype_from_hickory (q_rtype Q) = Some TypeA \<or> rtype_from_hickory (q_rtype Q) = Some TypeAaaa)
                         then (let (ans, adds) = cname_records E name (the (rtype_from_hickory (q_rtype Q))) domain_lower
                               in response\<lparr>dm_answers := ans, dm_additionals := adds\<rparr>)
                         else response\<lparr>dm_answers := answers\<rparr>))
        in reply_and_record E Q msg ResAuthoritative None))"

text \<open>Stages 0.6 and 0.7: a forwarding rule, else the authority of an enclosing local zone.\<close>

definition conditional_upstream :: "('u, 'm) query_env \<Rightarrow> string \<Rightarrow> socket_addr option" where
  "conditional_upstream E domain_lower =
     Option.bind (match_forwarding_rule (e_view E) domain_lower) (\<lambda>r. parse_conditional_upstream (fr_upstream r))"

definition authoritative_negative :: "('u, 'm) query_env \<Rightarrow> string \<Rightarrow> ('m dns_record option \<times> bool) option" where
  "authoritative_negative E domain_lower =
     (if conditional_upstream E domain_lower = None
      then map_option (\<lambda>z. (za_soa z, lookup_all (e_view E) domain_lower \<noteq> None \<or> domain_lower = za_name z))
             (authoritative_zone (e_view E) domain_lower)
      else None)"

definition answer_negative ::
    "('u, 'm) query_env \<Rightarrow> ('u, 'm) dns_query \<Rightarrow> 'm dns_record option \<Rightarrow> bool \<Rightarrow> ('u, unit) pipe" where
  "answer_negative E Q zone_soa name_exists =
     reply_and_record E Q
       ((response_for Q)\<lparr>dm_authoritative := True, dm_code := (if \<not> name_exists then NXDomain else NoError),
          dm_authorities := (case zone_soa of Some soa \<Rightarrow> [soa] | None \<Rightarrow> [])\<rparr>)
       (if name_exists then ResAuthoritativeNodata else ResAuthoritativeNxdomain) None"

section \<open>Upstream\<close>

definition cache_store ::
    "('u, 'm) query_env \<Rightarrow> ('u, 'm) dns_query \<Rightarrow> bytes \<Rightarrow> nat \<Rightarrow> nat \<Rightarrow> nat \<Rightarrow> ('u, unit) pipe" where
  "cache_store E Q wire ttl ttl_min ttl_max =
     pipe_update (\<lambda>S. S\<lparr>qs_cache :=
       cache_insert (e_now_insert E) (q_upstream_id Q) (q_domain Q) (q_rtype Q) wire ttl ttl_min ttl_max (qs_cache S)\<rparr>)"

definition resolved_ips :: "'m dns_record list \<Rightarrow> ip_addr list" where
  "resolved_ips answers =
     List.map_filter (\<lambda>r. case dr_data r of RD_A a \<Rightarrow> Some (V4 a) | RD_AAAA a \<Rightarrow> Some (V6 a) | _ \<Rightarrow> None) answers"

definition note_resolution ::
    "('u, 'm) dns_query \<Rightarrow> 'm dns_record list \<Rightarrow> nat \<Rightarrow> ('u, unit) pipe" where
  "note_resolution Q answers ttl =
     (case (q_routing_profile Q, at_device_id (q_attribution Q), resolved_ips answers) of
        (True, Some device, ip # ips) \<Rightarrow>
          pipe_update (\<lambda>S. S\<lparr>qs_notes := qs_notes S @ [(device, sa_ip (q_src Q), q_domain Q, ip # ips, ttl)]\<rparr>)
      | _ \<Rightarrow> pipe_return ())"

definition U32_MAX :: nat where "U32_MAX = 2 ^ 32 - 1"

definition rebinds :: "'m dns_record list \<Rightarrow> bool" where
  "rebinds answers = list_ex is_private_ip (resolved_ips answers)"

definition send_resolved ::
    "('u, 'm) query_env \<Rightarrow> ('u, 'm) dns_query \<Rightarrow> upstream_label option \<Rightarrow> 'm dns_record list \<Rightarrow> ('u, unit) pipe" where
  "send_resolved E Q label answers =
     (if cfg_rebinding_protection (e_config E) \<and> rebinds answers
      then pipe_bind (send_negative E Q False None) (\<lambda>_. record_query E Q ResRebindingBlocked label)
      else
        (let min_ttl = fold min (map dr_ttl answers) U32_MAX in
         pipe_bind (send_message E Q ((response_for Q)\<lparr>dm_answers := answers\<rparr>)) (\<lambda>wire.
         pipe_bind (if min_ttl < U32_MAX \<and> min_ttl > 0
                    then cache_store E Q wire min_ttl (cfg_cache_ttl_min_secs (e_config E)) (cfg_cache_ttl_max_secs (e_config E))
                    else pipe_return ()) (\<lambda>_.
         pipe_bind (note_resolution Q answers (if min_ttl = U32_MAX then 0 else min_ttl)) (\<lambda>_.
         record_query E Q (q_pass_result Q) label)))))"

definition relayed_result :: "bool \<Rightarrow> dns_query_result \<Rightarrow> dns_query_result" where
  "relayed_result is_negative pass = (if is_negative \<and> pass \<noteq> ResBlockedSkipped then ResNegative else pass)"

definition negative_ttl :: "dns_config \<Rightarrow> 'm soa_record \<Rightarrow> nat" where
  "negative_ttl cfg soa =
     (let raw_ttl = min (sr_ttl soa) (soa_minimum (sr_data soa))
      in if raw_ttl = 0 then 0 else min (max raw_ttl (cfg_cache_ttl_min_secs cfg)) (cfg_cache_ttl_max_secs cfg))"

definition relay_negative ::
    "('u, 'm) query_env \<Rightarrow> ('u, 'm) dns_query \<Rightarrow> upstream_label option \<Rightarrow> bool \<Rightarrow> 'm soa_record option \<Rightarrow> ('u, unit) pipe" where
  "relay_negative E Q label nx_domain soa =
     (let cfg = e_config E;
          (authority, ttl) = (case soa of
             Some s \<Rightarrow> (Some \<lparr>dr_name = sr_name s, dr_ttl = negative_ttl cfg s, dr_data = RD_SOA (sr_data s)\<rparr>, negative_ttl cfg s)
           | None \<Rightarrow> (None, 0))
      in pipe_bind (send_negative E Q nx_domain authority) (\<lambda>wire.
         pipe_bind (if ttl > 0 then cache_store E Q wire ttl (cfg_cache_ttl_min_secs cfg) (cfg_cache_ttl_max_secs cfg)
                    else pipe_return ()) (\<lambda>_.
         record_query E Q (relayed_result True (q_pass_result Q)) label)))"

subsection \<open>The forwarding ladder\<close>

datatype 'm ladder_outcome =
    Answered string "'m dns_record list"
  | NegativeAnswer string bool "'m soa_record option"
  | Exhausted

text \<open>The outcome and the milliseconds it took.\<close>

fun walk_ladder ::
    "('u, 'm) query_env \<Rightarrow> string \<Rightarrow> record_type \<Rightarrow> nat \<Rightarrow> upstream_entry list \<Rightarrow> 'm ladder_outcome \<times> nat" where
  "walk_ladder E domain rtype per_upstream [] = (Exhausted, 0)"
| "walk_ladder E domain rtype per_upstream (entry # rest) =
     (let next_rung = (\<lambda>spent. case walk_ladder E domain rtype per_upstream rest of (out, t) \<Rightarrow> (out, spent + t)) in
      case e_lookup E entry domain rtype of
        None \<Rightarrow> next_rung per_upstream
      | Some (t, result) \<Rightarrow>
          (if t > per_upstream then next_rung per_upstream
           else (case result of
                   Resolved lookup \<Rightarrow> (Answered (entry_address entry) lookup, t)
                 | LookupFailed err \<Rightarrow>
                     (if le_no_records_found err \<or> le_nx_domain err
                      then (NegativeAnswer (entry_address entry) (le_nx_domain err) (le_soa err), t)
                      else next_rung t))))"

definition bounded_ladder :: "('u, 'm) query_env \<Rightarrow> string \<Rightarrow> record_type \<Rightarrow> 'm ladder_outcome" where
  "bounded_ladder E domain rtype =
     (case walk_ladder E domain rtype (cfg_upstream_timeout_ms (e_config E)) (e_serving E) of
        (out, t) \<Rightarrow> (if t \<le> cfg_forward_deadline_ms (e_config E) then out else Exhausted))"

definition forward_via_default_resolver :: "('u, 'm) query_env \<Rightarrow> ('u, 'm) dns_query \<Rightarrow> ('u, unit) pipe" where
  "forward_via_default_resolver E Q =
     (case bounded_ladder E (q_domain Q) (q_rtype Q) of
        Answered address lookup \<Rightarrow> send_resolved E Q (Some (LabelText address)) lookup
      | NegativeAnswer address nx_domain soa \<Rightarrow> relay_negative E Q (Some (LabelText address)) nx_domain soa
      | Exhausted \<Rightarrow> pipe_bind (send_servfail E Q) (\<lambda>_. record_query E Q ResUpstreamError None))"

subsection \<open>The recursor\<close>

definition handle_recursor_outcome ::
    "('u, 'm) query_env \<Rightarrow> ('u, 'm) dns_query \<Rightarrow> 'm recursor_outcome option \<Rightarrow> ('u, unit) pipe" where
  "handle_recursor_outcome E Q result =
     (let fall_back = (if cfg_upstream_servers (e_config E) \<noteq> [] then forward_via_default_resolver E Q
                       else pipe_bind (send_servfail E Q) (\<lambda>_. record_query E Q ResRecursorFailed None)) in
      case result of
        Some (RecursorOk msg) \<Rightarrow> send_resolved E Q (Some (LabelText (result_as_str ResRecursive))) (dm_answers msg)
      | Some (RecursorFailed err) \<Rightarrow>
          (if le_no_records_found err \<or> le_nx_domain err
           then relay_negative E Q (Some (LabelText (result_as_str ResRecursive))) (le_nx_domain err) (le_soa err)
           else fall_back)
      | None \<Rightarrow> fall_back)"

definition resolve_via_recursor :: "('u, 'm) query_env \<Rightarrow> ('u, 'm) dns_query \<Rightarrow> ('u, unit) pipe" where
  "resolve_via_recursor E Q =
     (case dm_queries (q_request Q) of
        [] \<Rightarrow> send_servfail E Q
      | query # _ \<Rightarrow>
          handle_recursor_outcome E Q (map_option (\<lambda>resolve. resolve query (cfg_dnssec_enabled (e_config E))) (e_recursor E)))"

subsection \<open>Tunnels\<close>

definition TUNNEL_RECV_TIMEOUT :: nat where "TUNNEL_RECV_TIMEOUT = 5000"
definition RECV_BUFFER :: nat where "RECV_BUFFER = 4096"

definition get_or_build_tunnel_forwarder :: "('u, 'm) query_env \<Rightarrow> 'u \<Rightarrow> ('u, tunnel_forwarder_info) pipe" where
  "get_or_build_tunnel_forwarder E tunnel_id S =
     (case qs_forwarders S tunnel_id of
        Some f \<Rightarrow> (Inr f, S)
      | None \<Rightarrow>
          (case e_find_tunnel E tunnel_id of
             Inl e \<Rightarrow> (Inl (UpstreamFailure e), S)
           | Inr None \<Rightarrow> (Inl (UpstreamFailure ''tunnel not found''), S)
           | Inr (Some interface_name) \<Rightarrow>
               (case e_find_tunnel_config E tunnel_id of
                  Inl e \<Rightarrow> (Inl (UpstreamFailure e), S)
                | Inr None \<Rightarrow> (Inl (UpstreamFailure ''tunnel has no config''), S)
                | Inr (Some []) \<Rightarrow> (Inl (UpstreamFailure ''tunnel has no DNS server configured''), S)
                | Inr (Some (dns # _)) \<Rightarrow>
                    (case parse_ip dns of
                       None \<Rightarrow> (Inl (UpstreamFailure ''tunnel DNS not a valid IP''), S)
                     | Some ip \<Rightarrow>
                         (let info = \<lparr>tf_interface_name = interface_name,
                                      tf_upstream = \<lparr>sa_ip = ip, sa_scope = 0, sa_port = 53\<rparr>\<rparr>
                          in (Inr info, S\<lparr>qs_forwarders := (qs_forwarders S)(tunnel_id \<mapsto> info)\<rparr>))))))"

definition tunnel_datagram :: "('u, 'm) query_env \<Rightarrow> tunnel_forwarder_info \<Rightarrow> bytes \<Rightarrow> pipe_error + bytes" where
  "tunnel_datagram E forwarder packet =
     (case e_tunnel_exchange E (tf_interface_name forwarder) (tf_upstream forwarder) packet of
        Inl e \<Rightarrow> Inl (UpstreamFailure e)
      | Inr None \<Rightarrow> Inl (UpstreamFailure ''tunnel upstream timeout'')
      | Inr (Some (RecvError t e)) \<Rightarrow>
          Inl (UpstreamFailure (if t \<le> TUNNEL_RECV_TIMEOUT then ''tunnel upstream recv error: '' @ e else ''tunnel upstream timeout''))
      | Inr (Some (Datagram t d)) \<Rightarrow>
          (if t \<le> TUNNEL_RECV_TIMEOUT then Inr (take RECV_BUFFER d) else Inl (UpstreamFailure ''tunnel upstream timeout'')))"

text \<open>Cache what was relayed, as long as it says.\<close>

definition cache_relayed :: "('u, 'm) query_env \<Rightarrow> ('u, 'm) dns_query \<Rightarrow> bytes \<Rightarrow> nat \<Rightarrow> ('u, unit) pipe" where
  "cache_relayed E Q wire raw_ttl =
     (if raw_ttl > 0
      then cache_store E Q wire raw_ttl (cfg_cache_ttl_min_secs (e_config E)) (cfg_cache_ttl_max_secs (e_config E))
      else pipe_return ())"

definition forward_via_tunnel :: "('u, 'm) query_env \<Rightarrow> ('u, 'm) dns_query \<Rightarrow> tunnel_forwarder_info \<Rightarrow> ('u, unit) pipe" where
  "forward_via_tunnel E Q forwarder =
     (case tunnel_datagram E forwarder (q_packet Q) of
        Inl e \<Rightarrow> pipe_fail e
      | Inr buf \<Rightarrow>
          pipe_bind (send_to E buf (q_src Q)) (\<lambda>_.
            (case h_from_bytes (e_hickory E) buf of
               None \<Rightarrow> record_query E Q (q_pass_result Q) (Some (LabelIp (sa_ip (tf_upstream forwarder))))
             | Some parsed \<Rightarrow>
                 (let (is_negative, raw_ttl) = classify_response parsed in
                  pipe_bind (cache_relayed E Q buf raw_ttl) (\<lambda>_.
                  pipe_bind (note_resolution Q (dm_answers parsed) raw_ttl) (\<lambda>_.
                  record_query E Q (relayed_result is_negative (q_pass_result Q))
                    (Some (LabelIp (sa_ip (tf_upstream forwarder))))))))))"

subsection \<open>Conditional upstreams\<close>

definition CONDITIONAL_SOCKET_POOL_SIZE :: nat where "CONDITIONAL_SOCKET_POOL_SIZE = 8"

definition same_question :: "('u, 'm) query_env \<Rightarrow> 'm dns_message \<Rightarrow> 'm dns_message \<Rightarrow> bool" where
  "same_question E a b =
     (case (dm_queries a, dm_queries b) of
        ((n, _) # _, (m, _) # _) \<Rightarrow> e_name_eq E n m
      | ([], []) \<Rightarrow> True
      | _ \<Rightarrow> False)"

text \<open>
  The receive loop: the datagram it settles on with its message, if it decodes, and what is left
  on the socket.
\<close>

fun recv_loop ::
    "('u, 'm) query_env \<Rightarrow> 'm dns_message \<Rightarrow> bool \<Rightarrow> recv_event list \<Rightarrow>
     pipe_error + bytes \<times> 'm dns_message option \<times> recv_event list" where
  "recv_loop E request first_recv [] = Inl (UpstreamFailure ''conditional upstream timeout'')"
| "recv_loop E request first_recv (RecvError t e # rest) =
     Inl (UpstreamFailure (if t \<le> e_recv_timeout E then ''conditional upstream recv error: '' @ e
                           else ''conditional upstream timeout''))"
| "recv_loop E request first_recv (Datagram t d # rest) =
     (if t > e_recv_timeout E then Inl (UpstreamFailure ''conditional upstream timeout'')
      else
        (let buf = take RECV_BUFFER d in
         case h_from_bytes (e_hickory E) buf of
           Some msg \<Rightarrow>
             (if dm_id msg = dm_id request \<and> same_question E msg request then Inr (buf, Some msg, rest)
              else recv_loop E request False rest)
         | None \<Rightarrow> (if first_recv then Inr (buf, None, rest) else recv_loop E request False rest)))"

definition queued :: "recv_event list \<Rightarrow> bytes list" where
  "queued evs = List.map_filter (\<lambda>ev. case ev of Datagram _ d \<Rightarrow> Some d | RecvError _ _ \<Rightarrow> None) evs"

definition take_socket :: "('u, 'm) query_env \<Rightarrow> ('u, bytes list) pipe" where
  "take_socket E S =
     (if qs_sockets S \<noteq> [] then (Inr (last (qs_sockets S)), S\<lparr>qs_sockets := butlast (qs_sockets S)\<rparr>)
      else (case e_bind E of Inl e \<Rightarrow> (Inl (UpstreamFailure e), S) | Inr _ \<Rightarrow> (Inr [], S)))"

definition return_socket_to_pool :: "bytes list \<Rightarrow> ('u, unit) pipe" where
  "return_socket_to_pool socket =
     pipe_update (\<lambda>S. if length (qs_sockets S) < CONDITIONAL_SOCKET_POOL_SIZE then S\<lparr>qs_sockets := qs_sockets S @ [socket]\<rparr> else S)"

definition forward_via_conditional :: "('u, 'm) query_env \<Rightarrow> ('u, 'm) dns_query \<Rightarrow> socket_addr \<Rightarrow> ('u, unit) pipe" where
  "forward_via_conditional E Q upstream =
     pipe_bind (take_socket E) (\<lambda>leftover.
       (case e_conditional E upstream (q_packet Q) of
          Inl e \<Rightarrow> pipe_fail (UpstreamFailure e)
        | Inr arrivals \<Rightarrow>
            (case recv_loop E (q_request Q) True (map (Datagram 0) leftover @ arrivals) of
               Inl e \<Rightarrow> pipe_fail e
             | Inr (buf, parsed, rest) \<Rightarrow>
                 pipe_bind (send_to E buf (q_src Q)) (\<lambda>_.
                 pipe_bind (return_socket_to_pool (queued rest)) (\<lambda>_.
                   (case parsed of
                      None \<Rightarrow> record_query E Q (q_pass_result Q) (Some (LabelIp (sa_ip upstream)))
                    | Some msg \<Rightarrow>
                        (let (is_negative, raw_ttl) = classify_response msg in
                         pipe_bind (cache_relayed E Q buf raw_ttl) (\<lambda>_.
                         record_query E Q (relayed_result is_negative (q_pass_result Q)) (Some (LabelIp (sa_ip upstream)))))))))))"

section \<open>One query\<close>

definition select_upstream :: "('u, 'm) query_env \<Rightarrow> 'u client_identity \<Rightarrow> socket_addr \<Rightarrow> 'u upstream_id" where
  "select_upstream E client src =
     (case (case client of
              ClientIp _ \<Rightarrow> e_routing_snapshot E (sa_ip src)
            | ClientDevice device_id _ \<Rightarrow>
                (case e_device_routing_snapshot E device_id of
                   Some u \<Rightarrow> Some u
                 | None \<Rightarrow> e_routing_snapshot E (sa_ip src))) of
        Some u \<Rightarrow> u
      | None \<Rightarrow> DefaultUpstream)"

definition device_of :: "('u, 'm) query_env \<Rightarrow> 'u client_identity \<Rightarrow> 'u option" where
  "device_of E client =
     (case client of ClientIp ip \<Rightarrow> e_device_snapshot E ip | ClientDevice device_id _ \<Rightarrow> Some device_id)"

fun is_ip_client :: "'u client_identity \<Rightarrow> bool" where
  "is_ip_client (ClientIp _) = True"
| "is_ip_client (ClientDevice _ _) = False"

definition filter_outcome :: "('u, 'm) query_env \<Rightarrow> 'u client_identity \<Rightarrow> string \<Rightarrow> record_type \<Rightarrow> socket_addr \<Rightarrow> check_outcome" where
  "filter_outcome E client domain_lower rtype src =
     (case client of
        ClientIp _ \<Rightarrow> e_filter_check E domain_lower rtype (sa_ip src)
      | ClientDevice device_id _ \<Rightarrow> e_filter_check_for_device E domain_lower rtype device_id (sa_ip src))"

text \<open>Stage 3: the query leaves for the upstream of a forwarding rule, the default pool or a tunnel.\<close>

definition or_servfail ::
    "('u, 'm) query_env \<Rightarrow> ('u, 'm) dns_query \<Rightarrow> upstream_label option \<Rightarrow> ('u, unit) pipe \<Rightarrow> ('u, unit) pipe" where
  "or_servfail E Q label m S =
     (case m S of
        (Inr x, S') \<Rightarrow> (Inr x, S')
      | (Inl e, S') \<Rightarrow> pipe_bind (send_servfail E Q) (\<lambda>_. record_query E Q ResUpstreamError label) S')"

definition forward_upstream :: "('u, 'm) query_env \<Rightarrow> ('u, 'm) dns_query \<Rightarrow> socket_addr option \<Rightarrow> ('u, unit) pipe" where
  "forward_upstream E Q cond_upstream =
     (case cond_upstream of
        Some upstream \<Rightarrow> or_servfail E Q (Some (LabelIp (sa_ip upstream))) (forward_via_conditional E Q upstream)
      | None \<Rightarrow>
          (case q_upstream_id Q of
             DefaultUpstream \<Rightarrow>
               (if cfg_resolution_mode (e_config E) = RecursiveMode then resolve_via_recursor E Q
                else forward_via_default_resolver E Q)
           | TunnelUpstream tunnel_id \<Rightarrow>
               (\<lambda>S. case get_or_build_tunnel_forwarder E tunnel_id S of
                      (Inl e, S') \<Rightarrow> pipe_bind (send_servfail E Q) (\<lambda>_. record_query E Q ResUpstreamError None) S'
                    | (Inr forwarder, S') \<Rightarrow>
                        or_servfail E Q (Some (LabelIp (sa_ip (tf_upstream forwarder)))) (forward_via_tunnel E Q forwarder) S')))"

definition answer_rewrite :: "('u, 'm) query_env \<Rightarrow> ('u, 'm) dns_query \<Rightarrow> ip_addr \<Rightarrow> ('u, unit) pipe" where
  "answer_rewrite E Q ip =
     pipe_bind (pipe_option NameError (h_from_str_relaxed (e_hickory E) (q_domain Q))) (\<lambda>name.
       reply_and_record E Q
         ((response_for Q)\<lparr>dm_answers :=
            [\<lparr>dr_name = name, dr_ttl = 60, dr_data = (case ip of V4 a \<Rightarrow> RD_A a | V6 a \<Rightarrow> RD_AAAA a)\<rparr>]\<rparr>)
         ResRewritten None)"

text \<open>Stages 2 to 3: the filter, the rate limit, and upstream.\<close>

definition filter_and_forward ::
    "('u, 'm) query_env \<Rightarrow> 'u client_identity \<Rightarrow> ('u, 'm) dns_query \<Rightarrow> string \<Rightarrow> ('u, unit) pipe" where
  "filter_and_forward E client Q domain_lower S =
     (let outcome = filter_outcome E client domain_lower (q_rtype Q) (q_src Q) in
      case co_action outcome of
        BlockQuery \<Rightarrow> reply_and_record E Q ((response_for Q)\<lparr>dm_code := NXDomain\<rparr>) ResBlocked None S
      | RewriteTo ip \<Rightarrow> answer_rewrite E Q ip S
      | Pass \<Rightarrow>
          (let (allowed, limiter) = (if is_ip_client client
                                     then limiter_check (e_fl E) (e_hash E) (sa_ip (q_src Q)) (e_now_check E) (qs_limiter S)
                                     else (True, qs_limiter S));
               S' = S\<lparr>qs_limiter := limiter\<rparr>
           in if \<not> allowed then pipe_bind (send_refused E Q) (\<lambda>_. record_query E Q ResRateLimited None) S'
              else forward_upstream E
                     (Q\<lparr>q_pass_result := (if co_would_have_blocked outcome then ResBlockedSkipped else ResForwarded),
                        q_routing_profile := (is_ip_client client \<and> e_routing_profile E)\<rparr>)
                     (conditional_upstream E domain_lower) S'))"

text \<open>Stages 0 to 1: the answers that need no upstream, then the cache.\<close>

definition answer_query :: "('u, 'm) query_env \<Rightarrow> 'u client_identity \<Rightarrow> ('u, 'm) dns_query \<Rightarrow> ('u, unit) pipe" where
  "answer_query E client Q S =
     (let domain_lower = to_ascii_lowercase (trim_end_matches (CHR ''.'') (q_domain Q)) in
      case reverse_target E (q_rtype Q) domain_lower of
        Some (ptr_ip, zone) \<Rightarrow> answer_reverse E Q ptr_ip zone S
      | None \<Rightarrow>
          (case auth_lookup E (q_rtype Q) domain_lower of
             Some recs \<Rightarrow> answer_authoritative E Q domain_lower recs S
           | None \<Rightarrow>
               (case authoritative_negative E domain_lower of
                  Some (zone_soa, name_exists) \<Rightarrow> answer_negative E Q zone_soa name_exists S
                | None \<Rightarrow>
                    (let (cached, cache) = cache_get (e_now_get E) (q_upstream_id Q) (q_domain Q) (q_rtype Q) (q_id Q) (qs_cache S);
                         S' = S\<lparr>qs_cache := cache\<rparr>
                     in case cached of
                          Some wire \<Rightarrow> pipe_bind (send_to E wire (q_src Q)) (\<lambda>_. record_query E Q ResCacheHit None) S'
                        | None \<Rightarrow> filter_and_forward E client Q domain_lower S'))))"

definition handle ::
    "('u, 'm) query_env \<Rightarrow> bytes \<Rightarrow> socket_addr \<Rightarrow> 'u client_identity \<Rightarrow> transport_protocol \<Rightarrow> ('u, unit) pipe" where
  "handle E packet src client protocol S =
     (case h_from_bytes (e_hickory E) packet of
        None \<Rightarrow> (Inl DecodeError, S)
      | Some request \<Rightarrow>
          (case dm_queries request of
             [] \<Rightarrow> (Inr (), S)
           | (name, rtype) # _ \<Rightarrow>
               answer_query E client
                 \<lparr>q_packet = packet, q_request = request, q_domain = h_to_string (e_hickory E) name, q_rtype = rtype,
                  q_src = src, q_attribution = \<lparr>at_device_id = device_of E client, at_protocol = protocol\<rparr>,
                  q_upstream_id = select_upstream E client src, q_routing_profile = False, q_pass_result = ResForwarded\<rparr> S))"

section \<open>What a step does to the outside\<close>

text \<open>
  The discipline behind \<open>at most one reply\<close>: a step that fails has sent and logged nothing, and a
  step that succeeds has sent \<open>i\<close> replies to the client and logged \<open>j\<close> rows about the query.
\<close>

definition row_about :: "('u, 'm) query_env \<Rightarrow> ('u, 'm) dns_query \<Rightarrow> 'u query_log_row \<Rightarrow> bool" where
  "row_about E Q row \<longleftrightarrow>
     ql_client_ip row = sa_ip (q_src Q) \<and> ql_domain row = trim_end_matches (CHR ''.'') (q_domain Q) \<and>
     ql_query_type row = q_rtype Q \<and> ql_device_id row = at_device_id (q_attribution Q) \<and>
     ql_protocol row = protocol_as_str (at_protocol (q_attribution Q)) \<and> (\<exists>r. result_from_db_str (ql_result row) = Some r)"

definition grew :: "('u, 'm) query_env \<Rightarrow> ('u, 'm) dns_query \<Rightarrow> nat \<Rightarrow> nat \<Rightarrow> 'u query_state \<Rightarrow> 'u query_state \<Rightarrow> bool" where
  "grew E Q i j S S' \<longleftrightarrow>
     (\<exists>ws rows. length ws = i \<and> qs_sent S' = qs_sent S @ map (\<lambda>w. (w, q_src Q)) ws \<and>
        length rows = (if e_log_sink E then j else 0) \<and> qs_log S' = qs_log S @ rows \<and> list_all (row_about E Q) rows)"

lemma grew_none: "grew E Q 0 0 S S' \<longleftrightarrow> qs_sent S' = qs_sent S \<and> qs_log S' = qs_log S"
  by (auto simp: grew_def)

lemma grew_trans: "grew E Q i j S T \<Longrightarrow> grew E Q i' j' T S' \<Longrightarrow> grew E Q (i + i') (j + j') S S'"
proof -
  assume "grew E Q i j S T" and "grew E Q i' j' T S'"
  then obtain ws rows ws' rows' where "length ws = i" "qs_sent T = qs_sent S @ map (\<lambda>w. (w, q_src Q)) ws"
    "length rows = (if e_log_sink E then j else 0)" "qs_log T = qs_log S @ rows" "list_all (row_about E Q) rows"
    "length ws' = i'" "qs_sent S' = qs_sent T @ map (\<lambda>w. (w, q_src Q)) ws'"
    "length rows' = (if e_log_sink E then j' else 0)" "qs_log S' = qs_log T @ rows'" "list_all (row_about E Q) rows'"
    by (auto simp: grew_def)
  then show ?thesis unfolding grew_def by (intro exI [of _ "ws @ ws'"] exI [of _ "rows @ rows'"]) simp
qed

definition acts :: "('u, 'm) query_env \<Rightarrow> ('u, 'm) dns_query \<Rightarrow> nat \<Rightarrow> nat \<Rightarrow> ('u, 'a) pipe \<Rightarrow> bool" where
  "acts E Q i j m \<longleftrightarrow>
     (\<forall>S. case m S of (Inl _, S') \<Rightarrow> grew E Q 0 0 S S' | (Inr _, S') \<Rightarrow> grew E Q i j S S')"

lemma acts_Inl: "acts E Q i j m \<Longrightarrow> m S = (Inl e, S') \<Longrightarrow> grew E Q 0 0 S S'"
  unfolding acts_def by (drule spec [of _ S]) simp

lemma acts_Inr: "acts E Q i j m \<Longrightarrow> m S = (Inr x, S') \<Longrightarrow> grew E Q i j S S'"
  unfolding acts_def by (drule spec [of _ S]) simp

lemma actsI:
  "(\<And>S e S'. m S = (Inl e, S') \<Longrightarrow> grew E Q 0 0 S S') \<Longrightarrow> (\<And>S x S'. m S = (Inr x, S') \<Longrightarrow> grew E Q i j S S') \<Longrightarrow> acts E Q i j m"
  by (auto simp: acts_def split: prod.splits sum.splits)

definition never_fails :: "('u, 'a) pipe \<Rightarrow> bool" where
  "never_fails m \<longleftrightarrow> (\<forall>S e. fst (m S) \<noteq> Inl e)"

named_theorems acts_intros

declare One_nat_def [simp del]

lemma acts_return [acts_intros]: "acts E Q 0 0 (pipe_return x)"
  by (simp add: acts_def pipe_return_def grew_none)

lemma acts_fail [acts_intros]: "acts E Q i j (pipe_fail e)"
  by (simp add: acts_def pipe_fail_def grew_none)

lemma acts_option [acts_intros]: "acts E Q 0 0 (pipe_option e x)"
  by (simp add: pipe_option_def acts_return acts_fail split: option.splits)

lemma acts_send [acts_intros]: "acts E Q 1 0 (send_to E wire (q_src Q))"
  unfolding acts_def
proof
  fix S
  have "grew E Q 1 0 S (S\<lparr>qs_sent := qs_sent S @ [(wire, q_src Q)], qs_attempts := qs_attempts S + 1\<rparr>)"
    unfolding grew_def by (rule exI [of _ "[wire]"]) simp
  then show "case send_to E wire (q_src Q) S of (Inl _, S') \<Rightarrow> grew E Q 0 0 S S' | (Inr _, S') \<Rightarrow> grew E Q 1 0 S S'"
    by (simp add: send_to_def grew_none)
qed

lemma acts_update [acts_intros]:
  "(\<And>S. qs_sent (f S) = qs_sent S \<and> qs_log (f S) = qs_log S) \<Longrightarrow> acts E Q 0 0 (pipe_update f)"
  by (simp add: acts_def pipe_update_def grew_none)

lemma acts_record [acts_intros]: "acts E Q 0 1 (record_query E Q result upstream)"
  by (auto simp: acts_def record_query_def pipe_update_def row_about_def grew_def)

lemma never_fails_return: "never_fails (pipe_return x)"
  by (simp add: never_fails_def pipe_return_def)

lemma never_fails_update: "never_fails (pipe_update f)"
  by (simp add: never_fails_def pipe_update_def)

lemma never_fails_record: "never_fails (record_query E Q result upstream)"
  by (simp add: record_query_def never_fails_update)

lemma never_fails_bind: "never_fails m \<Longrightarrow> (\<And>x. never_fails (k x)) \<Longrightarrow> never_fails (pipe_bind m k)"
  by (auto simp: never_fails_def pipe_bind_def split: prod.splits sum.splits) (metis fst_conv)+

lemma pipe_bind_Inr: "pipe_bind m k S = (r, S') \<Longrightarrow> m S = (Inr x, T) \<Longrightarrow> k x T = (r, S')"
  by (simp add: pipe_bind_def)

lemma pipe_bind_cases:
  assumes "pipe_bind m k S = (r, S')"
  obtains e where "m S = (Inl e, S')" "r = Inl e" | x T where "m S = (Inr x, T)" "k x T = (r, S')"
  using assms by (auto simp: pipe_bind_def split: prod.splits sum.splits)

lemma acts_bind_first:
  assumes "acts E Q 0 0 m" and "\<And>x. acts E Q i j (k x)"
  shows "acts E Q i j (pipe_bind m k)"
proof (rule actsI)
  fix S e S' assume "pipe_bind m k S = (Inl e, S')"
  then show "grew E Q 0 0 S S'"
    by (cases rule: pipe_bind_cases)
      (use acts_Inl [OF assms(1)] acts_Inr [OF assms(1)] acts_Inl [OF assms(2)] in \<open>auto simp: grew_none\<close>)
next
  fix S y S' assume "pipe_bind m k S = (Inr y, S')"
  then obtain x T where "m S = (Inr x, T)" "k x T = (Inr y, S')" by (cases rule: pipe_bind_cases) auto
  with grew_trans [OF acts_Inr [OF assms(1)] acts_Inr [OF assms(2)]] show "grew E Q i j S S'" by fastforce
qed

lemma acts_bind_then:
  assumes "acts E Q i j m" and "\<And>x. acts E Q i' j' (k x)" and "\<And>x. never_fails (k x)"
  shows "acts E Q (i + i') (j + j') (pipe_bind m k)"
proof (rule actsI)
  fix S e S' assume "pipe_bind m k S = (Inl e, S')"
  then show "grew E Q 0 0 S S'"
    by (cases rule: pipe_bind_cases) (use acts_Inl [OF assms(1)] assms(3) in \<open>auto simp: never_fails_def dest: arg_cong [of _ _ fst]\<close>)
next
  fix S y S' assume "pipe_bind m k S = (Inr y, S')"
  then obtain x T where "m S = (Inr x, T)" "k x T = (Inr y, S')" by (cases rule: pipe_bind_cases) auto
  with grew_trans [OF acts_Inr [OF assms(1)] acts_Inr [OF assms(2)]] show "grew E Q (i + i') (j + j') S S'" by fastforce
qed

lemmas quiet = never_fails_return never_fails_update never_fails_record never_fails_bind

lemma acts_then_record:
  assumes "acts E Q 1 0 m"
  shows "acts E Q 1 1 (pipe_bind m (\<lambda>x. record_query E Q (f x) (g x)))"
  using acts_bind_then [OF assms acts_record never_fails_record] by simp

lemma acts_send_message [acts_intros]: "acts E Q 1 0 (send_message E Q msg)"
  unfolding send_message_def
  by (rule acts_bind_first [OF acts_option])
    (use acts_bind_then [OF acts_send acts_return never_fails_return] in simp)

lemma acts_reply [acts_intros]: "acts E Q 1 1 (reply_and_record E Q msg result upstream)"
  unfolding reply_and_record_def by (rule acts_then_record [OF acts_send_message])

lemma acts_servfail [acts_intros]: "acts E Q 1 0 (send_servfail E Q)"
  unfolding send_servfail_def using acts_bind_then [OF acts_send_message acts_return never_fails_return] by simp

lemma acts_refused [acts_intros]: "acts E Q 1 0 (send_refused E Q)"
  unfolding send_refused_def using acts_bind_then [OF acts_send_message acts_return never_fails_return] by simp

lemma acts_negative [acts_intros]: "acts E Q 1 0 (send_negative E Q nx authority)"
  unfolding send_negative_def by (rule acts_send_message)

lemma acts_cache_store: "acts E Q 0 0 (cache_store E Q wire ttl lo hi)" "never_fails (cache_store E Q wire ttl lo hi)"
  by (auto simp: cache_store_def intro!: acts_update quiet)

lemma acts_cache_relayed: "acts E Q 0 0 (cache_relayed E Q wire ttl)" "never_fails (cache_relayed E Q wire ttl)"
  by (auto simp: cache_relayed_def acts_cache_store acts_return never_fails_return)

lemma acts_note: "acts E Q 0 0 (note_resolution Q answers ttl)" "never_fails (note_resolution Q answers ttl)"
  by (auto simp: note_resolution_def acts_return quiet intro!: acts_update split: bool.splits option.splits list.splits)

lemma acts_then_quiet:
  assumes "acts E Q 1 0 m" and "\<And>x. acts E Q 0 0 (q x)" and "\<And>x. never_fails (q x)"
    and "\<And>x y. acts E Q 0 1 (k x y)" and "\<And>x y. never_fails (k x y)"
  shows "acts E Q 1 1 (pipe_bind m (\<lambda>x. pipe_bind (q x) (k x)))"
  using acts_bind_then [OF assms(1) acts_bind_first [OF assms(2) assms(4)] never_fails_bind [OF assms(3) assms(5)]] by simp

lemma acts_send_resolved [acts_intros]: "acts E Q 1 1 (send_resolved E Q label answers)"
proof -
  have "acts E Q 1 1 (pipe_bind (send_message E Q msg) (\<lambda>wire.
      pipe_bind (if c then cache_store E Q wire ttl lo hi else pipe_return ()) (\<lambda>_.
      pipe_bind (note_resolution Q answers t) (\<lambda>_. record_query E Q (q_pass_result Q) label))))" for msg c ttl lo hi t
    by (rule acts_then_quiet [OF acts_send_message])
      (auto simp: acts_cache_store acts_return quiet acts_note
        intro!: acts_bind_first [OF acts_note(1) acts_record] never_fails_bind [OF acts_note(2) never_fails_record])
  then show ?thesis
    by (simp add: send_resolved_def Let_def acts_then_record [OF acts_negative])
qed

lemma acts_relay_negative [acts_intros]: "acts E Q 1 1 (relay_negative E Q label nx soa)"
proof -
  have "acts E Q 1 1 (pipe_bind (send_negative E Q nx auth) (\<lambda>wire.
      pipe_bind (if c then cache_store E Q wire ttl lo hi else pipe_return ()) (\<lambda>_. record_query E Q res label)))" for auth c ttl lo hi res
    by (rule acts_then_quiet [OF acts_negative]) (auto simp: acts_cache_store acts_return quiet acts_record)
  from this this [where c = False, simplified] show ?thesis by (auto simp: relay_negative_def Let_def split: option.splits)
qed

lemma acts_default [acts_intros]: "acts E Q 1 1 (forward_via_default_resolver E Q)"
  by (auto simp: forward_via_default_resolver_def acts_intros acts_then_record split: ladder_outcome.splits)

lemma acts_recursor [acts_intros]: "acts E Q 1 1 (handle_recursor_outcome E Q result)"
  by (auto simp: handle_recursor_outcome_def Let_def acts_intros acts_then_record split: option.splits recursor_outcome.splits)

lemma acts_send_then: "acts E Q 0 1 k \<Longrightarrow> never_fails k \<Longrightarrow> acts E Q 1 1 (pipe_bind (send_to E buf (q_src Q)) (\<lambda>_. k))"
  using acts_bind_then [OF acts_send, of E Q 0 1 "\<lambda>_. k" buf] by simp

lemma acts_tunnel [acts_intros]: "acts E Q 1 1 (forward_via_tunnel E Q forwarder)"
proof -
  have a: "acts E Q 0 1 (pipe_bind (cache_relayed E Q buf ttl) (\<lambda>_.
      pipe_bind (note_resolution Q answers ttl) (\<lambda>_. record_query E Q res label)))"
    "never_fails (pipe_bind (cache_relayed E Q buf ttl) (\<lambda>_.
      pipe_bind (note_resolution Q answers ttl) (\<lambda>_. record_query E Q res label)))" for buf ttl answers res label
    by (auto intro!: acts_bind_first acts_cache_relayed acts_note acts_record never_fails_bind never_fails_record)
  have "acts E Q 1 1 (pipe_bind (send_to E buf (q_src Q)) (\<lambda>_.
      (case h_from_bytes (e_hickory E) buf of
         None \<Rightarrow> record_query E Q res label
       | Some parsed \<Rightarrow>
           (let (is_negative, raw_ttl) = classify_response parsed in
            pipe_bind (cache_relayed E Q buf raw_ttl) (\<lambda>_.
            pipe_bind (note_resolution Q (dm_answers parsed) raw_ttl) (\<lambda>_.
            record_query E Q (relayed_result is_negative res) label))))))" for buf res label
    by (rule acts_send_then) (auto simp: acts_record never_fails_record a split: option.splits prod.splits)
  then show ?thesis by (auto simp: forward_via_tunnel_def acts_fail split: sum.splits)
qed

lemma acts_take_socket [acts_intros]: "acts E Q 0 0 (take_socket E)"
  by (auto simp: acts_def take_socket_def grew_none split: sum.splits)

lemma acts_return_socket: "acts E Q 0 0 (return_socket_to_pool s)" "never_fails (return_socket_to_pool s)"
  by (auto simp: return_socket_to_pool_def intro!: acts_update quiet)

lemma acts_conditional [acts_intros]: "acts E Q 1 1 (forward_via_conditional E Q upstream)"
proof -
  have a: "acts E Q 0 1 (pipe_bind (cache_relayed E Q buf ttl) (\<lambda>_. record_query E Q res label))"
    "never_fails (pipe_bind (cache_relayed E Q buf ttl) (\<lambda>_. record_query E Q res label))" for buf ttl res label
    by (auto intro!: acts_bind_first acts_cache_relayed acts_record never_fails_bind never_fails_record)
  have "acts E Q 1 1 (pipe_bind (send_to E buf (q_src Q)) (\<lambda>_. pipe_bind (return_socket_to_pool s) (\<lambda>_.
      (case parsed of
         None \<Rightarrow> record_query E Q res label
       | Some msg \<Rightarrow>
           (let (is_negative, raw_ttl) = classify_response msg in
            pipe_bind (cache_relayed E Q buf raw_ttl) (\<lambda>_. record_query E Q (relayed_result is_negative res) label))))))"
    for buf s parsed res label
    by (rule acts_then_quiet [OF acts_send acts_return_socket])
      (auto simp: acts_record never_fails_record a split: option.splits prod.splits)
  then show ?thesis
    unfolding forward_via_conditional_def
    by (auto intro!: acts_bind_first [OF acts_take_socket] simp: acts_fail split: sum.splits prod.splits)
qed

lemma acts_or_servfail:
  assumes "acts E Q 1 1 m"
  shows "acts E Q 1 1 (or_servfail E Q label m)"
proof (rule actsI)
  let ?k = "pipe_bind (send_servfail E Q) (\<lambda>_. record_query E Q ResUpstreamError label)"
  have k: "acts E Q 1 1 ?k" by (rule acts_then_record [OF acts_servfail])
  fix S e S' assume "or_servfail E Q label m S = (Inl e, S')"
  then obtain e1 T where "m S = (Inl e1, T)" "?k T = (Inl e, S')"
    by (auto simp: or_servfail_def split: prod.splits sum.splits)
  then show "grew E Q 0 0 S S'" using acts_Inl [OF assms] acts_Inl [OF k] by (auto simp: grew_none)
next
  let ?k = "pipe_bind (send_servfail E Q) (\<lambda>_. record_query E Q ResUpstreamError label)"
  have k: "acts E Q 1 1 ?k" by (rule acts_then_record [OF acts_servfail])
  fix S x S' assume o: "or_servfail E Q label m S = (Inr x, S')"
  show "grew E Q 1 1 S S'"
  proof (cases "m S")
    case (Pair r T)
    show ?thesis
    proof (cases r)
      case (Inl e)
      with o Pair have "?k T = (Inr x, S')" by (simp add: or_servfail_def)
      from grew_trans [OF acts_Inl [OF assms Pair [unfolded Inl]] acts_Inr [OF k this]] show ?thesis by simp
    next
      case (Inr y)
      with o Pair have "m S = (Inr y, S')" by (simp add: or_servfail_def)
      then show ?thesis by (rule acts_Inr [OF assms])
    qed
  qed
qed

text \<open>Steps that change other parts of the state before they go on.\<close>

lemma acts_after:
  assumes "acts E Q i j k" and "\<And>S. qs_sent (f S) = qs_sent S \<and> qs_log (f S) = qs_log S"
  shows "acts E Q i j (\<lambda>S. k (f S))"
proof -
  have "pipe_bind (pipe_update f) (\<lambda>_. k) = (\<lambda>S. k (f S))" by (simp add: fun_eq_iff pipe_bind_def pipe_update_def)
  with acts_bind_first [OF acts_update [of f, OF assms(2)] assms(1)] show ?thesis by simp
qed

lemma acts_state: "(\<And>S. acts E Q i j (f S)) \<Longrightarrow> acts E Q i j (\<lambda>S. f S S)"
  by (auto simp: acts_def)

lemma acts_forwarder [acts_intros]: "acts E Q 0 0 (get_or_build_tunnel_forwarder E t)"
  by (auto simp: acts_def get_or_build_tunnel_forwarder_def grew_none Let_def split: option.splits sum.splits list.splits)

lemma acts_case:
  fixes k :: "'b \<Rightarrow> ('u, 'c) pipe"
  assumes "acts E Q 0 0 m" and "\<And>e. acts E Q i j (h e)" and "\<And>x. acts E Q i j (k x)"
  shows "acts E Q i j (\<lambda>S. case m S of (Inl e, S') \<Rightarrow> h e S' | (Inr x, S') \<Rightarrow> k x S')"
  unfolding acts_def
proof
  fix S
  obtain r T where m: "m S = (r, T)" by fastforce
  with assms(1) have T: "qs_sent T = qs_sent S" "qs_log T = qs_log S"
    using acts_Inl [OF assms(1)] acts_Inr [OF assms(1)] by (cases r; fastforce simp: grew_none)+
  have same: "grew E Q i j T U \<longleftrightarrow> grew E Q i j S U" for i j U by (simp add: grew_def T)
  have "case n T of (Inl _, S') \<Rightarrow> grew E Q 0 0 S S' | (Inr _, S') \<Rightarrow> grew E Q i j S S'" if "acts E Q i j n" for n :: "('u, 'c) pipe"
    using that unfolding acts_def by (drule_tac x = T in spec) (auto simp: same split: prod.splits sum.splits)
  with assms(2,3) show "case case m S of (Inl e, S') \<Rightarrow> h e S' | (Inr x, S') \<Rightarrow> k x S' of
      (Inl _, S') \<Rightarrow> grew E Q 0 0 S S' | (Inr _, S') \<Rightarrow> grew E Q i j S S'"
    by (cases r) (simp_all add: m)
qed

lemma acts_forward_upstream [acts_intros]:
  assumes "dm_queries (q_request Q) \<noteq> []"
  shows "acts E Q 1 1 (forward_upstream E Q cond)"
proof -
  have rec: "acts E Q 1 1 (resolve_via_recursor E Q)"
    using assms by (auto simp: resolve_via_recursor_def acts_intros split: list.splits)
  have tun: "acts E Q 1 1 (\<lambda>S. case get_or_build_tunnel_forwarder E t S of
      (Inl e, S') \<Rightarrow> pipe_bind (send_servfail E Q) (\<lambda>_. record_query E Q ResUpstreamError None) S'
    | (Inr f, S') \<Rightarrow> or_servfail E Q (Some (LabelIp (sa_ip (tf_upstream f)))) (forward_via_tunnel E Q f) S')" for t
    by (rule acts_case [OF acts_forwarder]) (auto intro: acts_then_record acts_or_servfail acts_intros)
  show ?thesis
    unfolding forward_upstream_def
    using rec tun by (auto intro: acts_or_servfail acts_intros split: option.splits upstream_id.splits)
qed

lemma acts_other_pass: "acts E (Q\<lparr>q_pass_result := r, q_routing_profile := b\<rparr>) i j m \<longleftrightarrow> acts E Q i j m"
proof -
  have "row_about E (Q\<lparr>q_pass_result := r, q_routing_profile := b\<rparr>) = row_about E Q"
    by (simp add: fun_eq_iff row_about_def)
  then have "grew E (Q\<lparr>q_pass_result := r, q_routing_profile := b\<rparr>) = grew E Q" by (intro ext) (simp add: grew_def)
  then show ?thesis by (simp only: acts_def)
qed

lemma acts_filter_and_forward:
  fixes E :: "('u, 'm) query_env"
  assumes "dm_queries (q_request Q) \<noteq> []"
  shows "acts E Q 1 1 (filter_and_forward E client Q domain_lower)"
proof -
  let ?o = "filter_outcome E client domain_lower (q_rtype Q) (q_src Q)"
  let ?check = "\<lambda>S. if is_ip_client client then limiter_check (e_fl E) (e_hash E) (sa_ip (q_src Q)) (e_now_check E) (qs_limiter S)
                     else (True, qs_limiter S)"
  have up: "acts E Q 1 1 (forward_upstream E (Q\<lparr>q_pass_result := r, q_routing_profile := b\<rparr>) cond)" for r b cond
    using acts_forward_upstream [of "Q\<lparr>q_pass_result := r, q_routing_profile := b\<rparr>" E cond] assms
    by (simp add: acts_other_pass)
  have lim: "acts E Q 1 1 (\<lambda>S. k (fst (?check S)) (S\<lparr>qs_limiter := snd (?check S)\<rparr>))"
    if "\<And>b. acts E Q 1 1 (k b)" for k :: "bool \<Rightarrow> ('u, unit) pipe"
    using acts_state [where f = "\<lambda>T S. k (fst (?check T)) (S\<lparr>qs_limiter := snd (?check T)\<rparr>)", OF acts_after [OF that]] by simp
  let ?k = "\<lambda>allowed. if \<not> allowed then pipe_bind (send_refused E Q) (\<lambda>_. record_query E Q ResRateLimited None)
     else forward_upstream E (Q\<lparr>q_pass_result := (if co_would_have_blocked ?o then ResBlockedSkipped else ResForwarded),
            q_routing_profile := (is_ip_client client \<and> e_routing_profile E)\<rparr>) (conditional_upstream E domain_lower)"
  have k: "acts E Q 1 1 (?k b)" for b by (cases b) (simp_all add: acts_then_record [OF acts_refused] up)
  have rw: "acts E Q 1 1 (answer_rewrite E Q ip)" for ip
    unfolding answer_rewrite_def by (rule acts_bind_first [OF acts_option acts_reply])
  have run: "filter_and_forward E client Q domain_lower =
      (case co_action ?o of
         BlockQuery \<Rightarrow> reply_and_record E Q ((response_for Q)\<lparr>dm_code := NXDomain\<rparr>) ResBlocked None
       | RewriteTo ip \<Rightarrow> answer_rewrite E Q ip
       | Pass \<Rightarrow> (\<lambda>S. ?k (fst (?check S)) (S\<lparr>qs_limiter := snd (?check S)\<rparr>)))"
    by (auto simp: fun_eq_iff filter_and_forward_def Let_def split: filter_action.splits prod.splits)
  have pass: "acts E Q 1 1 (\<lambda>S. ?k (fst (?check S)) (S\<lparr>qs_limiter := snd (?check S)\<rparr>))" by (rule lim [of ?k, OF k])
  show ?thesis
    unfolding run
    by (cases "co_action ?o") (simp_all only: filter_action.case acts_reply rw pass)
qed


lemma acts_reverse: "acts E Q 1 1 (answer_reverse E Q ptr_ip zone)"
  by (auto simp: answer_reverse_def Let_def intro!: acts_bind_first [OF acts_option] acts_reply)

lemma acts_authoritative: "acts E Q 1 1 (answer_authoritative E Q domain_lower recs)"
  unfolding answer_authoritative_def Let_def by (rule acts_bind_first [OF acts_option acts_reply])

lemma acts_answer_negative: "acts E Q 1 1 (answer_negative E Q zone_soa name_exists)"
  unfolding answer_negative_def by (rule acts_reply)

lemma acts_cache_hit: "acts E Q 1 1 (pipe_bind (send_to E wire (q_src Q)) (\<lambda>_. record_query E Q ResCacheHit None))"
  by (rule acts_send_then [OF acts_record never_fails_record])

lemma acts_answer_query:
  fixes E :: "('u, 'm) query_env"
  assumes "dm_queries (q_request Q) \<noteq> []"
  shows "acts E Q 1 1 (answer_query E client Q)"
proof -
  let ?get = "\<lambda>S. cache_get (e_now_get E) (q_upstream_id Q) (q_domain Q) (q_rtype Q) (q_id Q) (qs_cache S)"
  let ?d = "to_ascii_lowercase (trim_end_matches (CHR ''.'') (q_domain Q))"
  let ?k = "\<lambda>cached. case cached of Some wire \<Rightarrow> pipe_bind (send_to E wire (q_src Q)) (\<lambda>_. record_query E Q ResCacheHit None)
    | None \<Rightarrow> filter_and_forward E client Q ?d"
  have k: "acts E Q 1 1 (?k c)" for c
    by (cases c) (simp_all only: option.case acts_cache_hit acts_filter_and_forward [OF assms])
  have get: "acts E Q 1 1 (\<lambda>S. ?k (fst (?get S)) (S\<lparr>qs_cache := snd (?get S)\<rparr>))"
    using acts_state [where f = "\<lambda>T S. ?k (fst (?get T)) (S\<lparr>qs_cache := snd (?get T)\<rparr>)", OF acts_after [OF k]] by simp
  have run: "answer_query E client Q =
      (case reverse_target E (q_rtype Q) ?d of
         Some (ptr_ip, zone) \<Rightarrow> answer_reverse E Q ptr_ip zone
       | None \<Rightarrow> (case auth_lookup E (q_rtype Q) ?d of
           Some recs \<Rightarrow> answer_authoritative E Q ?d recs
         | None \<Rightarrow> (case authoritative_negative E ?d of
             Some (zone_soa, name_exists) \<Rightarrow> answer_negative E Q zone_soa name_exists
           | None \<Rightarrow> (\<lambda>S. ?k (fst (?get S)) (S\<lparr>qs_cache := snd (?get S)\<rparr>)))))"
    by (intro ext) (simp add: answer_query_def Let_def split: option.splits prod.splits)
  show ?thesis
    unfolding run using get
    by (auto simp only: acts_reverse acts_authoritative acts_answer_negative split: option.splits prod.splits)
qed


declare One_nat_def [simp]

section \<open>Why a query can fail\<close>

text \<open>The failures that reach the caller of \<open>handle\<close>: none of them is an upstream's.\<close>

definition local_failure :: "('u, 'm) query_env \<Rightarrow> string \<Rightarrow> pipe_error \<Rightarrow> bool" where
  "local_failure E domain e =
     (case e of
        DecodeError \<Rightarrow> False
      | NameError \<Rightarrow> h_from_str_relaxed (e_hickory E) domain = None
      | EncodeError \<Rightarrow> (\<exists>msg. h_to_bytes (e_hickory E) msg = None)
      | SendError \<Rightarrow> (\<exists>n. \<not> e_send_ok E n)
      | UpstreamFailure _ \<Rightarrow> False)"

definition fails_locally :: "('u, 'm) query_env \<Rightarrow> string \<Rightarrow> ('u, 'a) pipe \<Rightarrow> bool" where
  "fails_locally E domain m \<longleftrightarrow> (\<forall>S e S'. m S = (Inl e, S') \<longrightarrow> local_failure E domain e)"

named_theorems fails_intros

lemma failsD: "m S = (Inl e, S') \<Longrightarrow> fails_locally E d m \<Longrightarrow> local_failure E d e"
  by (auto simp: fails_locally_def)

lemma fails_never: "never_fails m \<Longrightarrow> fails_locally E d m"
  by (auto simp: fails_locally_def never_fails_def) (metis fst_conv)

lemma fails_bind [fails_intros]:
  "fails_locally E d m \<Longrightarrow> (\<And>x. fails_locally E d (k x)) \<Longrightarrow> fails_locally E d (pipe_bind m k)"
  by (subst fails_locally_def, intro allI impI, erule pipe_bind_cases) (auto dest: failsD)

lemmas fails_quiet [fails_intros] =
  fails_never [OF never_fails_return] fails_never [OF never_fails_update] fails_never [OF never_fails_record]
  fails_never [OF acts_cache_store(2)] fails_never [OF acts_cache_relayed(2)] fails_never [OF acts_note(2)]
  fails_never [OF acts_return_socket(2)]

lemma fails_name [fails_intros]: "fails_locally E d (pipe_option NameError (h_from_str_relaxed (e_hickory E) d))"
  by (auto simp: fails_locally_def pipe_option_def pipe_return_def pipe_fail_def local_failure_def split: option.splits)

lemma fails_encode [fails_intros]: "fails_locally E d (pipe_option EncodeError (h_to_bytes (e_hickory E) msg))"
  by (auto simp: fails_locally_def pipe_option_def pipe_return_def pipe_fail_def local_failure_def split: option.splits)

lemma fails_send [fails_intros]: "fails_locally E d (send_to E wire dst)"
  by (auto simp: fails_locally_def send_to_def local_failure_def split: if_splits)

lemma fails_replies [fails_intros]:
  "fails_locally E d (send_message E Q msg)" "fails_locally E d (send_servfail E Q)" "fails_locally E d (send_refused E Q)"
  "fails_locally E d (send_negative E Q nx authority)" "fails_locally E d (reply_and_record E Q msg result upstream)"
  unfolding send_message_def send_servfail_def send_refused_def send_negative_def reply_and_record_def
  by (intro fails_intros)+

lemma fails_or_servfail [fails_intros]: "fails_locally E d (or_servfail E Q label m)"
proof -
  have "fails_locally E d (pipe_bind (send_servfail E Q) (\<lambda>_. record_query E Q ResUpstreamError label))" by (intro fails_intros)
  then show ?thesis by (auto simp: fails_locally_def or_servfail_def split: prod.splits sum.splits)
qed

lemma fails_send_resolved [fails_intros]: "fails_locally E d (send_resolved E Q label answers)"
  by (auto simp: send_resolved_def Let_def intro!: fails_intros)

lemma fails_relay_negative [fails_intros]: "fails_locally E d (relay_negative E Q label nx soa)"
  by (auto simp: relay_negative_def Let_def intro!: fails_intros split: option.splits)

lemma fails_default [fails_intros]: "fails_locally E d (forward_via_default_resolver E Q)"
  by (auto simp: forward_via_default_resolver_def intro!: fails_intros split: ladder_outcome.splits)

lemma fails_recursor [fails_intros]: "fails_locally E d (resolve_via_recursor E Q)"
  by (auto simp: resolve_via_recursor_def handle_recursor_outcome_def Let_def intro!: fails_intros
    split: list.splits option.splits recursor_outcome.splits)

lemma fails_forward_upstream [fails_intros]: "fails_locally E d (forward_upstream E Q cond)"
proof -
  have "fails_locally E d (\<lambda>S. case get_or_build_tunnel_forwarder E t S of
      (Inl e, S') \<Rightarrow> pipe_bind (send_servfail E Q) (\<lambda>_. record_query E Q ResUpstreamError None) S'
    | (Inr f, S') \<Rightarrow> or_servfail E Q (Some (LabelIp (sa_ip (tf_upstream f)))) (forward_via_tunnel E Q f) S')" for t
    by (subst fails_locally_def) (auto intro: failsD fails_intros split: prod.splits sum.splits)
  then show ?thesis
    by (auto simp: forward_upstream_def intro!: fails_intros split: option.splits upstream_id.splits)
qed

lemma fails_filter_and_forward:
  "fails_locally E (q_domain Q) (filter_and_forward E client Q domain_lower)"
proof -
  have rw: "fails_locally E (q_domain Q) (answer_rewrite E Q ip)" for ip
    unfolding answer_rewrite_def by (intro fails_intros)
  have rl: "fails_locally E (q_domain Q) (pipe_bind (send_refused E Q) (\<lambda>_. record_query E Q ResRateLimited None))"
    by (intro fails_intros)
  show ?thesis
    by (subst fails_locally_def, intro allI impI)
      (auto simp: filter_and_forward_def Let_def intro: failsD rw rl fails_intros split: filter_action.splits prod.splits if_splits)
qed

lemma fails_answer_query: "fails_locally E (q_domain Q) (answer_query E client Q)"
proof -
  have l: "fails_locally E (q_domain Q) (answer_reverse E Q ptr_ip zone)"
    "fails_locally E (q_domain Q) (answer_authoritative E Q dl recs)"
    "fails_locally E (q_domain Q) (answer_negative E Q zone_soa name_exists)"
    "fails_locally E (q_domain Q) (pipe_bind (send_to E wire (q_src Q)) (\<lambda>_. record_query E Q ResCacheHit None))"
    for ptr_ip zone dl recs zone_soa name_exists wire
    by (auto simp: answer_reverse_def answer_authoritative_def answer_negative_def Let_def intro!: fails_intros)
  show ?thesis
    by (subst fails_locally_def, intro allI impI)
      (auto simp: answer_query_def Let_def intro: failsD l fails_filter_and_forward split: option.splits prod.splits)
qed

section \<open>One query, one reply\<close>

text \<open>A client and an upstream world to run the theorems in.\<close>

definition demo_names :: "string hickory" where
  "demo_names = ex_names\<lparr>h_from_bytes := (\<lambda>b. case b of
     [] \<Rightarrow> None
   | i # _ \<Rightarrow> Some \<lparr>dm_id = unat i, dm_code = NoError, dm_authoritative = False, dm_recursion_desired = True,
       dm_recursion_available = False, dm_queries = [(''a.com'', RT_A)], dm_answers = [], dm_authorities = [],
       dm_additionals = []\<rparr>)\<rparr>"

definition demo_env :: "(nat, string) query_env" where
  "demo_env = \<lparr>e_hickory = demo_names, e_name_eq = (=), e_config = ex_config, e_serving = [], e_lookup = (\<lambda>_ _ _. None),
     e_recursor = None, e_view = view_empty, e_filter_check = (\<lambda>_ _ _. \<lparr>co_action = Pass, co_would_have_blocked = False\<rparr>),
     e_filter_check_for_device = (\<lambda>_ _ _ _. \<lparr>co_action = Pass, co_would_have_blocked = False\<rparr>), e_routing_profile = False,
     e_log_sink = True, e_routing_snapshot = Map.empty, e_device_routing_snapshot = Map.empty, e_device_snapshot = Map.empty,
     e_find_tunnel = (\<lambda>_. Inr None), e_find_tunnel_config = (\<lambda>_. Inr None), e_tunnel_exchange = (\<lambda>_ _ _. Inr None),
     e_bind = Inr (), e_conditional = (\<lambda>_ _. Inr []), e_recv_timeout = 5000, e_send_ok = (\<lambda>_. True), e_fl = id,
     e_hash = (\<lambda>_. 0), e_now_get = 0, e_now_check = 0, e_now_insert = 0, e_timestamp = 0, e_latency_us = 0\<rparr>"

definition demo_state :: "nat query_state" where
  "demo_state = \<lparr>qs_cache = cache_new 10, qs_limiter = limiter_new 0, qs_forwarders = Map.empty, qs_sockets = [], qs_sent = [],
     qs_attempts = 0, qs_log = [], qs_notes = []\<rparr>"

definition demo_src :: socket_addr where
  "demo_src = \<lparr>sa_ip = V4 (ipv4_new 10 0 0 5), sa_scope = 0, sa_port = 5353\<rparr>"

lemma demo_decodes: "h_from_bytes (e_hickory demo_env) [7] =
    Some \<lparr>dm_id = 7, dm_code = NoError, dm_authoritative = False, dm_recursion_desired = True, dm_recursion_available = False,
      dm_queries = [(''a.com'', RT_A)], dm_answers = [], dm_authorities = [], dm_additionals = []\<rparr>"
  by (simp add: demo_env_def demo_names_def)

lemma demo_works:
  "h_from_str_relaxed (e_hickory demo_env) s \<noteq> None" "h_to_bytes (e_hickory demo_env) msg \<noteq> None" "e_send_ok demo_env n"
  by (simp_all add: demo_env_def demo_names_def ex_names_def)

lemma demo_views:
  "match_forwarding_rule view_empty d = None" "authoritative_zone view_empty d = None"
  "view_lookup view_empty d t = None" "lookup_all view_empty d = None"
  by (simp_all add: view_empty_def match_forwarding_rule_def authoritative_zone_def view_lookup_def lookup_all_def match_wildcard_def lookup_empty)

lemma handle_question:
  assumes "h_from_bytes (e_hickory E) packet = Some request" and "dm_queries request = (name, rtype) # others"
  obtains Q where "handle E packet src client protocol = answer_query E client Q" "dm_queries (q_request Q) \<noteq> []"
    "q_src Q = src" "q_domain Q = h_to_string (e_hickory E) name" "q_rtype Q = rtype"
    "q_attribution Q = \<lparr>at_device_id = device_of E client, at_protocol = protocol\<rparr>"
    "q_upstream_id Q = select_upstream E client src" "q_request Q = request" "q_packet Q = packet"
  by (rule that [of "\<lparr>q_packet = packet, q_request = request, q_domain = h_to_string (e_hickory E) name, q_rtype = rtype,
                  q_src = src, q_attribution = \<lparr>at_device_id = device_of E client, at_protocol = protocol\<rparr>,
                  q_upstream_id = select_upstream E client src, q_routing_profile = False, q_pass_result = ResForwarded\<rparr>"])
    (simp_all add: fun_eq_iff handle_def assms)

lemma grew_one:
  assumes "grew E Q 1 1 S S'"
  obtains wire rows where "qs_sent S' = qs_sent S @ [(wire, q_src Q)]" "qs_log S' = qs_log S @ rows"
    "length rows = (if e_log_sink E then 1 else 0)" "\<forall>row \<in> set rows. row_about E Q row"
proof -
  from assms obtain ws rows where w: "length ws = 1" "qs_sent S' = qs_sent S @ map (\<lambda>w. (w, q_src Q)) ws"
    "length rows = (if e_log_sink E then 1 else 0)" "qs_log S' = qs_log S @ rows" "list_all (row_about E Q) rows"
    unfolding grew_def by blast
  from w(1) obtain wire where "ws = [wire]" by (auto simp: length_Suc_conv)
  with w that [of wire rows] show ?thesis by (simp add: list_all_iff)
qed

text \<open>
  C2: one reply and one log row per question. A query that decodes and has a question, handled to
  the end, has sent exactly one reply, to its sender, and has logged exactly one row (none when the
  log is off) that names the client, the asked name and type, the attributed device and the
  transport, with a result the log reader knows; a query that ends in an error has sent and logged
  nothing. So no stage falls through into a second answer, and the log neither misses nor doubles a query.
\<close>

theorem one_reply_per_query:
  assumes "h_from_bytes (e_hickory E) packet = Some request" and "dm_queries request = (name, rtype) # others"
    and "handle E packet src client protocol S = (r, S')"
  shows "case r of
      Inl _ \<Rightarrow> qs_sent S' = qs_sent S \<and> qs_log S' = qs_log S
    | Inr _ \<Rightarrow>
        \<exists>wire rows. qs_sent S' = qs_sent S @ [(wire, src)] \<and> qs_log S' = qs_log S @ rows \<and>
          length rows = (if e_log_sink E then 1 else 0) \<and>
          (\<forall>row \<in> set rows. ql_client_ip row = sa_ip src \<and>
             ql_domain row = trim_end_matches (CHR ''.'') (h_to_string (e_hickory E) name) \<and> ql_query_type row = rtype \<and>
             ql_device_id row = device_of E client \<and> ql_protocol row = protocol_as_str protocol \<and>
             (\<exists>res. result_from_db_str (ql_result row) = Some res))"
proof -
  obtain Q where Q: "handle E packet src client protocol = answer_query E client Q" "dm_queries (q_request Q) \<noteq> []"
    "q_src Q = src" "q_domain Q = h_to_string (e_hickory E) name" "q_rtype Q = rtype"
    "q_attribution Q = \<lparr>at_device_id = device_of E client, at_protocol = protocol\<rparr>"
    by (rule handle_question [OF assms(1,2)])
  note acts = acts_answer_query [OF Q(2), of E client]
  show ?thesis
  proof (cases r)
    case (Inl e)
    with acts_Inl [OF acts] assms(3) Q(1) show ?thesis by (simp add: grew_none)
  next
    case (Inr x)
    with acts_Inr [OF acts] assms(3) Q(1) have "grew E Q 1 1 S S'" by simp
    then show ?thesis by (rule grew_one) (auto simp: Inr Q row_about_def)
  qed
qed

lemma handle_succeeds:
  assumes "h_from_bytes (e_hickory E) packet = Some request" and "dm_queries request = (name, rtype) # others"
    and "h_from_str_relaxed (e_hickory E) (h_to_string (e_hickory E) name) \<noteq> None"
    and "\<And>msg. h_to_bytes (e_hickory E) msg \<noteq> None" and "\<And>n. e_send_ok E n"
  obtains S' where "handle E packet src client protocol S = (Inr (), S')"
proof -
  obtain Q where Q: "handle E packet src client protocol = answer_query E client Q" "q_domain Q = h_to_string (e_hickory E) name"
    by (rule handle_question [OF assms(1,2)])
  obtain r S' where run: "answer_query E client Q S = (r, S')" by fastforce
  have "r \<noteq> Inl e" for e
  proof
    assume "r = Inl e"
    with failsD [OF _ fails_answer_query, of E client Q S e S'] run have "local_failure E (q_domain Q) e" by simp
    with assms(3) Q(2) show False by (cases e) (simp_all add: local_failure_def assms(4,5))
  qed
  then have "r = Inr ()" by (cases r) auto
  with that run Q(1) show ?thesis by simp
qed


theorem one_reply_per_query_witness:
  "\<exists>wire. qs_sent (snd (handle demo_env [7] demo_src (ClientIp (sa_ip demo_src)) UdpTransport demo_state)) = [(wire, demo_src)] \<and>
     length (qs_log (snd (handle demo_env [7] demo_src (ClientIp (sa_ip demo_src)) UdpTransport demo_state))) = 1"
proof -
  obtain S' where run: "handle demo_env [7] demo_src (ClientIp (sa_ip demo_src)) UdpTransport demo_state = (Inr (), S')"
    by (rule handle_succeeds [OF demo_decodes _ demo_works]) simp
  from one_reply_per_query [OF demo_decodes _ run] run show ?thesis
    by (auto simp: demo_state_def) (simp_all add: demo_env_def)
qed



section \<open>Where a query may go\<close>

text \<open>
  Two worlds with the same gateway: the same message library, local view, snapshots, clocks and
  client sockets. They may differ in everything outside.
\<close>

definition same_gateway :: "('u, 'm) query_env \<Rightarrow> ('u, 'm) query_env \<Rightarrow> bool" where
  "same_gateway E E' \<longleftrightarrow>
     e_hickory E' = e_hickory E \<and> e_view E' = e_view E \<and> e_log_sink E' = e_log_sink E \<and> e_send_ok E' = e_send_ok E \<and>
     e_routing_snapshot E' = e_routing_snapshot E \<and> e_device_routing_snapshot E' = e_device_routing_snapshot E \<and>
     e_device_snapshot E' = e_device_snapshot E \<and> e_now_get E' = e_now_get E \<and> e_timestamp E' = e_timestamp E \<and>
     e_latency_us E' = e_latency_us E"

text \<open>The same settings, filter and limiter besides.\<close>

definition same_policy :: "('u, 'm) query_env \<Rightarrow> ('u, 'm) query_env \<Rightarrow> bool" where
  "same_policy E E' \<longleftrightarrow>
     e_config E' = e_config E \<and> e_filter_check E' = e_filter_check E \<and> e_filter_check_for_device E' = e_filter_check_for_device E \<and>
     e_routing_profile E' = e_routing_profile E \<and> e_fl E' = e_fl E \<and> e_hash E' = e_hash E \<and> e_now_check E' = e_now_check E \<and>
     e_now_insert E' = e_now_insert E \<and> e_find_tunnel E' = e_find_tunnel E \<and> e_find_tunnel_config E' = e_find_tunnel_config E"

named_theorems gateway_only

lemma gateway_fields [gateway_only]:
  assumes "same_gateway E E'"
  shows "e_hickory E' = e_hickory E" "e_view E' = e_view E" "e_log_sink E' = e_log_sink E" "e_send_ok E' = e_send_ok E"
    "e_routing_snapshot E' = e_routing_snapshot E" "e_device_routing_snapshot E' = e_device_routing_snapshot E"
    "e_device_snapshot E' = e_device_snapshot E" "e_now_get E' = e_now_get E" "e_timestamp E' = e_timestamp E"
    "e_latency_us E' = e_latency_us E"
  using assms by (simp_all add: same_gateway_def)

lemma gateway_steps [gateway_only]:
  assumes "same_gateway E E'"
  shows "send_to E' = send_to E" "send_message E' = send_message E" "record_query E' = record_query E"
    "reply_and_record E' = reply_and_record E" "send_servfail E' = send_servfail E" "send_refused E' = send_refused E"
proof -
  note e = gateway_fields [OF assms]
  show a: "send_to E' = send_to E" by (intro ext) (simp only: send_to_def e)
  show b: "send_message E' = send_message E" by (intro ext) (simp only: send_message_def e a)
  show c: "record_query E' = record_query E" by (intro ext) (simp only: record_query_def e)
  show "reply_and_record E' = reply_and_record E" by (intro ext) (simp only: reply_and_record_def b c)
  show "send_servfail E' = send_servfail E" "send_refused E' = send_refused E"
    by (intro ext, simp only: send_servfail_def send_refused_def b)+
qed

lemma gateway_lookups [gateway_only]:
  assumes "same_gateway E E'"
  shows "reverse_target E' = reverse_target E" "auth_lookup E' = auth_lookup E" "conditional_upstream E' = conditional_upstream E"
    "authoritative_negative E' = authoritative_negative E" "device_of E' = device_of E" "select_upstream E' = select_upstream E"
proof -
  note e = gateway_fields [OF assms]
  have l: "local_lookup E' = local_lookup E" by (intro ext) (simp only: local_lookup_def e)
  show c: "conditional_upstream E' = conditional_upstream E" by (intro ext) (simp only: conditional_upstream_def e)
  show "reverse_target E' = reverse_target E" "auth_lookup E' = auth_lookup E" "authoritative_negative E' = authoritative_negative E"
    "device_of E' = device_of E" "select_upstream E' = select_upstream E"
    by (intro ext, simp only: reverse_target_def auth_lookup_def authoritative_negative_def device_of_def select_upstream_def e l c)+
qed

lemma gateway_answers [gateway_only]:
  assumes "same_gateway E E'"
  shows "answer_reverse E' = answer_reverse E" "answer_authoritative E' = answer_authoritative E" "answer_negative E' = answer_negative E"
proof -
  note e = gateway_fields [OF assms] gateway_steps [OF assms]
  have "cname_records E' = cname_records E" by (intro ext) (simp only: cname_records_def e)
  then show "answer_authoritative E' = answer_authoritative E" by (intro ext) (simp only: answer_authoritative_def e)
  show "answer_reverse E' = answer_reverse E" "answer_negative E' = answer_negative E"
    by (intro ext, simp only: answer_reverse_def answer_negative_def e)+
qed

text \<open>Steps that touch only what goes to the client and the log.\<close>

definition same_rest :: "'u query_state \<Rightarrow> 'u query_state \<Rightarrow> bool" where
  "same_rest S S' \<longleftrightarrow>
     qs_cache S' = qs_cache S \<and> qs_limiter S' = qs_limiter S \<and> qs_forwarders S' = qs_forwarders S \<and>
     qs_sockets S' = qs_sockets S \<and> qs_notes S' = qs_notes S"

definition keeps_rest :: "('u, 'a) pipe \<Rightarrow> bool" where
  "keeps_rest m \<longleftrightarrow> (\<forall>S r S'. m S = (r, S') \<longrightarrow> same_rest S S')"

lemma keeps_rest_steps:
  "keeps_rest (pipe_return x)" "keeps_rest (pipe_option e y)" "keeps_rest (send_to E wire dst)" "keeps_rest (record_query E Q result upstream)"
  by (auto simp: keeps_rest_def same_rest_def pipe_return_def pipe_option_def pipe_fail_def send_to_def record_query_def pipe_update_def
    split: option.splits if_splits)

lemma same_rest_trans: "same_rest S T \<Longrightarrow> same_rest T S' \<Longrightarrow> same_rest S S'"
  by (simp add: same_rest_def)

lemma keeps_rest_bind:
  assumes "keeps_rest m" and "\<And>x. keeps_rest (k x)"
  shows "keeps_rest (pipe_bind m k)"
  unfolding keeps_rest_def
proof (intro allI impI)
  fix S r S' assume "pipe_bind m k S = (r, S')"
  then show "same_rest S S'" using assms unfolding keeps_rest_def by (cases rule: pipe_bind_cases) (blast intro: same_rest_trans)+
qed

lemma keeps_rest_reply: "keeps_rest (send_message E Q msg)" "keeps_rest (reply_and_record E Q msg result upstream)"
  unfolding reply_and_record_def send_message_def by (intro keeps_rest_bind keeps_rest_steps)+

lemma keeps_rest_answers:
  "keeps_rest (answer_reverse E Q ptr_ip zone)" "keeps_rest (answer_authoritative E Q d recs)" "keeps_rest (answer_negative E Q soa nx)"
  unfolding answer_reverse_def answer_authoritative_def answer_negative_def Let_def
  by (auto intro!: keeps_rest_bind keeps_rest_steps keeps_rest_reply)


definition lower_name :: "'m hickory \<Rightarrow> 'm \<Rightarrow> string" where
  "lower_name H name = to_ascii_lowercase (trim_end_matches (CHR ''.'') (h_to_string H name))"

definition answered_locally :: "('u, 'm) query_env \<Rightarrow> record_type \<Rightarrow> string \<Rightarrow> bool" where
  "answered_locally E rtype d \<longleftrightarrow>
     reverse_target E rtype d \<noteq> None \<or> auth_lookup E rtype d \<noteq> None \<or> authoritative_negative E d \<noteq> None"

lemma keepsD: "m S = (r, S') \<Longrightarrow> keeps_rest m \<Longrightarrow> same_rest S S'"
  by (simp add: keeps_rest_def)

lemma local_run_keeps:
  assumes "answered_locally E (q_rtype Q) (to_ascii_lowercase (trim_end_matches (CHR ''.'') (q_domain Q)))"
  shows "keeps_rest (answer_query E client Q)"
  using assms
  by (subst keeps_rest_def)
    (auto simp: answered_locally_def answer_query_def Let_def intro: keepsD keeps_rest_answers split: option.splits prod.splits)

lemma local_run_same:
  assumes "answered_locally E (q_rtype Q) (to_ascii_lowercase (trim_end_matches (CHR ''.'') (q_domain Q)))" and "same_gateway E E'"
  shows "answer_query E' client Q = answer_query E client Q"
  using assms(1)
  by (intro ext) (auto simp: answered_locally_def answer_query_def Let_def gateway_only [OF assms(2)] split: option.splits prod.splits)

lemma handle_same_gateway:
  assumes "h_from_bytes (e_hickory E) packet = Some request" and "dm_queries request = (name, rtype) # others" and "same_gateway E E'"
  obtains Q where "handle E packet src client protocol = answer_query E client Q" "handle E' packet src client protocol = answer_query E' client Q"
    "q_rtype Q = rtype" "q_domain Q = h_to_string (e_hickory E) name" "q_upstream_id Q = select_upstream E client src"
    "q_packet Q = packet"
  by (rule that [of "\<lparr>q_packet = packet, q_request = request, q_domain = h_to_string (e_hickory E) name, q_rtype = rtype,
                  q_src = src, q_attribution = \<lparr>at_device_id = device_of E client, at_protocol = protocol\<rparr>,
                  q_upstream_id = select_upstream E client src, q_routing_profile = False, q_pass_result = ResForwarded\<rparr>"])
    (simp_all add: fun_eq_iff handle_def assms(1,2) gateway_only [OF assms(3)])

text \<open>
  C6: local names never leave the house. A question for the reverse name of a private address, for a
  local record or for a name under a local zone (and not claimed by a forwarding rule) gets an answer
  that depends on nothing outside the gateway, not even on the filter: in any two worlds with the same
  gateway the whole run is the same, and it leaves the cache, the rate limiter, the tunnels, the
  sockets and the routing hook untouched, so it costs the client no rate-limit token.
\<close>

theorem local_names_stay_local:
  assumes "h_from_bytes (e_hickory E) packet = Some request" and "dm_queries request = (name, rtype) # others"
    and "answered_locally E rtype (lower_name (e_hickory E) name)" and "same_gateway E E'"
    and "handle E packet src client protocol S = (r, S')"
  shows "handle E' packet src client protocol S = (r, S') \<and> same_rest S S'"
proof -
  obtain Q where Q: "handle E packet src client protocol = answer_query E client Q" "handle E' packet src client protocol = answer_query E' client Q"
    "q_rtype Q = rtype" "q_domain Q = h_to_string (e_hickory E) name"
    by (rule handle_same_gateway [OF assms(1,2,4)])
  then have loc: "answered_locally E (q_rtype Q) (to_ascii_lowercase (trim_end_matches (CHR ''.'') (q_domain Q)))"
    using assms(3) by (simp add: lower_name_def)
  with local_run_same [OF loc assms(4)] keepsD [OF _ local_run_keeps [OF loc]] assms(5) Q(1,2) show ?thesis by simp
qed

text \<open>Runs that read nothing but the gateway, its settings and one tunnel.\<close>

lemma policy_fields:
  assumes "same_policy E E'"
  shows "e_config E' = e_config E" "e_filter_check E' = e_filter_check E" "e_filter_check_for_device E' = e_filter_check_for_device E"
    "e_routing_profile E' = e_routing_profile E" "e_fl E' = e_fl E" "e_hash E' = e_hash E" "e_now_check E' = e_now_check E"
    "e_now_insert E' = e_now_insert E" "e_find_tunnel E' = e_find_tunnel E" "e_find_tunnel_config E' = e_find_tunnel_config E"
  using assms by (simp_all add: same_policy_def)

lemma tunnel_steps:
  assumes "same_gateway E E'" and "same_policy E E'"
  shows "cache_relayed E' = cache_relayed E" "get_or_build_tunnel_forwarder E' = get_or_build_tunnel_forwarder E"
    "filter_outcome E' = filter_outcome E" "answer_rewrite E' = answer_rewrite E"
proof -
  note e = gateway_only [OF assms(1)] policy_fields [OF assms(2)]
  have "cache_store E' = cache_store E" by (intro ext) (simp only: cache_store_def e)
  then show "cache_relayed E' = cache_relayed E" by (intro ext) (simp only: cache_relayed_def e)
  show "get_or_build_tunnel_forwarder E' = get_or_build_tunnel_forwarder E"
    "filter_outcome E' = filter_outcome E" "answer_rewrite E' = answer_rewrite E"
    by (intro ext, simp only: get_or_build_tunnel_forwarder_def filter_outcome_def answer_rewrite_def e)+
qed

lemma forward_via_tunnel_same:
  assumes "same_gateway E E'" and "same_policy E E'"
    and "e_tunnel_exchange E' (tf_interface_name f) (tf_upstream f) (q_packet Q) =
      e_tunnel_exchange E (tf_interface_name f) (tf_upstream f) (q_packet Q)"
  shows "or_servfail E' Q label (forward_via_tunnel E' Q f) = or_servfail E Q label (forward_via_tunnel E Q f)"
proof -
  note e = gateway_only [OF assms(1)] policy_fields [OF assms(2)] tunnel_steps [OF assms(1,2)]
  have "tunnel_datagram E' f (q_packet Q) = tunnel_datagram E f (q_packet Q)" by (simp only: tunnel_datagram_def assms(3))
  then show ?thesis by (intro ext) (simp only: or_servfail_def forward_via_tunnel_def e)
qed

lemma forward_upstream_tunnel_same:
  assumes "same_gateway E E'" and "same_policy E E'" and "q_upstream_id Q = TunnelUpstream t"
    and "\<And>f S'. get_or_build_tunnel_forwarder E t S = (Inr f, S') \<Longrightarrow>
      e_tunnel_exchange E' (tf_interface_name f) (tf_upstream f) (q_packet Q) =
        e_tunnel_exchange E (tf_interface_name f) (tf_upstream f) (q_packet Q)"
  shows "forward_upstream E' Q None S = forward_upstream E Q None S"
proof -
  note e = gateway_only [OF assms(1)] tunnel_steps [OF assms(1,2)]
  obtain r T where g: "get_or_build_tunnel_forwarder E t S = (r, T)" by fastforce
  show ?thesis
  proof (cases r)
    case (Inl x)
    with g show ?thesis by (simp add: forward_upstream_def assms(3) e)
  next
    case (Inr f)
    with g forward_via_tunnel_same [OF assms(1,2) assms(4)] show ?thesis by (simp add: forward_upstream_def assms(3) e)
  qed
qed

lemma forwarder_reads:
  "get_or_build_tunnel_forwarder E t (S\<lparr>qs_cache := c, qs_limiter := l\<rparr>) = (Inr f, T) \<Longrightarrow>
     \<exists>S'. get_or_build_tunnel_forwarder E t S = (Inr f, S')"
  by (auto simp: get_or_build_tunnel_forwarder_def Let_def split: option.splits sum.splits list.splits)

lemma answer_query_tunnel_same:
  assumes "same_gateway E E'" and "same_policy E E'" and "q_upstream_id Q = TunnelUpstream t"
    and "conditional_upstream E (to_ascii_lowercase (trim_end_matches (CHR ''.'') (q_domain Q))) = None"
    and "\<And>f S'. get_or_build_tunnel_forwarder E t S = (Inr f, S') \<Longrightarrow>
      e_tunnel_exchange E' (tf_interface_name f) (tf_upstream f) (q_packet Q) =
        e_tunnel_exchange E (tf_interface_name f) (tf_upstream f) (q_packet Q)"
  shows "answer_query E' client Q S = answer_query E client Q S"
proof -
  note e = gateway_only [OF assms(1)] policy_fields [OF assms(2)] tunnel_steps [OF assms(1,2)]
  have up: "forward_upstream E' (Q\<lparr>q_pass_result := p, q_routing_profile := b\<rparr>) None (S\<lparr>qs_cache := c, qs_limiter := l\<rparr>) =
      forward_upstream E (Q\<lparr>q_pass_result := p, q_routing_profile := b\<rparr>) None (S\<lparr>qs_cache := c, qs_limiter := l\<rparr>)" for p b c l
    by (rule forward_upstream_tunnel_same [OF assms(1,2)]) (use assms(3,5) in \<open>auto dest!: forwarder_reads\<close>)
  have "filter_and_forward E' client Q (to_ascii_lowercase (trim_end_matches (CHR ''.'') (q_domain Q))) (S\<lparr>qs_cache := c\<rparr>) =
      filter_and_forward E client Q (to_ascii_lowercase (trim_end_matches (CHR ''.'') (q_domain Q))) (S\<lparr>qs_cache := c\<rparr>)" for c
    by (simp only: filter_and_forward_def e assms(4) Let_def query_state.simps) (simp add: up split: filter_action.splits prod.splits)
  then show ?thesis by (simp only: answer_query_def e Let_def)
qed

text \<open>
  C4: a device bound to a tunnel never resolves outside it. When the client's upstream is a tunnel and
  no forwarding rule claims the name, the run depends only on the gateway, its settings and what
  that tunnel's own interface and DNS server answer: the default pool, the recursor, the rules'
  servers and every other tunnel can behave in any way without changing it. In particular a dead
  or missing tunnel ends in a reply, not in a query to the default upstream.
\<close>

theorem tunnel_queries_stay_in_tunnel:
  assumes "h_from_bytes (e_hickory E) packet = Some request" and "dm_queries request = (name, rtype) # others"
    and "select_upstream E client src = TunnelUpstream t" and "conditional_upstream E (lower_name (e_hickory E) name) = None"
    and "same_gateway E E'" and "same_policy E E'"
    and "\<And>f S'. get_or_build_tunnel_forwarder E t S = (Inr f, S') \<Longrightarrow>
      e_tunnel_exchange E' (tf_interface_name f) (tf_upstream f) packet = e_tunnel_exchange E (tf_interface_name f) (tf_upstream f) packet"
  shows "handle E' packet src client protocol S = handle E packet src client protocol S"
proof -
  obtain Q where Q: "handle E packet src client protocol = answer_query E client Q" "handle E' packet src client protocol = answer_query E' client Q"
    "q_domain Q = h_to_string (e_hickory E) name" "q_upstream_id Q = select_upstream E client src" "q_packet Q = packet"
    by (rule handle_same_gateway [OF assms(1,2,5)])
  show ?thesis
    unfolding Q(1,2)
    by (rule answer_query_tunnel_same [OF assms(5,6)]) (use assms(3,4,7) in \<open>simp_all add: Q(3-5) lower_name_def\<close>)
qed


lemma demo_lower: "to_ascii_lowercase (trim_end_matches (CHR ''.'') ''a.com'') = ''a.com''"
  by code_simp

definition demo_zoned :: "(nat, string) query_env" where
  "demo_zoned = demo_env\<lparr>e_view := view_empty\<lparr>av_zone_authorities := [\<lparr>za_name = ''com'', za_serial = 1, za_soa = None\<rparr>]\<rparr>\<rparr>"

theorem local_names_stay_local_witness:
  "handle (demo_zoned\<lparr>e_lookup := (\<lambda>_ _ _. Some (1, Resolved []))\<rparr>) [7] demo_src (ClientIp (sa_ip demo_src)) UdpTransport demo_state =
     handle demo_zoned [7] demo_src (ClientIp (sa_ip demo_src)) UdpTransport demo_state \<and>
   qs_limiter (snd (handle demo_zoned [7] demo_src (ClientIp (sa_ip demo_src)) UdpTransport demo_state)) = limiter_new 0"
proof -
  have "lower_name (e_hickory demo_zoned) ''a.com'' = ''a.com''"
    using demo_lower by (simp add: lower_name_def demo_zoned_def demo_env_def demo_names_def ex_names_def)
  moreover have "suffix_covers ''com'' ''a.com''" by code_simp
  ultimately have loc: "answered_locally demo_zoned RT_A (lower_name (e_hickory demo_zoned) ''a.com'')"
    by (simp add: answered_locally_def authoritative_negative_def demo_zoned_def view_empty_def authoritative_zone_def
      conditional_upstream_def match_forwarding_rule_def)
  have dec: "h_from_bytes (e_hickory demo_zoned) [7] = h_from_bytes (e_hickory demo_env) [7]" by (simp add: demo_zoned_def)
  have "same_gateway demo_zoned (demo_zoned\<lparr>e_lookup := l\<rparr>)" for l by (simp add: same_gateway_def)
  from local_names_stay_local [OF dec [unfolded demo_decodes] _ loc this surjective_pairing,
      of "[]" "\<lambda>_ _ _. Some (1, Resolved [])" demo_src "ClientIp (sa_ip demo_src)" UdpTransport demo_state]
  show ?thesis by (simp add: same_rest_def) (simp add: demo_state_def)
qed

definition demo_tunneled :: "(nat, string) query_env" where
  "demo_tunneled = demo_env\<lparr>e_routing_snapshot := [sa_ip demo_src \<mapsto> TunnelUpstream 4],
     e_tunnel_exchange := (\<lambda>iface _ _. if iface = ''wg0'' then Inr (Some (Datagram 20 [7, 8])) else Inr None)\<rparr>"

definition demo_tunnel_state :: "nat query_state" where
  "demo_tunnel_state = demo_state\<lparr>qs_forwarders := [4 \<mapsto> \<lparr>tf_interface_name = ''wg0'', tf_upstream = demo_src\<rparr>]\<rparr>"

theorem tunnel_queries_stay_in_tunnel_witness:
  "handle (demo_tunneled\<lparr>e_serving := [ex_upstream ''1.1.1.1''], e_lookup := (\<lambda>_ _ _. Some (1, Resolved [])),
       e_tunnel_exchange := (\<lambda>iface _ _. if iface = ''wg0'' then Inr (Some (Datagram 20 [7, 8])) else Inr (Some (Datagram 1 [])))\<rparr>)
     [7] demo_src (ClientIp (sa_ip demo_src)) UdpTransport demo_tunnel_state =
   handle demo_tunneled [7] demo_src (ClientIp (sa_ip demo_src)) UdpTransport demo_tunnel_state"
proof (rule tunnel_queries_stay_in_tunnel)
  show "h_from_bytes (e_hickory demo_tunneled) [7] = Some \<lparr>dm_id = 7, dm_code = NoError, dm_authoritative = False,
      dm_recursion_desired = True, dm_recursion_available = False,
      dm_queries = [(''a.com'', RT_A)], dm_answers = [], dm_authorities = [], dm_additionals = []\<rparr>"
    using demo_decodes by (simp add: demo_tunneled_def)
qed (auto simp: demo_tunneled_def demo_tunnel_state_def demo_env_def select_upstream_def conditional_upstream_def demo_views
    same_gateway_def same_policy_def get_or_build_tunnel_forwarder_def)


section \<open>The cache and the filter\<close>

lemma send_resolved_caches:
  assumes "send_resolved E Q label answers S = (Inr (), S1)" and "\<not> (cfg_rebinding_protection (e_config E) \<and> rebinds answers)"
    and "fold min (map dr_ttl answers) U32_MAX = ttl" and "0 < ttl" and "ttl < U32_MAX"
  shows "\<exists>wire. qs_sent S1 = qs_sent S @ [(wire, q_src Q)] \<and>
    qs_cache S1 = cache_insert (e_now_insert E) (q_upstream_id Q) (q_domain Q) (q_rtype Q) wire ttl
      (cfg_cache_ttl_min_secs (e_config E)) (cfg_cache_ttl_max_secs (e_config E)) (qs_cache S)"
proof -
  have run: "send_resolved E Q label answers =
      pipe_bind (send_message E Q ((response_for Q)\<lparr>dm_answers := answers\<rparr>)) (\<lambda>wire.
      pipe_bind (cache_store E Q wire ttl (cfg_cache_ttl_min_secs (e_config E)) (cfg_cache_ttl_max_secs (e_config E))) (\<lambda>_.
      pipe_bind (note_resolution Q answers ttl) (\<lambda>_. record_query E Q (q_pass_result Q) label)))"
    using assms(2-5) by (auto simp: send_resolved_def Let_def)
  from assms(1) [unfolded run] obtain wire T where T: "send_message E Q ((response_for Q)\<lparr>dm_answers := answers\<rparr>) S = (Inr wire, T)"
    and k: "pipe_bind (cache_store E Q wire ttl (cfg_cache_ttl_min_secs (e_config E)) (cfg_cache_ttl_max_secs (e_config E))) (\<lambda>_.
      pipe_bind (note_resolution Q answers ttl) (\<lambda>_. record_query E Q (q_pass_result Q) label)) T = (Inr (), S1)"
    by (cases rule: pipe_bind_cases) auto
  have "qs_sent T = qs_sent S @ [(wire, q_src Q)]" "qs_cache T = qs_cache S"
    using T by (auto simp: send_message_def pipe_bind_def pipe_option_def pipe_return_def pipe_fail_def send_to_def split: option.splits if_splits)
  with k show ?thesis
    by (auto simp: pipe_bind_def cache_store_def pipe_update_def note_resolution_def pipe_return_def record_query_def
      split: option.splits list.splits bool.splits if_splits)
qed

lemma cache_hit_run:
  assumes "h_from_bytes (e_hickory E) packet = Some request" and "dm_queries request = (name, rtype) # others"
    and "\<not> answered_locally E rtype (lower_name (e_hickory E) name)"
    and "fst (cache_get (e_now_get E) (select_upstream E client src) (h_to_string (e_hickory E) name) rtype (dm_id request) (qs_cache S)) = Some wire"
    and "e_send_ok E (qs_attempts S)"
  shows "\<exists>S'. handle E packet src client protocol S = (Inr (), S') \<and> qs_sent S' = qs_sent S @ [(wire, src)] \<and>
    (\<forall>row \<in> set (drop (length (qs_log S)) (qs_log S')). ql_result row = result_as_str ResCacheHit)"
proof -
  obtain c where "cache_get (e_now_get E) (select_upstream E client src) (h_to_string (e_hickory E) name) rtype (dm_id request) (qs_cache S) =
      (Some wire, c)" using assms(4) by (metis prod.collapse)
  moreover have "reverse_target E rtype (to_ascii_lowercase (trim_end_matches (CHR ''.'') (h_to_string (e_hickory E) name))) = None"
    "auth_lookup E rtype (to_ascii_lowercase (trim_end_matches (CHR ''.'') (h_to_string (e_hickory E) name))) = None"
    "authoritative_negative E (to_ascii_lowercase (trim_end_matches (CHR ''.'') (h_to_string (e_hickory E) name))) = None"
    using assms(3) unfolding answered_locally_def lower_name_def by blast+
  ultimately show ?thesis
    by (simp add: handle_def assms(1,2,5) answer_query_def Let_def pipe_bind_def send_to_def record_query_def pipe_update_def)
qed



definition demo_query :: "(nat, string) dns_query" where
  "demo_query = \<lparr>q_packet = [7], q_request = the (h_from_bytes demo_names [7]), q_domain = ''a.com'', q_rtype = RT_A, q_src = demo_src,
     q_attribution = \<lparr>at_device_id = None, at_protocol = UdpTransport\<rparr>, q_upstream_id = DefaultUpstream, q_routing_profile = False,
     q_pass_result = ResForwarded\<rparr>"

definition demo_answers :: "string dns_record list" where
  "demo_answers = [\<lparr>dr_name = ''a.com'', dr_ttl = 60, dr_data = RD_CNAME ''b.com''\<rparr>]"

lemma demo_facts:
  "cache_ok (qs_cache demo_state)" "cfg_cache_ttl_min_secs (e_config demo_env) = 0" "cfg_cache_ttl_max_secs (e_config demo_env) = 86400"
  "e_now_insert demo_env = 0" "e_now_get demo_env = 0" "q_rtype demo_query = RT_A" "q_domain demo_query = ''a.com''"
  "h_to_string (e_hickory demo_env) d = d" "q_upstream_id demo_query = DefaultUpstream" "q_src demo_query = demo_src"
  by (simp_all add: demo_state_def size_zero_new demo_env_def ex_config_def demo_query_def demo_names_def ex_names_def)


section \<open>The forwarding ladder\<close>

text \<open>What one rung settles on, if it settles the query in time, and how long it takes.\<close>

definition rung :: "('u, 'm) query_env \<Rightarrow> string \<Rightarrow> record_type \<Rightarrow> upstream_entry \<Rightarrow> 'm ladder_outcome option" where
  "rung E domain rtype e =
     (case e_lookup E e domain rtype of
        None \<Rightarrow> None
      | Some (t, result) \<Rightarrow>
          (if t > cfg_upstream_timeout_ms (e_config E) then None
           else (case result of
                   Resolved records \<Rightarrow> Some (Answered (entry_address e) records)
                 | LookupFailed err \<Rightarrow>
                     (if le_no_records_found err \<or> le_nx_domain err
                      then Some (NegativeAnswer (entry_address e) (le_nx_domain err) (le_soa err)) else None))))"

definition rung_time :: "('u, 'm) query_env \<Rightarrow> string \<Rightarrow> record_type \<Rightarrow> upstream_entry \<Rightarrow> nat" where
  "rung_time E domain rtype e =
     (case e_lookup E e domain rtype of
        None \<Rightarrow> cfg_upstream_timeout_ms (e_config E)
      | Some (t, _) \<Rightarrow> min t (cfg_upstream_timeout_ms (e_config E)))"

definition climbed :: "('u, 'm) query_env \<Rightarrow> string \<Rightarrow> record_type \<Rightarrow> upstream_entry list \<Rightarrow> nat" where
  "climbed E domain rtype es = sum_list (map (rung_time E domain rtype) es)"

lemma walk_ladder_Cons:
  "walk_ladder E d rt (cfg_upstream_timeout_ms (e_config E)) (e # es) =
     (case rung E d rt e of
        Some out \<Rightarrow> (out, rung_time E d rt e)
      | None \<Rightarrow> (case walk_ladder E d rt (cfg_upstream_timeout_ms (e_config E)) es of (out, t) \<Rightarrow> (out, rung_time E d rt e + t)))"
  by (auto simp: rung_def rung_time_def Let_def split: option.splits prod.splits lookup_outcome.splits)

lemma rung_settles: "rung E d rt e \<noteq> Some Exhausted"
  by (auto simp: rung_def split: option.splits prod.splits lookup_outcome.splits if_splits)

lemma walk_ladder_first:
  assumes "walk_ladder E d rt (cfg_upstream_timeout_ms (e_config E)) es = (out, t)"
  shows "(out = Exhausted \<and> (\<forall>e \<in> set es. rung E d rt e = None) \<and> t = climbed E d rt es) \<or>
    (\<exists>pre e post. es = pre @ e # post \<and> (\<forall>p \<in> set pre. rung E d rt p = None) \<and> rung E d rt e = Some out \<and>
       t = climbed E d rt (pre @ [e]))"
  using assms
proof (induction es arbitrary: t)
  case (Cons e es)
  show ?case
  proof (cases "rung E d rt e")
    case (Some o')
    with Cons.prems have "rung E d rt e = Some out" "t = climbed E d rt ([] @ [e])" by (simp_all add: walk_ladder_Cons climbed_def del: walk_ladder.simps)
    then show ?thesis by (intro disjI2 exI [of _ "[]"] exI [of _ e] exI [of _ es]) simp
  next
    case None
    obtain t' where w: "walk_ladder E d rt (cfg_upstream_timeout_ms (e_config E)) es = (out, t')" "t = rung_time E d rt e + t'"
      using Cons.prems None by (auto simp: walk_ladder_Cons simp del: walk_ladder.simps split: prod.splits)
    from Cons.IH [OF w(1)] show ?thesis
    proof (elim disjE exE conjE)
      fix pre e' post assume "es = pre @ e' # post" "\<forall>p \<in> set pre. rung E d rt p = None" "rung E d rt e' = Some out"
        "t' = climbed E d rt (pre @ [e'])"
      then show ?thesis using None w(2)
        by (intro disjI2 exI [of _ "e # pre"] exI [of _ e'] exI [of _ post]) (simp add: climbed_def)
    qed (use None w(2) in \<open>simp add: climbed_def\<close>)
  qed
qed (simp add: climbed_def)

lemma climbed_bound: "climbed E d rt es \<le> length es * cfg_upstream_timeout_ms (e_config E)"
  by (induction es) (auto simp: climbed_def rung_time_def split: option.splits)


section \<open>Conditional upstreams\<close>

text \<open>A datagram that is not the answer to a request.\<close>

fun stale :: "('u, 'm) query_env \<Rightarrow> 'm dns_message \<Rightarrow> recv_event \<Rightarrow> bool" where
  "stale E request (Datagram t d) \<longleftrightarrow>
     t \<le> e_recv_timeout E \<and>
     (case h_from_bytes (e_hickory E) (take RECV_BUFFER d) of
        Some msg \<Rightarrow> \<not> (dm_id msg = dm_id request \<and> same_question E msg request) | None \<Rightarrow> True)"
| "stale E request (RecvError t e) \<longleftrightarrow> False"

definition settled_by :: "'m dns_message \<Rightarrow> ('u, 'm) query_env \<Rightarrow> bool \<Rightarrow> 'm dns_message option \<Rightarrow> bool" where
  "settled_by request E first_recv parsed \<longleftrightarrow>
     (case parsed of Some msg \<Rightarrow> dm_id msg = dm_id request \<and> same_question E msg request | None \<Rightarrow> first_recv)"

lemma recv_loop_Datagram:
  assumes "recv_loop E request first_recv (Datagram t d # evs) = Inr (buf, parsed, rest)"
  obtains (skip) "stale E request (Datagram t d)" "recv_loop E request False evs = Inr (buf, parsed, rest)"
  | (settle) "t \<le> e_recv_timeout E" "buf = take RECV_BUFFER d" "rest = evs" "h_from_bytes (e_hickory E) buf = parsed"
    "settled_by request E first_recv parsed"
proof -
  have t: "t \<le> e_recv_timeout E" using assms by (rule_tac ccontr) simp
  note run = assms [simplified recv_loop.simps Let_def not_less [THEN iffD2, OF t] if_False]
  show ?thesis
  proof (cases "h_from_bytes (e_hickory E) (take RECV_BUFFER d)")
    case None
    show ?thesis
    proof (cases first_recv)
      case True
      with run None have "buf = take RECV_BUFFER d" "rest = evs" "parsed = None" by simp_all
      with None t True show ?thesis by (intro settle) (simp_all add: settled_by_def)
    qed (use run None t in \<open>intro skip, simp_all\<close>)
  next
    case (Some msg)
    show ?thesis
    proof (cases "dm_id msg = dm_id request \<and> same_question E msg request")
      case True
      with run Some have "buf = take RECV_BUFFER d" "rest = evs" "parsed = Some msg" by simp_all
      with Some t True show ?thesis by (intro settle) (simp_all add: settled_by_def)
    next
      case False
      with run Some t show ?thesis by (intro skip) auto
    qed
  qed
qed

lemma recv_loop_settles:
  assumes "recv_loop E request first_recv evs = Inr (buf, parsed, rest)"
  shows "\<exists>pre t d. evs = pre @ Datagram t d # rest \<and> (\<forall>ev \<in> set pre. stale E request ev) \<and> t \<le> e_recv_timeout E \<and>
    buf = take RECV_BUFFER d \<and> h_from_bytes (e_hickory E) buf = parsed \<and> settled_by request E (first_recv \<and> pre = []) parsed"
  using assms
proof (induction evs arbitrary: first_recv)
  case (Cons ev evs)
  show ?case
  proof (cases ev)
    case (Datagram t d)
    from Cons.prems [unfolded Datagram] show ?thesis
    proof (cases rule: recv_loop_Datagram)
      case skip
      from Cons.IH [OF skip(2)] obtain pre t' d' where IH: "evs = pre @ Datagram t' d' # rest" "\<forall>ev \<in> set pre. stale E request ev"
        "t' \<le> e_recv_timeout E" "buf = take RECV_BUFFER d'" "h_from_bytes (e_hickory E) buf = parsed"
        "settled_by request E (False \<and> pre = []) parsed" by blast
      have "ev # evs = (ev # pre) @ Datagram t' d' # rest" "\<forall>e \<in> set (ev # pre). stale E request e"
        "settled_by request E (first_recv \<and> ev # pre = []) parsed"
        using skip(1) IH(1,2,6) unfolding Datagram by (simp_all del: stale.simps)
      with IH(3-5) show ?thesis by blast
    next
      case settle
      then show ?thesis unfolding Datagram by (intro exI [of _ "[]"] exI [of _ t] exI [of _ d]) simp
    qed
  qed (use Cons.prems in simp)
qed simp

lemma cache_relayed_run:
  obtains c where "cache_relayed E Q buf ttl S = (Inr (), S\<lparr>qs_cache := c\<rparr>)"
    "c \<in> {qs_cache S, cache_insert (e_now_insert E) (q_upstream_id Q) (q_domain Q) (q_rtype Q) buf ttl
      (cfg_cache_ttl_min_secs (e_config E)) (cfg_cache_ttl_max_secs (e_config E)) (qs_cache S)}"
proof (cases "ttl > 0")
  case False
  with that [of "qs_cache S"] show ?thesis by (simp add: cache_relayed_def pipe_return_def)
qed (use that in \<open>simp add: cache_relayed_def cache_store_def pipe_update_def\<close>)

lemma record_run: "record_query E Q res label S = (r, S') \<Longrightarrow> qs_sent S' = qs_sent S \<and> qs_cache S' = qs_cache S"
  by (auto simp: record_query_def pipe_update_def)

lemma send_run: "send_to E wire dst S = (Inr x, S') \<Longrightarrow> qs_sent S' = qs_sent S @ [(wire, dst)] \<and> qs_cache S' = qs_cache S"
  by (auto simp: send_to_def split: if_splits)

lemma return_socket_run: "return_socket_to_pool s S = (r, S') \<Longrightarrow> qs_sent S' = qs_sent S \<and> qs_cache S' = qs_cache S"
  by (auto simp: return_socket_to_pool_def pipe_update_def)

lemma take_socket_run: "take_socket E S = (Inr x, S') \<Longrightarrow> qs_sent S' = qs_sent S \<and> qs_cache S' = qs_cache S"
  by (auto simp: take_socket_def split: if_splits sum.splits)

lemma relay_run:
  assumes "pipe_bind (send_to E buf dst) (\<lambda>_. pipe_bind (return_socket_to_pool s) (\<lambda>_.
      (case parsed of
         None \<Rightarrow> record_query E Q res label
       | Some msg \<Rightarrow> (let (is_negative, raw_ttl) = classify_response msg in
           pipe_bind (cache_relayed E Q buf raw_ttl) (\<lambda>_. record_query E Q (relayed_result is_negative res) label))))) T = (Inr (), S')"
  shows "qs_sent S' = qs_sent T @ [(buf, dst)] \<and>
    (qs_cache S' = qs_cache T \<or>
      (\<exists>msg. parsed = Some msg \<and>
        qs_cache S' = cache_insert (e_now_insert E) (q_upstream_id Q) (q_domain Q) (q_rtype Q) buf (snd (classify_response msg))
          (cfg_cache_ttl_min_secs (e_config E)) (cfg_cache_ttl_max_secs (e_config E)) (qs_cache T)))"
proof -
  let ?tail = "case parsed of
         None \<Rightarrow> record_query E Q res label
       | Some msg \<Rightarrow> (let (is_negative, raw_ttl) = classify_response msg in
           pipe_bind (cache_relayed E Q buf raw_ttl) (\<lambda>_. record_query E Q (relayed_result is_negative res) label))"
  from assms obtain U where U: "send_to E buf dst T = (Inr (), U)" "pipe_bind (return_socket_to_pool s) (\<lambda>_. ?tail) U = (Inr (), S')"
    by (cases rule: pipe_bind_cases) auto
  from U(2) obtain V where V: "return_socket_to_pool s U = (Inr (), V)" "?tail V = (Inr (), S')"
    by (cases rule: pipe_bind_cases) auto
  show ?thesis
  proof (cases parsed)
    case None
    with V(2) record_run [of E Q res label V] return_socket_run [OF V(1)] send_run [OF U(1)] show ?thesis by simp
  next
    case (Some msg)
    obtain neg ttl where cl: "classify_response msg = (neg, ttl)" by fastforce
    obtain c where c: "cache_relayed E Q buf ttl V = (Inr (), V\<lparr>qs_cache := c\<rparr>)"
      "c \<in> {qs_cache V, cache_insert (e_now_insert E) (q_upstream_id Q) (q_domain Q) (q_rtype Q) buf ttl
        (cfg_cache_ttl_min_secs (e_config E)) (cfg_cache_ttl_max_secs (e_config E)) (qs_cache V)}"
      by (rule cache_relayed_run)
    from V(2) have "record_query E Q (relayed_result neg res) label (V\<lparr>qs_cache := c\<rparr>) = (Inr (), S')"
      by (simp add: Some cl pipe_bind_def c(1))
    from record_run [OF this] return_socket_run [OF V(1)] send_run [OF U(1)] c(2) show ?thesis by (auto simp: Some cl)
  qed
qed

text \<open>
  C33: a forwarding rule's server answers only its own question. However many datagrams earlier queries
  left on the pooled socket, and whatever else arrives before the deadline, a datagram the resolver can read is relayed to
  the client only if it carries the query's transaction id and the asked name; the unread rest of the queue goes back with the
  socket; and the cache, if it changes, changes by storing exactly the relayed bytes, never an unreadable datagram.
\<close>

theorem conditional_serves_own_answer:
  assumes "forward_via_conditional E Q upstream S = (Inr (), S')"
  shows "\<exists>buf. qs_sent S' = qs_sent S @ [(buf, q_src Q)] \<and>
    (\<forall>msg. h_from_bytes (e_hickory E) buf = Some msg \<longrightarrow> dm_id msg = q_id Q \<and> same_question E msg (q_request Q)) \<and>
    (qs_cache S' = qs_cache S \<or>
      (\<exists>msg. h_from_bytes (e_hickory E) buf = Some msg \<and>
        qs_cache S' = cache_insert (e_now_insert E) (q_upstream_id Q) (q_domain Q) (q_rtype Q) buf (snd (classify_response msg))
          (cfg_cache_ttl_min_secs (e_config E)) (cfg_cache_ttl_max_secs (e_config E)) (qs_cache S)))"
  using assms unfolding forward_via_conditional_def
proof (cases rule: pipe_bind_cases)
  case (2 leftover T)
  let ?run = "\<lambda>arrivals. recv_loop E (q_request Q) True (map (Datagram 0) leftover @ arrivals)"
  have "e_conditional E upstream (q_packet Q) \<noteq> Inl e" for e using 2(2) by (intro notI) (simp add: pipe_fail_def)
  then obtain arrivals where a: "e_conditional E upstream (q_packet Q) = Inr arrivals"
    by (cases "e_conditional E upstream (q_packet Q)") auto
  have "?run arrivals \<noteq> Inl e" for e using 2(2) by (intro notI) (simp add: a pipe_fail_def)
  then obtain x where "?run arrivals = Inr x" by (cases "?run arrivals") auto
  then obtain buf parsed rest where loop: "?run arrivals = Inr (buf, parsed, rest)" by (cases x) auto
  note run = 2(2) [unfolded a loop sum.case prod.case]
  have p: "h_from_bytes (e_hickory E) buf = parsed" "\<exists>b. settled_by (q_request Q) E b parsed"
    using recv_loop_settles [OF loop] by blast+
  then have own: "h_from_bytes (e_hickory E) buf = Some msg \<Longrightarrow> dm_id msg = q_id Q \<and> same_question E msg (q_request Q)" for msg
    by (simp add: settled_by_def)
  from relay_run [OF run] take_socket_run [OF 2(1)] own show ?thesis
    by (intro exI [of _ buf]) (simp only: p(1) simp_thms, blast)
qed simp


section \<open>Rebinding protection\<close>

text \<open>After the reply, a step may at most store the bytes of the reply.\<close>

definition stores_only :: "('u, 'm) query_env \<Rightarrow> ('u, 'm) dns_query \<Rightarrow> bytes \<Rightarrow> ('u, 'a) pipe \<Rightarrow> bool" where
  "stores_only E Q wire m \<longleftrightarrow>
     (\<forall>S r S'. m S = (r, S') \<longrightarrow> qs_sent S' = qs_sent S \<and>
        (qs_cache S' = qs_cache S \<or>
         (\<exists>ttl lo hi. qs_cache S' = cache_insert (e_now_insert E) (q_upstream_id Q) (q_domain Q) (q_rtype Q) wire ttl lo hi (qs_cache S))))"

definition keeps_cache :: "('u, 'a) pipe \<Rightarrow> bool" where
  "keeps_cache m \<longleftrightarrow> (\<forall>S r S'. m S = (r, S') \<longrightarrow> qs_sent S' = qs_sent S \<and> qs_cache S' = qs_cache S)"

lemma keeps_cache_steps:
  "keeps_cache (pipe_return x)" "keeps_cache (record_query E Q res label)" "keeps_cache (note_resolution Q answers ttl)"
  by (auto simp: keeps_cache_def pipe_return_def record_query_def pipe_update_def note_resolution_def split: option.splits list.splits bool.splits)

lemma stores_only_store: "stores_only E Q wire (cache_store E Q wire ttl lo hi)"
  by (auto simp: stores_only_def cache_store_def pipe_update_def)

lemma stores_only_keeps: "keeps_cache m \<Longrightarrow> stores_only E Q wire m"
  by (auto simp: keeps_cache_def stores_only_def)

lemmas stores_only_steps = stores_only_store stores_only_keeps [OF keeps_cache_steps(1)] stores_only_keeps [OF keeps_cache_steps(2)]

lemma stores_only_bind:
  assumes "stores_only E Q wire m" and "\<And>x. keeps_cache (k x)"
  shows "stores_only E Q wire (pipe_bind m k)"
  unfolding stores_only_def
proof (intro allI impI)
  fix S r S' assume "pipe_bind m k S = (r, S')"
  then show "qs_sent S' = qs_sent S \<and> (qs_cache S' = qs_cache S \<or>
      (\<exists>ttl lo hi. qs_cache S' = cache_insert (e_now_insert E) (q_upstream_id Q) (q_domain Q) (q_rtype Q) wire ttl lo hi (qs_cache S)))"
  proof (cases rule: pipe_bind_cases)
    case (2 x T)
    with assms(2) have "qs_sent S' = qs_sent T" "qs_cache S' = qs_cache T" unfolding keeps_cache_def by blast+
    with 2(1) assms(1) show ?thesis unfolding stores_only_def by simp
  qed (use assms(1) in \<open>simp add: stores_only_def\<close>)
qed

lemma keeps_cache_bind: "keeps_cache m \<Longrightarrow> (\<And>x. keeps_cache (k x)) \<Longrightarrow> keeps_cache (pipe_bind m k)"
  unfolding keeps_cache_def by (intro allI impI, erule pipe_bind_cases) metis+

text \<open>The reply a query gets names no private address.\<close>

definition replies_public :: "('u, 'm) query_env \<Rightarrow> ('u, 'm) dns_query \<Rightarrow> ('u, unit) pipe \<Rightarrow> bool" where
  "replies_public E Q m \<longleftrightarrow>
     (\<forall>S S'. m S = (Inr (), S') \<longrightarrow>
        (\<exists>msg wire. h_to_bytes (e_hickory E) msg = Some wire \<and> \<not> rebinds (dm_answers msg) \<and>
           qs_sent S' = qs_sent S @ [(wire, q_src Q)] \<and>
           (qs_cache S' = qs_cache S \<or>
            (\<exists>ttl lo hi. qs_cache S' = cache_insert (e_now_insert E) (q_upstream_id Q) (q_domain Q) (q_rtype Q) wire ttl lo hi (qs_cache S)))))"

lemma replies_publicI:
  assumes "\<not> rebinds (dm_answers msg)" and "\<And>wire. stores_only E Q wire (k wire)"
  shows "replies_public E Q (pipe_bind (send_message E Q msg) k)"
  unfolding replies_public_def
proof (intro allI impI)
  fix S S' assume "pipe_bind (send_message E Q msg) k S = (Inr (), S')"
  then obtain wire T where "send_message E Q msg S = (Inr wire, T)" and k: "k wire T = (Inr (), S')"
    by (cases rule: pipe_bind_cases) auto
  then have T: "h_to_bytes (e_hickory E) msg = Some wire" "qs_sent T = qs_sent S @ [(wire, q_src Q)]" "qs_cache T = qs_cache S"
    by (auto simp: send_message_def pipe_bind_def pipe_option_def pipe_return_def pipe_fail_def send_to_def split: option.splits if_splits)
  from k assms(2) have "qs_sent S' = qs_sent T" "qs_cache S' = qs_cache T \<or>
      (\<exists>ttl lo hi. qs_cache S' = cache_insert (e_now_insert E) (q_upstream_id Q) (q_domain Q) (q_rtype Q) wire ttl lo hi (qs_cache T))"
    unfolding stores_only_def by blast+
  with T assms(1) show "\<exists>msg wire. h_to_bytes (e_hickory E) msg = Some wire \<and> \<not> rebinds (dm_answers msg) \<and>
      qs_sent S' = qs_sent S @ [(wire, q_src Q)] \<and> (qs_cache S' = qs_cache S \<or>
      (\<exists>ttl lo hi. qs_cache S' = cache_insert (e_now_insert E) (q_upstream_id Q) (q_domain Q) (q_rtype Q) wire ttl lo hi (qs_cache S)))"
    by (metis (no_types, lifting))
qed

lemma public_empty: "\<not> rebinds []"
  by (simp add: rebinds_def resolved_ips_def map_filter_simps)

lemma public_servfail: "replies_public E Q (pipe_bind (send_servfail E Q) (\<lambda>_. record_query E Q res label))"
proof -
  have "pipe_bind (send_servfail E Q) (\<lambda>_. record_query E Q res label) =
      pipe_bind (send_message E Q ((response_for Q)\<lparr>dm_code := ServFail\<rparr>)) (\<lambda>_. record_query E Q res label)"
    by (auto simp: fun_eq_iff send_servfail_def pipe_bind_def pipe_return_def split: prod.splits sum.splits)
  moreover have "replies_public E Q (pipe_bind (send_message E Q ((response_for Q)\<lparr>dm_code := ServFail\<rparr>)) (\<lambda>_. record_query E Q res label))"
    by (rule replies_publicI) (simp_all add: public_empty response_for_def stores_only_keeps keeps_cache_steps)
  ultimately show ?thesis by simp
qed

lemma public_relay_negative: "replies_public E Q (relay_negative E Q label nx soa)"
  unfolding relay_negative_def send_negative_def Let_def
  by (simp split: prod.splits option.splits)
    (auto intro!: replies_publicI stores_only_bind stores_only_steps keeps_cache_steps keeps_cache_bind
      simp: public_empty response_for_def)

lemma public_send_resolved:
  "cfg_rebinding_protection (e_config E) \<Longrightarrow> replies_public E Q (send_resolved E Q label answers)"
  unfolding send_resolved_def send_negative_def Let_def
  by (auto intro!: replies_publicI stores_only_bind stores_only_steps keeps_cache_steps keeps_cache_bind
      simp: public_empty response_for_def)

lemma public_default:
  "cfg_rebinding_protection (e_config E) \<Longrightarrow> replies_public E Q (forward_via_default_resolver E Q)"
  by (simp add: forward_via_default_resolver_def public_send_resolved public_relay_negative public_servfail split: ladder_outcome.splits)

text \<open>
  C34: with rebinding protection on, no answer from the default upstreams or the recursor points into
  the house. Whatever they return, the reply that leaves carries no private address in its answers, and the cache keeps
  nothing but the bytes of that reply.
\<close>

theorem rebinding_protection:
  assumes "cfg_rebinding_protection (e_config E)" and "dm_queries (q_request Q) \<noteq> []"
    and "q_upstream_id Q = DefaultUpstream"
    and "forward_upstream E Q None S = (Inr (), S')"
  shows "\<exists>msg wire. h_to_bytes (e_hickory E) msg = Some wire \<and> \<not> list_ex is_private_ip (resolved_ips (dm_answers msg)) \<and>
    qs_sent S' = qs_sent S @ [(wire, q_src Q)] \<and>
    (qs_cache S' = qs_cache S \<or>
     (\<exists>ttl lo hi. qs_cache S' = cache_insert (e_now_insert E) (q_upstream_id Q) (q_domain Q) (q_rtype Q) wire ttl lo hi (qs_cache S)))"
proof -
  have "replies_public E Q (handle_recursor_outcome E Q r)" for r
    using assms(1) by (auto simp: handle_recursor_outcome_def Let_def public_default public_servfail public_send_resolved public_relay_negative
      split: option.splits recursor_outcome.splits)
  with assms(2) have "replies_public E Q (resolve_via_recursor E Q)" by (auto simp: resolve_via_recursor_def split: list.splits)
  with public_default [OF assms(1)] have "replies_public E Q (forward_upstream E Q None)" using assms(3) by (simp add: forward_upstream_def)
  with assms(4) show ?thesis unfolding replies_public_def rebinds_def by blast
qed


definition demo_ladder :: "(nat, string) query_env" where
  "demo_ladder = demo_env\<lparr>e_serving := [ex_upstream ''1.1.1.1'', ex_upstream ''9.9.9.9''],
     e_lookup := (\<lambda>e _ _. if entry_address e = ''1.1.1.1'' then None else Some (10, Resolved demo_answers))\<rparr>"


definition demo_rule :: "(nat, string) query_env" where
  "demo_rule = demo_env\<lparr>e_conditional := (\<lambda>_ _. Inr [Datagram 3 [8], Datagram 5 [7]])\<rparr>"

theorem conditional_serves_own_answer_witness:
  "\<exists>buf msg. qs_sent (snd (forward_via_conditional demo_rule demo_query demo_src demo_state)) = [(buf, demo_src)] \<and>
     h_from_bytes demo_names buf = Some msg \<and> dm_id msg = 7"
proof -
  have loop: "recv_loop demo_rule (q_request demo_query) True [Datagram 3 [8], Datagram 5 [7]] =
      Inr ([7], Some (q_request demo_query), [])"
    by (simp add: demo_rule_def demo_env_def demo_query_def demo_names_def RECV_BUFFER_def same_question_def)
  have "qs_sent (snd (forward_via_conditional demo_rule demo_query demo_src demo_state)) = [([7], demo_src)] \<and>
      fst (forward_via_conditional demo_rule demo_query demo_src demo_state) = Inr ()"
    using loop
    by (simp add: forward_via_conditional_def pipe_bind_def take_socket_def demo_rule_def demo_env_def demo_state_def send_to_def
      return_socket_to_pool_def pipe_update_def demo_query_def cache_relayed_def cache_store_def pipe_return_def record_query_def
      split: prod.splits)
  moreover have "h_from_bytes (e_hickory demo_rule) [7] = h_from_bytes demo_names [7]" by (simp add: demo_rule_def demo_env_def)
  moreover have "q_id demo_query = 7" by (simp add: demo_query_def demo_names_def)
  ultimately show ?thesis
    using conditional_serves_own_answer [of demo_rule demo_query demo_src demo_state
        "snd (forward_via_conditional demo_rule demo_query demo_src demo_state)"]
    by (auto simp: prod_eq_iff demo_names_def)
qed

definition demo_recursive :: "(nat, string) query_env" where
  "demo_recursive = demo_env\<lparr>e_recursor := Some (\<lambda>_ _. RecursorOk ((response_for demo_query)\<lparr>dm_answers :=
     [\<lparr>dr_name = ''a.com'', dr_ttl = 60, dr_data = RD_A (ipv4_new 10 0 0 1)\<rparr>]\<rparr>))\<rparr>"

theorem rebinding_protection_witness:
  "\<exists>msg wire S'. forward_upstream demo_recursive demo_query None demo_state = (Inr (), S') \<and>
     h_to_bytes demo_names msg = Some wire \<and> \<not> list_ex is_private_ip (resolved_ips (dm_answers msg)) \<and> qs_sent S' = [(wire, demo_src)]"
proof -
  obtain r S' where run: "forward_upstream demo_recursive demo_query None demo_state = (r, S')" by fastforce
  have "\<not> local_failure demo_recursive d e" for d e
    by (cases e) (use demo_works in \<open>simp_all add: local_failure_def demo_recursive_def\<close>)
  then have "r \<noteq> Inl e" for e using failsD [OF _ fails_forward_upstream] run by blast
  then have S': "forward_upstream demo_recursive demo_query None demo_state = (Inr (), S')" using run by (cases r) auto
  have "cfg_rebinding_protection (e_config demo_recursive)" "dm_queries (q_request demo_query) \<noteq> []" "q_upstream_id demo_query = DefaultUpstream"
    by (simp_all add: demo_recursive_def demo_env_def ex_config_def demo_query_def demo_names_def)
  from rebinding_protection [OF this S'] S' show ?thesis
    by (auto simp: demo_recursive_def demo_env_def demo_state_def demo_query_def)
qed

end
