(* ===== verification/Dhcp.thy ===== *)
theory Dhcp
  imports Net Auth_Context
begin

text \<open>
  DHCP leases: the tables (\<open>wardnetd-data/src/repository/sqlite/dhcp.rs\<close> with the keys of
  \<open>migrations/20260307000000_initial.sql\<close>), the settings in \<open>system_config\<close>, the scope a device
  leases from, and the service that hands out, renews and takes back leases
  (\<open>wardnetd-services/src/dhcp/service.rs\<close>).

  A freshly drawn \<open>Uuid\<close> is the argument \<open>rid\<close>, the clock the argument \<open>now\<close> (nanoseconds). Of the
  device and zone tables the code reads here, the rows keep the columns it uses. The free text of
  the audit log and of the responses is left out. Allocation holds a lock, and one client's packets
  are handled one after the other, so each operation is one step.
\<close>

section \<open>Data\<close>

datatype lease_status = LeaseActive | LeaseExpired | LeaseReleased
datatype lease_event = EvAssigned | EvRenewed | EvReleased | EvExpired | EvConflict

record 'u dhcp_lease =
  dl_id :: 'u
  dl_mac :: string
  dl_ip :: ipv4
  dl_hostname :: "string option"
  dl_start :: int
  dl_end :: int
  dl_status :: lease_status
  dl_device :: "'u option"
  dl_updated :: int

record 'u dhcp_reservation =
  rs_id :: 'u
  rs_mac :: string
  rs_ip :: ipv4
  rs_hostname :: "string option"
  rs_description :: "string option"

record 'u lease_log_row =
  lg_lease :: 'u
  lg_mac :: string
  lg_event :: lease_event

record 'u zone_row =
  zn_id :: 'u
  zn_member_isolation :: bool
  zn_subnet :: "string option"
  zn_default_for_new :: bool

record 'u device_row =
  dv_id :: 'u
  dv_mac :: string
  dv_zone :: 'u
  dv_managed :: bool

record dhcp_config =
  dc_enabled :: bool
  dc_gateway_ip :: ipv4
  dc_pool_start :: ipv4
  dc_pool_end :: ipv4
  dc_subnet_mask :: ipv4
  dc_upstream_dns :: "ipv4 list"
  dc_lease_duration_secs :: nat
  dc_router_ip :: "ipv4 option"

record dhcp_scope =
  ds_gateway_ip :: ipv4
  ds_pool_start :: ipv4
  ds_pool_end :: ipv4
  ds_subnet_mask :: ipv4
  ds_dns :: "ipv4 list"
  ds_lease_duration_secs :: nat
  ds_router_ip :: "ipv4 option"
  ds_member_isolation :: bool
  ds_subnet_prefix :: "nat option"

datatype 'u dhcp_event =
    DhcpLeaseAssigned 'u string ipv4 "string option"
  | DhcpLeaseRenewed 'u string ipv4 "string option" int

record 'u dhcp_state =
  dh_leases :: "'u dhcp_lease list"
  dh_reservations :: "'u dhcp_reservation list"
  dh_log :: "'u lease_log_row list"
  dh_config :: "string \<rightharpoonup> string"
  dh_devices :: "'u device_row list"
  dh_zones :: "'u zone_row list"
  dh_events :: "'u dhcp_event list"

text \<open>
  The code from outside: the subnet library, \<open>to_lowercase\<close>, JSON string lists, and how a \<open>Uuid\<close>
  prints; with the address found on the LAN interface at startup.
\<close>

record ('u, 'n) dhcp_env =
  de_net :: "'n ipnet_lib"
  de_lower :: "string \<Rightarrow> string"
  de_json_parse :: "string \<Rightarrow> string list option"
  de_json_print :: "string list \<Rightarrow> string"
  de_ustr :: "'u \<Rightarrow> string"
  de_gateway_ip :: ipv4

section \<open>The tables\<close>

definition insert_lease :: "('u, 'n) dhcp_env \<Rightarrow> 'u dhcp_lease \<Rightarrow> 'u dhcp_state \<Rightarrow> string + 'u dhcp_state" where
  "insert_lease E row S =
     (if (\<exists>l \<in> set (dh_leases S). dl_id l = dl_id row) then Inl ''UNIQUE constraint failed''
      else Inr (S\<lparr>dh_leases := dh_leases S @ [row\<lparr>dl_mac := de_lower E (dl_mac row)\<rparr>]\<rparr>))"

definition find_lease_by_id :: "'u \<Rightarrow> 'u dhcp_state \<Rightarrow> 'u dhcp_lease option" where
  "find_lease_by_id lid S = find (\<lambda>l. dl_id l = lid) (dh_leases S)"

definition find_active_lease_by_mac :: "('u, 'n) dhcp_env \<Rightarrow> string \<Rightarrow> 'u dhcp_state \<Rightarrow> 'u dhcp_lease option" where
  "find_active_lease_by_mac E mac S =
     find (\<lambda>l. dl_mac l = de_lower E mac \<and> dl_status l = LeaseActive) (dh_leases S)"

definition list_active_leases :: "'u dhcp_state \<Rightarrow> 'u dhcp_lease list" where
  "list_active_leases S = filter (\<lambda>l. dl_status l = LeaseActive) (dh_leases S)"

definition update_lease :: "'u \<Rightarrow> ('u dhcp_lease \<Rightarrow> 'u dhcp_lease) \<Rightarrow> 'u dhcp_state \<Rightarrow> 'u dhcp_state" where
  "update_lease lid f S = S\<lparr>dh_leases := map (\<lambda>l. if dl_id l = lid then f l else l) (dh_leases S)\<rparr>"

text \<open>The update stamps are written to the second.\<close>

definition NANOS_PER_SEC :: int where "NANOS_PER_SEC = 1000000000"

definition stamp :: "int \<Rightarrow> int" where "stamp now = now div NANOS_PER_SEC * NANOS_PER_SEC"

definition update_lease_status :: "int \<Rightarrow> 'u \<Rightarrow> lease_status \<Rightarrow> 'u dhcp_state \<Rightarrow> 'u dhcp_state" where
  "update_lease_status now lid status = update_lease lid (\<lambda>l. l\<lparr>dl_status := status, dl_updated := stamp now\<rparr>)"

definition renew_lease_row :: "int \<Rightarrow> 'u \<Rightarrow> int \<Rightarrow> 'u dhcp_state \<Rightarrow> 'u dhcp_state" where
  "renew_lease_row now lid new_end = update_lease lid (\<lambda>l. l\<lparr>dl_end := new_end, dl_updated := stamp now\<rparr>)"

definition update_lease_hostname :: "int \<Rightarrow> 'u \<Rightarrow> string option \<Rightarrow> 'u dhcp_state \<Rightarrow> 'u dhcp_state" where
  "update_lease_hostname now lid hostname = update_lease lid (\<lambda>l. l\<lparr>dl_hostname := hostname, dl_updated := stamp now\<rparr>)"

text \<open>
  The end of a lease is stored with an offset (\<open>...:07.25+00:00\<close> or \<open>...:07+00:00\<close>) and compared as
  text with the current second (\<open>...:07Z\<close>); both \<open>.\<close> and \<open>+\<close> sort before \<open>Z\<close>, so a lease is stale
  once the second it ends in has begun.
\<close>

definition stale_lease :: "int \<Rightarrow> 'u dhcp_lease \<Rightarrow> bool" where
  "stale_lease now l \<longleftrightarrow> dl_status l = LeaseActive \<and> dl_end l div NANOS_PER_SEC \<le> now div NANOS_PER_SEC"

definition expire_stale_leases :: "int \<Rightarrow> 'u dhcp_state \<Rightarrow> nat \<times> 'u dhcp_state" where
  "expire_stale_leases now S =
     (length (filter (stale_lease now) (dh_leases S)),
      S\<lparr>dh_leases := map (\<lambda>l. if stale_lease now l then l\<lparr>dl_status := LeaseExpired, dl_updated := stamp now\<rparr> else l) (dh_leases S)\<rparr>)"

definition find_reservation_by_mac :: "('u, 'n) dhcp_env \<Rightarrow> string \<Rightarrow> 'u dhcp_state \<Rightarrow> 'u dhcp_reservation option" where
  "find_reservation_by_mac E mac S = find (\<lambda>r. rs_mac r = de_lower E mac) (dh_reservations S)"

definition find_reservation_by_ip :: "ipv4 \<Rightarrow> 'u dhcp_state \<Rightarrow> 'u dhcp_reservation option" where
  "find_reservation_by_ip ip S = find (\<lambda>r. rs_ip r = ip) (dh_reservations S)"

definition insert_reservation :: "('u, 'n) dhcp_env \<Rightarrow> 'u dhcp_reservation \<Rightarrow> 'u dhcp_state \<Rightarrow> string + 'u dhcp_state" where
  "insert_reservation E row S =
     (let row' = row\<lparr>rs_mac := de_lower E (rs_mac row)\<rparr> in
      if (\<exists>r \<in> set (dh_reservations S). rs_id r = rs_id row' \<or> rs_mac r = rs_mac row' \<or> rs_ip r = rs_ip row')
      then Inl ''UNIQUE constraint failed''
      else Inr (S\<lparr>dh_reservations := dh_reservations S @ [row']\<rparr>))"

definition delete_reservation_row :: "'u \<Rightarrow> 'u dhcp_state \<Rightarrow> 'u dhcp_state" where
  "delete_reservation_row rid S = S\<lparr>dh_reservations := filter (\<lambda>r. rs_id r \<noteq> rid) (dh_reservations S)\<rparr>"

definition insert_lease_log :: "('u, 'n) dhcp_env \<Rightarrow> 'u \<Rightarrow> string \<Rightarrow> lease_event \<Rightarrow> 'u dhcp_state \<Rightarrow> 'u dhcp_state" where
  "insert_lease_log E lid mac ev S =
     S\<lparr>dh_log := dh_log S @ [\<lparr>lg_lease = lid, lg_mac = de_lower E mac, lg_event = ev\<rparr>]\<rparr>"

definition find_device_by_mac :: "('u, 'n) dhcp_env \<Rightarrow> string \<Rightarrow> 'u dhcp_state \<Rightarrow> 'u device_row option" where
  "find_device_by_mac E mac S = find (\<lambda>d. dv_mac d = de_lower E mac) (dh_devices S)"

definition set_managed :: "'u \<Rightarrow> bool \<Rightarrow> 'u dhcp_state \<Rightarrow> 'u dhcp_state" where
  "set_managed did managed S =
     S\<lparr>dh_devices := map (\<lambda>d. if dv_id d = did then d\<lparr>dv_managed := managed\<rparr> else d) (dh_devices S)\<rparr>"

definition find_zone_by_id :: "'u \<Rightarrow> 'u dhcp_state \<Rightarrow> 'u zone_row option" where
  "find_zone_by_id zid S = find (\<lambda>z. zn_id z = zid) (dh_zones S)"

definition find_default_for_new :: "'u dhcp_state \<Rightarrow> 'u zone_row option" where
  "find_default_for_new S = find zn_default_for_new (dh_zones S)"

definition config_set :: "string \<Rightarrow> string \<Rightarrow> 'u dhcp_state \<Rightarrow> 'u dhcp_state" where
  "config_set k v S = S\<lparr>dh_config := (dh_config S)(k \<mapsto> v)\<rparr>"

section \<open>Settings and scopes\<close>

definition DEFAULT_UPSTREAM_DNS :: "ipv4 list" where
  "DEFAULT_UPSTREAM_DNS = [ipv4_new 1 1 1 1, ipv4_new 8 8 8 8]"

definition DNS_ENABLED_KEY :: string where "DNS_ENABLED_KEY = ''dns_enabled''"

definition normalised_hostname :: "string option \<Rightarrow> string option" where
  "normalised_hostname hostname =
     (case hostname of Some h \<Rightarrow> (let t = trim h in if t = [] then None else Some t) | None \<Rightarrow> None)"

definition config_get :: "'u dhcp_state \<Rightarrow> string \<Rightarrow> string \<Rightarrow> string" where
  "config_get S k d = (case dh_config S k of Some v \<Rightarrow> v | None \<Rightarrow> d)"

definition invalid :: "string \<Rightarrow> 'a option \<Rightarrow> app_error + 'a" where
  "invalid what x = ok_or (Internal (''invalid '' @ what)) x"

definition parse_all :: "string list \<Rightarrow> ipv4 list option" where
  "parse_all xs = those (map parse_ipv4 xs)"

definition load_config :: "('u, 'n) dhcp_env \<Rightarrow> 'u dhcp_state \<Rightarrow> app_error + dhcp_config" where
  "load_config E S =
     (let (a, b, c, _) = octets (de_gateway_ip E);
          prefix = show_nat a @ ''.'' @ show_nat b @ ''.'' @ show_nat c;
          enabled = (config_get S ''dhcp_enabled'' ''false'' = ''true'')
      in case invalid ''pool_start'' (parse_ipv4 (config_get S ''dhcp_pool_start'' (prefix @ ''.100''))) of
           Inl e \<Rightarrow> Inl e
         | Inr pool_start \<Rightarrow>
      (case invalid ''pool_end'' (parse_ipv4 (config_get S ''dhcp_pool_end'' (prefix @ ''.250''))) of
           Inl e \<Rightarrow> Inl e
         | Inr pool_end \<Rightarrow>
      (case invalid ''subnet_mask'' (parse_ipv4 (config_get S ''dhcp_subnet_mask'' ''255.255.255.0'')) of
           Inl e \<Rightarrow> Inl e
         | Inr subnet_mask \<Rightarrow>
      (case invalid ''upstream_dns''
              (de_json_parse E (config_get S ''dhcp_upstream_dns'' (de_json_print E (map ipv4_to_string DEFAULT_UPSTREAM_DNS)))) of
           Inl e \<Rightarrow> Inl e
         | Inr names \<Rightarrow>
      (case invalid ''upstream_dns IP'' (parse_all names) of
           Inl e \<Rightarrow> Inl e
         | Inr upstream_dns \<Rightarrow>
      (case invalid ''lease_duration_secs'' (parse_uint (2 ^ 32 - 1) (config_get S ''dhcp_lease_duration_secs'' ''86400'')) of
           Inl e \<Rightarrow> Inl e
         | Inr lease_duration_secs \<Rightarrow>
      (let router = config_get S ''dhcp_router_ip'' '''' in
       case (if router = [] then Inr None
             else (case invalid ''router_ip'' (parse_ipv4 router) of Inl e \<Rightarrow> Inl e | Inr ip \<Rightarrow> Inr (Some ip))) of
           Inl e \<Rightarrow> Inl e
         | Inr router_ip \<Rightarrow>
             Inr \<lparr>dc_enabled = enabled, dc_gateway_ip = de_gateway_ip E, dc_pool_start = pool_start, dc_pool_end = pool_end,
                  dc_subnet_mask = subnet_mask, dc_upstream_dns = upstream_dns,
                  dc_lease_duration_secs = lease_duration_secs, dc_router_ip = router_ip\<rparr>)))))))"

definition resolve_zone_for_mac :: "('u, 'n) dhcp_env \<Rightarrow> 'u dhcp_state \<Rightarrow> string \<Rightarrow> 'u zone_row option" where
  "resolve_zone_for_mac E S mac =
     (case find_device_by_mac E mac S of
        Some dev \<Rightarrow> find_zone_by_id (dv_zone dev) S
      | None \<Rightarrow> find_default_for_new S)"

definition wardnet_dns_enabled :: "'u dhcp_state \<Rightarrow> bool" where
  "wardnet_dns_enabled S \<longleftrightarrow> config_get S DNS_ENABLED_KEY ''false'' = ''true''"

definition advertised_dns :: "bool \<Rightarrow> ipv4 \<Rightarrow> ipv4 list \<Rightarrow> ipv4 list" where
  "advertised_dns dns_enabled scope_gateway upstream =
     (if dns_enabled then [scope_gateway] else if upstream = [] then DEFAULT_UPSTREAM_DNS else upstream)"

definition base_scope :: "'u dhcp_state \<Rightarrow> dhcp_config \<Rightarrow> dhcp_scope" where
  "base_scope S base =
     \<lparr>ds_gateway_ip = dc_gateway_ip base, ds_pool_start = dc_pool_start base, ds_pool_end = dc_pool_end base,
      ds_subnet_mask = dc_subnet_mask base,
      ds_dns = advertised_dns (wardnet_dns_enabled S) (dc_gateway_ip base) (dc_upstream_dns base),
      ds_lease_duration_secs = dc_lease_duration_secs base, ds_router_ip = dc_router_ip base,
      ds_member_isolation = False, ds_subnet_prefix = None\<rparr>"

definition zone_scope ::
    "('u, 'n) dhcp_env \<Rightarrow> 'u dhcp_state \<Rightarrow> dhcp_config \<Rightarrow> 'u zone_row \<Rightarrow> 'n \<Rightarrow> ipv4 \<Rightarrow> ipv4 \<Rightarrow> dhcp_scope" where
  "zone_scope E S base zone net pool_start pool_end =
     (let gateway = gateway_for (de_net E) net in
      \<lparr>ds_gateway_ip = gateway, ds_pool_start = pool_start, ds_pool_end = pool_end,
       ds_subnet_mask = (if zn_member_isolation zone then - 1 else net_mask (de_net E) net),
       ds_dns = advertised_dns (wardnet_dns_enabled S) gateway (dc_upstream_dns base),
       ds_lease_duration_secs = dc_lease_duration_secs base, ds_router_ip = None,
       ds_member_isolation = zn_member_isolation zone, ds_subnet_prefix = Some (net_prefix (de_net E) net)\<rparr>)"

definition resolve_scope :: "('u, 'n) dhcp_env \<Rightarrow> 'u dhcp_state \<Rightarrow> string \<Rightarrow> app_error + dhcp_scope" where
  "resolve_scope E S mac =
     (case load_config E S of
        Inl e \<Rightarrow> Inl e
      | Inr base \<Rightarrow>
          Inr (case resolve_zone_for_mac E S mac of
                 None \<Rightarrow> base_scope S base
               | Some zone \<Rightarrow>
                   (case zn_subnet zone of
                      None \<Rightarrow> base_scope S base
                    | Some block \<Rightarrow>
                        (case net_parse (de_net E) block of
                           None \<Rightarrow> base_scope S base
                         | Some net \<Rightarrow>
                             (case pool_bounds (de_net E) net of
                                None \<Rightarrow> base_scope S base
                              | Some (pool_start, pool_end) \<Rightarrow> zone_scope E S base zone net pool_start pool_end)))))"

definition pool_size :: "ipv4 \<Rightarrow> ipv4 \<Rightarrow> nat" where
  "pool_size start end' = (if end' \<ge> start then unat (end' - start + 1) else 0)"

definition used_ips :: "'u dhcp_state \<Rightarrow> ipv4 set" where
  "used_ips S = set (map dl_ip (list_active_leases S)) \<union> set (map rs_ip (dh_reservations S))"

definition find_available_ip :: "'u dhcp_state \<Rightarrow> ipv4 \<Rightarrow> ipv4 \<Rightarrow> app_error + ipv4" where
  "find_available_ip S pool_start pool_end =
     (case find (\<lambda>ip. ip \<notin> used_ips S) (map word_of_nat [unat pool_start ..< Suc (unat pool_end)]) of
        Some ip \<Rightarrow> Inr ip
      | None \<Rightarrow> Inl (Conflict ''DHCP pool exhausted - no available IP addresses''))"

definition ip_in_pool :: "ipv4 \<Rightarrow> ipv4 \<Rightarrow> ipv4 \<Rightarrow> bool" where
  "ip_in_pool ip pool_start pool_end \<longleftrightarrow> ip \<ge> pool_start \<and> ip \<le> pool_end"

definition PRIVATE_RANGE_HINT :: string where
  "PRIVATE_RANGE_HINT = ''a private range (10.x, 172.16-31.x, or 192.168.x)''"

definition parse_pool_range :: "string \<Rightarrow> string \<Rightarrow> app_error + ipv4 \<times> ipv4" where
  "parse_pool_range pool_start pool_end =
     (case parse_ipv4 pool_start of
        None \<Rightarrow> Inl (BadRequest ''invalid pool_start IP address'')
      | Some start \<Rightarrow>
          (case parse_ipv4 pool_end of
             None \<Rightarrow> Inl (BadRequest ''invalid pool_end IP address'')
           | Some end' \<Rightarrow>
               if end' < start then Inl (BadRequest ''pool_end must be >= pool_start'')
               else if \<not> is_private start then Inl (BadRequest (''pool_start must be '' @ PRIVATE_RANGE_HINT))
               else if \<not> is_private end' then Inl (BadRequest (''pool_end must be '' @ PRIVATE_RANGE_HINT))
               else Inr (start, end')))"

section \<open>The service\<close>

definition still_valid :: "'u dhcp_reservation option \<Rightarrow> ipv4 \<Rightarrow> ipv4 \<Rightarrow> 'u dhcp_lease \<Rightarrow> bool" where
  "still_valid reservation pool_start pool_end existing =
     (case reservation of
        Some r \<Rightarrow> rs_ip r = dl_ip existing
      | None \<Rightarrow> ip_in_pool (dl_ip existing) pool_start pool_end)"

definition expire_lease :: "('u, 'n) dhcp_env \<Rightarrow> int \<Rightarrow> 'u dhcp_lease \<Rightarrow> 'u dhcp_state \<Rightarrow> 'u dhcp_state" where
  "expire_lease E now l S =
     insert_lease_log E (dl_id l) (dl_mac l) EvExpired (update_lease_status now (dl_id l) LeaseExpired S)"

definition lease_if_still_valid ::
    "('u, 'n) dhcp_env \<Rightarrow> int \<Rightarrow> string \<Rightarrow> ipv4 \<Rightarrow> ipv4 \<Rightarrow> 'u dhcp_state \<Rightarrow> 'u dhcp_lease option \<times> 'u dhcp_state" where
  "lease_if_still_valid E now mac pool_start pool_end S =
     (case find_active_lease_by_mac E mac S of
        None \<Rightarrow> (None, S)
      | Some existing \<Rightarrow>
          (if still_valid (find_reservation_by_mac E mac S) pool_start pool_end existing then (Some existing, S)
           else (None, expire_lease E now existing S)))"

definition pinned :: "'u dhcp_state \<Rightarrow> 'u dhcp_lease \<Rightarrow> bool" where
  "pinned S l \<longleftrightarrow> (\<exists>r \<in> set (dh_reservations S). rs_mac r = dl_mac l \<and> rs_ip r = dl_ip l)"

definition leases_outside_pool :: "ipv4 \<Rightarrow> ipv4 \<Rightarrow> 'u dhcp_state \<Rightarrow> 'u dhcp_lease list" where
  "leases_outside_pool pool_start pool_end S =
     filter (\<lambda>l. \<not> ip_in_pool (dl_ip l) pool_start pool_end \<and> \<not> pinned S l) (list_active_leases S)"

definition revoke_leases_outside_pool ::
    "('u, 'n) dhcp_env \<Rightarrow> int \<Rightarrow> ipv4 \<Rightarrow> ipv4 \<Rightarrow> 'u dhcp_state \<Rightarrow> 'u dhcp_state" where
  "revoke_leases_outside_pool E now pool_start pool_end S =
     fold (expire_lease E now) (leases_outside_pool pool_start pool_end S) S"

record dhcp_config_request =
  cq_pool_start :: string
  cq_pool_end :: string
  cq_subnet_mask :: string
  cq_upstream_dns :: "string list"
  cq_lease_duration_secs :: nat
  cq_router_ip :: "string option"

definition check_config_request :: "dhcp_config_request \<Rightarrow> app_error + ipv4 \<times> ipv4" where
  "check_config_request req =
     (case parse_pool_range (cq_pool_start req) (cq_pool_end req) of
        Inl e \<Rightarrow> Inl e
      | Inr pool \<Rightarrow>
          if parse_ipv4 (cq_subnet_mask req) = None then Inl (BadRequest ''invalid subnet_mask IP address'')
          else (case find (\<lambda>d. parse_ipv4 d = None) (cq_upstream_dns req) of
                  Some d \<Rightarrow> Inl (BadRequest (''invalid upstream DNS address: '' @ d))
                | None \<Rightarrow>
                    (case cq_router_ip req of
                       None \<Rightarrow> Inr pool
                     | Some r \<Rightarrow>
                         (case parse_ipv4 r of
                            None \<Rightarrow> Inl (BadRequest ''invalid router_ip address'')
                          | Some ip \<Rightarrow>
                              if \<not> is_private ip then Inl (BadRequest (''router_ip must be '' @ PRIVATE_RANGE_HINT)) else Inr pool))))"

definition store_config :: "('u, 'n) dhcp_env \<Rightarrow> dhcp_config_request \<Rightarrow> 'u dhcp_state \<Rightarrow> 'u dhcp_state" where
  "store_config E req S =
     config_set ''garp_router_mac'' []
      (config_set ''dhcp_router_ip'' (case cq_router_ip req of Some r \<Rightarrow> r | None \<Rightarrow> [])
      (config_set ''dhcp_lease_duration_secs'' (show_nat (cq_lease_duration_secs req))
      (config_set ''dhcp_upstream_dns'' (de_json_print E (cq_upstream_dns req))
      (config_set ''dhcp_subnet_mask'' (cq_subnet_mask req)
      (config_set ''dhcp_pool_end'' (cq_pool_end req)
      (config_set ''dhcp_pool_start'' (cq_pool_start req) S))))))"

definition get_config ::
    "'u auth_context option \<Rightarrow> ('u, 'n) dhcp_env \<Rightarrow> 'u dhcp_state \<Rightarrow> (app_error + dhcp_config) \<times> 'u dhcp_state" where
  "get_config ctx E S = attempt (require_admin ctx) S (\<lambda>_. (load_config E S, S))"

definition update_config ::
    "'u auth_context option \<Rightarrow> ('u, 'n) dhcp_env \<Rightarrow> int \<Rightarrow> dhcp_config_request \<Rightarrow> 'u dhcp_state \<Rightarrow>
     (app_error + dhcp_config) \<times> 'u dhcp_state" where
  "update_config ctx E now req S =
     attempt (require_admin ctx) S (\<lambda>_.
     attempt (check_config_request req) S (\<lambda>(pool_start, pool_end).
       (let S' = revoke_leases_outside_pool E now pool_start pool_end (store_config E req S) in (load_config E S', S'))))"

definition preview_config ::
    "'u auth_context option \<Rightarrow> string \<Rightarrow> string \<Rightarrow> 'u dhcp_state \<Rightarrow> (app_error + 'u dhcp_lease list) \<times> 'u dhcp_state" where
  "preview_config ctx pool_start pool_end S =
     attempt (require_admin ctx) S (\<lambda>_.
     attempt (parse_pool_range pool_start pool_end) S (\<lambda>(start, end'). (Inr (leases_outside_pool start end' S), S)))"

definition toggle ::
    "'u auth_context option \<Rightarrow> ('u, 'n) dhcp_env \<Rightarrow> bool \<Rightarrow> 'u dhcp_state \<Rightarrow> (app_error + dhcp_config) \<times> 'u dhcp_state" where
  "toggle ctx E enabled S =
     attempt (require_admin ctx) S (\<lambda>_.
       (let S' = config_set ''dhcp_enabled'' (if enabled then ''true'' else ''false'') S in (load_config E S', S')))"

definition revoke_lease ::
    "'u auth_context option \<Rightarrow> ('u, 'n) dhcp_env \<Rightarrow> int \<Rightarrow> 'u \<Rightarrow> 'u dhcp_state \<Rightarrow> (app_error + unit) \<times> 'u dhcp_state" where
  "revoke_lease ctx E now lid S =
     attempt (require_admin ctx) S (\<lambda>_.
     attempt (ok_or (NotFound (''lease '' @ de_ustr E lid @ '' not found'')) (find_lease_by_id lid S)) S (\<lambda>lease.
     attempt (require (dl_status lease = LeaseActive) (BadRequest ''lease is not active'')) S (\<lambda>_.
       (Inr (), insert_lease_log E lid (dl_mac lease) EvReleased (update_lease_status now lid LeaseReleased S)))))"

definition create_reservation ::
    "'u auth_context option \<Rightarrow> ('u, 'n) dhcp_env \<Rightarrow> 'u \<Rightarrow> string \<Rightarrow> string \<Rightarrow> string option \<Rightarrow> string option \<Rightarrow> 'u dhcp_state \<Rightarrow>
     (app_error + 'u dhcp_reservation) \<times> 'u dhcp_state" where
  "create_reservation ctx E rid mac ip_address hostname description S =
     attempt (require_admin ctx) S (\<lambda>_.
     attempt (ok_or (BadRequest ''invalid ip_address'') (parse_ipv4 ip_address)) S (\<lambda>ip.
     attempt (require (find_reservation_by_mac E mac S = None) (Conflict (''reservation for MAC '' @ mac @ '' already exists''))) S (\<lambda>_.
     attempt (require (find_reservation_by_ip ip S = None) (Conflict (''reservation for IP '' @ ip_address @ '' already exists''))) S (\<lambda>_.
     attempt (internal (insert_reservation E
         \<lparr>rs_id = rid, rs_mac = mac, rs_ip = ip, rs_hostname = hostname, rs_description = description\<rparr> S)) S (\<lambda>S1.
       (let S2 = (case find_device_by_mac E mac S1 of Some d \<Rightarrow> set_managed (dv_id d) True S1 | None \<Rightarrow> S1)
        in (ok_or (Internal ''reservation not found after insert'') (find_reservation_by_mac E mac S2), S2)))))))"

definition delete_reservation ::
    "'u auth_context option \<Rightarrow> ('u, 'n) dhcp_env \<Rightarrow> 'u \<Rightarrow> 'u dhcp_state \<Rightarrow> (app_error + unit) \<times> 'u dhcp_state" where
  "delete_reservation ctx E rid S =
     attempt (require_admin ctx) S (\<lambda>_.
     attempt (require (\<exists>r \<in> set (dh_reservations S). rs_id r = rid)
         (NotFound (''reservation '' @ de_ustr E rid @ '' not found''))) S (\<lambda>_.
       (Inr (), delete_reservation_row rid S)))"

record dhcp_status =
  st_enabled :: bool
  st_running :: bool
  st_active_lease_count :: nat
  st_pool_total :: nat
  st_pool_used :: nat

definition dhcp_status_of ::
    "'u auth_context option \<Rightarrow> ('u, 'n) dhcp_env \<Rightarrow> 'u dhcp_state \<Rightarrow> (app_error + dhcp_status) \<times> 'u dhcp_state" where
  "dhcp_status_of ctx E S =
     attempt (require_admin ctx) S (\<lambda>_.
     attempt (load_config E S) S (\<lambda>config.
       (let leases = list_active_leases S;
            reserved = filter (\<lambda>r. ip_in_pool (rs_ip r) (dc_pool_start config) (dc_pool_end config)) (dh_reservations S)
        in (Inr \<lparr>st_enabled = dc_enabled config, st_running = dc_enabled config, st_active_lease_count = length leases,
                 st_pool_total = pool_size (dc_pool_start config) (dc_pool_end config),
                 st_pool_used = length leases + length reserved\<rparr>, S))))"

definition publish_event :: "'u dhcp_event \<Rightarrow> 'u dhcp_state \<Rightarrow> 'u dhcp_state" where
  "publish_event ev S = S\<lparr>dh_events := dh_events S @ [ev]\<rparr>"

definition hostname_changed :: "string option \<Rightarrow> 'u dhcp_lease \<Rightarrow> bool" where
  "hostname_changed hostname existing = (case hostname of Some h \<Rightarrow> dl_hostname existing \<noteq> Some h | None \<Rightarrow> False)"

text \<open>The reuse of a lease on a \<open>DHCPDISCOVER\<close>.\<close>

definition reuse_lease ::
    "('u, 'n) dhcp_env \<Rightarrow> int \<Rightarrow> string \<Rightarrow> string option \<Rightarrow> 'u dhcp_lease \<Rightarrow> 'u dhcp_state \<Rightarrow> 'u dhcp_lease \<times> 'u dhcp_state" where
  "reuse_lease E now mac hostname existing S =
     (if hostname_changed hostname existing
      then (existing\<lparr>dl_hostname := hostname\<rparr>,
            publish_event (DhcpLeaseAssigned (dl_id existing) mac (dl_ip existing) hostname)
              (insert_lease_log E (dl_id existing) mac EvAssigned (update_lease_hostname now (dl_id existing) hostname S)))
      else (existing, S))"

text \<open>A reservation counts only when its address lies in the subnet of the scope.\<close>

definition compatible :: "('u, 'n) dhcp_env \<Rightarrow> dhcp_scope \<Rightarrow> 'u dhcp_reservation \<Rightarrow> bool" where
  "compatible E scope r =
     (case ds_subnet_prefix scope of
        Some prefix \<Rightarrow>
          (case net_new (de_net E) (ds_gateway_ip scope) prefix of
             Some net \<Rightarrow> net_contains (de_net E) net (rs_ip r) | None \<Rightarrow> True)
      | None \<Rightarrow> True)"

definition usable_reservation :: "('u, 'n) dhcp_env \<Rightarrow> dhcp_scope \<Rightarrow> string \<Rightarrow> 'u dhcp_state \<Rightarrow> 'u dhcp_reservation option" where
  "usable_reservation E scope mac S =
     (case find_reservation_by_mac E mac S of
        Some r \<Rightarrow> (if compatible E scope r then Some r else None) | None \<Rightarrow> None)"

definition allocate_ip :: "('u, 'n) dhcp_env \<Rightarrow> dhcp_scope \<Rightarrow> string \<Rightarrow> 'u dhcp_state \<Rightarrow> app_error + ipv4" where
  "allocate_ip E scope mac S =
     (case usable_reservation E scope mac S of
        Some r \<Rightarrow> Inr (rs_ip r)
      | None \<Rightarrow> find_available_ip S (ds_pool_start scope) (ds_pool_end scope))"

definition lease_end_at :: "dhcp_scope \<Rightarrow> int \<Rightarrow> int" where
  "lease_end_at scope now = now + int (ds_lease_duration_secs scope) * NANOS_PER_SEC"

definition new_lease ::
    "('u, 'n) dhcp_env \<Rightarrow> int \<Rightarrow> 'u \<Rightarrow> dhcp_scope \<Rightarrow> string \<Rightarrow> string option \<Rightarrow> 'u dhcp_state \<Rightarrow>
     (app_error + 'u dhcp_lease) \<times> 'u dhcp_state" where
  "new_lease E now rid scope mac hostname S =
     attempt (allocate_ip E scope mac S) S (\<lambda>ip.
     attempt (internal (insert_lease E
         \<lparr>dl_id = rid, dl_mac = mac, dl_ip = ip, dl_hostname = hostname, dl_start = now, dl_end = lease_end_at scope now,
          dl_status = LeaseActive, dl_device = None, dl_updated = stamp now\<rparr> S)) S (\<lambda>S1.
       (let S2 = publish_event (DhcpLeaseAssigned rid mac ip hostname) (insert_lease_log E rid mac EvAssigned S1)
        in (ok_or (Internal ''lease not found after insert'') (find_lease_by_id rid S2), S2))))"

definition assign_lease ::
    "'u auth_context option \<Rightarrow> ('u, 'n) dhcp_env \<Rightarrow> int \<Rightarrow> 'u \<Rightarrow> string \<Rightarrow> string option \<Rightarrow> 'u dhcp_state \<Rightarrow>
     (app_error + 'u dhcp_lease) \<times> 'u dhcp_state" where
  "assign_lease ctx E now rid mac hostname S =
     attempt (require_admin ctx) S (\<lambda>_.
     attempt (resolve_scope E S mac) S (\<lambda>scope.
       (case lease_if_still_valid E now mac (ds_pool_start scope) (ds_pool_end scope) S of
          (Some existing, S1) \<Rightarrow> (let (l, S2) = reuse_lease E now mac (normalised_hostname hostname) existing S1 in (Inr l, S2))
        | (None, S1) \<Rightarrow> new_lease E now rid scope mac (normalised_hostname hostname) S1)))"

text \<open>The renewal of a lease on a \<open>DHCPREQUEST\<close>.\<close>

definition extend_lease ::
    "('u, 'n) dhcp_env \<Rightarrow> int \<Rightarrow> dhcp_scope \<Rightarrow> string \<Rightarrow> string option \<Rightarrow> 'u dhcp_lease \<Rightarrow> 'u dhcp_state \<Rightarrow>
     (app_error + 'u dhcp_lease) \<times> 'u dhcp_state" where
  "extend_lease E now scope mac hostname existing S =
     (let new_end = lease_end_at scope now;
          S1 = renew_lease_row now (dl_id existing) new_end S;
          changed = hostname_changed hostname existing;
          S2 = (if changed then update_lease_hostname now (dl_id existing) hostname S1 else S1);
          shown = (if changed then hostname else dl_hostname existing);
          S3 = publish_event (DhcpLeaseRenewed (dl_id existing) mac (dl_ip existing) shown new_end)
                 (insert_lease_log E (dl_id existing) mac EvRenewed S2)
      in (ok_or (Internal ''lease not found after renew'') (find_lease_by_id (dl_id existing) S3), S3))"

definition renew_lease ::
    "'u auth_context option \<Rightarrow> ('u, 'n) dhcp_env \<Rightarrow> int \<Rightarrow> 'u \<Rightarrow> string \<Rightarrow> string option \<Rightarrow> 'u dhcp_state \<Rightarrow>
     (app_error + 'u dhcp_lease) \<times> 'u dhcp_state" where
  "renew_lease ctx E now rid mac hostname S =
     attempt (require_admin ctx) S (\<lambda>_.
     attempt (resolve_scope E S mac) S (\<lambda>scope.
       (case lease_if_still_valid E now mac (ds_pool_start scope) (ds_pool_end scope) S of
          (Some existing, S1) \<Rightarrow> extend_lease E now scope mac (normalised_hostname hostname) existing S1
        | (None, S1) \<Rightarrow> assign_lease ctx E now rid mac (normalised_hostname hostname) S1)))"

definition release_lease ::
    "'u auth_context option \<Rightarrow> ('u, 'n) dhcp_env \<Rightarrow> int \<Rightarrow> string \<Rightarrow> 'u dhcp_state \<Rightarrow> (app_error + unit) \<times> 'u dhcp_state" where
  "release_lease ctx E now mac S =
     attempt (require_admin ctx) S (\<lambda>_.
       (case find_active_lease_by_mac E mac S of
          Some l \<Rightarrow> (Inr (), insert_lease_log E (dl_id l) (dl_mac l) EvReleased (update_lease_status now (dl_id l) LeaseReleased S))
        | None \<Rightarrow> (Inr (), S)))"

definition active_lease ::
    "'u auth_context option \<Rightarrow> ('u, 'n) dhcp_env \<Rightarrow> string \<Rightarrow> 'u dhcp_state \<Rightarrow> app_error + 'u dhcp_lease option" where
  "active_lease ctx E mac S =
     (case require_admin ctx of Inl e \<Rightarrow> Inl e | Inr _ \<Rightarrow> Inr (find_active_lease_by_mac E mac S))"

definition cleanup_expired :: "'u auth_context option \<Rightarrow> int \<Rightarrow> 'u dhcp_state \<Rightarrow> (app_error + nat) \<times> 'u dhcp_state" where
  "cleanup_expired ctx now S =
     attempt (require_admin ctx) S (\<lambda>_. (let (count, S') = expire_stale_leases now S in (Inr count, S')))"

definition scope_for_mac ::
    "'u auth_context option \<Rightarrow> ('u, 'n) dhcp_env \<Rightarrow> string \<Rightarrow> 'u dhcp_state \<Rightarrow> app_error + dhcp_scope" where
  "scope_for_mac ctx E mac S = (case require_admin ctx of Inl e \<Rightarrow> Inl e | Inr _ \<Rightarrow> resolve_scope E S mac)"

end
