(* ===== verification/Dhcp_Leases.thy ===== *)
theory Dhcp_Leases
  imports Dhcp "HOL-Library.Sublist"
begin

text \<open>
  What the DHCP service guarantees. An abstract machine of bindings (who holds which address, who has
  one reserved) is refined by every operation of \<open>Dhcp\<close>; its invariants give the invariants of the
  lease tables over any history of calls. Then what a client is granted on a request, what a change
  of the settings does, and two places where the checks are too weak.
\<close>

section \<open>The bindings the service keeps\<close>

text \<open>
  What the lease tables promise, without rows and timestamps: the lease ids ever used, and the
  bindings (id, hardware address, IP address) in force and reserved. A step drops bindings, grants
  one, or changes the reservations. A careful step never reserves an address another client holds.
\<close>

type_synonym 'u binding = "'u \<times> string \<times> ipv4"

abbreviation b_id :: "'u binding \<Rightarrow> 'u" where "b_id b \<equiv> fst b"
abbreviation b_mac :: "'u binding \<Rightarrow> string" where "b_mac b \<equiv> fst (snd b)"
abbreviation b_ip :: "'u binding \<Rightarrow> ipv4" where "b_ip b \<equiv> snd (snd b)"

record 'u bindings =
  bn_ids :: "'u list"
  bn_active :: "'u binding list"
  bn_reserved :: "'u binding list"

definition reserves_held :: "string \<Rightarrow> ipv4 \<Rightarrow> 'u bindings \<Rightarrow> bool" where
  "reserves_held mac ip B \<longleftrightarrow> (\<exists>b \<in> set (bn_active B). b_ip b = ip \<and> b_mac b \<noteq> mac)"

inductive bind_step :: "bool \<Rightarrow> 'u bindings \<Rightarrow> 'u bindings \<Rightarrow> bool" for careful :: bool where
  drop: "subseq kept (bn_active B) \<Longrightarrow> bind_step careful B (B\<lparr>bn_active := kept\<rparr>)"
| grant: "lid \<notin> set (bn_ids B) \<Longrightarrow> mac \<notin> b_mac ` set (bn_active B) \<Longrightarrow>
    (\<exists>b \<in> set (bn_reserved B). b_mac b = mac \<and> b_ip b = ip) \<or>
    ip \<notin> b_ip ` set (bn_active B) \<union> b_ip ` set (bn_reserved B) \<Longrightarrow>
    bind_step careful B (B\<lparr>bn_ids := bn_ids B @ [lid], bn_active := bn_active B @ [(lid, mac, ip)]\<rparr>)"
| reserve: "rid \<notin> b_id ` set (bn_reserved B) \<Longrightarrow> mac \<notin> b_mac ` set (bn_reserved B) \<Longrightarrow>
    ip \<notin> b_ip ` set (bn_reserved B) \<Longrightarrow> careful \<longrightarrow> \<not> reserves_held mac ip B \<Longrightarrow>
    bind_step careful B (B\<lparr>bn_reserved := bn_reserved B @ [(rid, mac, ip)]\<rparr>)"
| unreserve: "bind_step careful B (B\<lparr>bn_reserved := filter P (bn_reserved B)\<rparr>)"

definition bind_ok :: "'u bindings \<Rightarrow> bool" where
  "bind_ok B \<longleftrightarrow> distinct (bn_ids B) \<and> b_id ` set (bn_active B) \<subseteq> set (bn_ids B) \<and>
     distinct (map b_id (bn_active B)) \<and> distinct (map b_mac (bn_active B)) \<and>
     distinct (map b_id (bn_reserved B)) \<and> distinct (map b_mac (bn_reserved B)) \<and> distinct (map b_ip (bn_reserved B))"

definition bind_unique :: "'u bindings \<Rightarrow> bool" where
  "bind_unique B \<longleftrightarrow> distinct (map b_ip (bn_active B)) \<and>
     (\<forall>b \<in> set (bn_active B). \<forall>r \<in> set (bn_reserved B). b_ip b = b_ip r \<longrightarrow> b_mac b = b_mac r)"

lemma bind_step_stutter: "bind_step careful B B"
  using bind_step.drop [of "bn_active B" B careful] by simp

lemma subseq_shrinks: "subseq xs ys \<Longrightarrow> set xs \<subseteq> set ys \<and> (distinct (map f ys) \<longrightarrow> distinct (map f xs))"
  by (induction rule: list_emb.induct) auto

lemma bind_step_ok: "bind_step careful B B' \<Longrightarrow> bind_ok B \<Longrightarrow> bind_ok B'"
proof (induction rule: bind_step.induct)
  case (drop kept B)
  then show ?case
    using subseq_shrinks [of kept "bn_active B" b_id] subseq_shrinks [of kept "bn_active B" b_mac]
    by (auto simp: bind_ok_def)
qed (auto simp: bind_ok_def distinct_map_filter)

lemma bind_step_unique:
  assumes "bind_step True B B'" "bind_ok B" "bind_unique B" shows "bind_unique B'"
  using assms
proof (induction rule: bind_step.induct)
  case (grant lid B mac ip)
  have "ip \<notin> b_ip ` set (bn_active B)"
  proof
    assume "ip \<in> b_ip ` set (bn_active B)"
    then obtain b where b: "b \<in> set (bn_active B)" "b_ip b = ip" by auto
    with grant.hyps(3) obtain r where "r \<in> set (bn_reserved B)" "b_mac r = mac" "b_ip r = ip" by auto
    with b grant.prems(2) have "b_mac b = mac" by (auto simp: bind_unique_def)
    with b grant.hyps(2) show False by auto
  qed
  moreover have "b_mac r = mac" if r: "r \<in> set (bn_reserved B)" "b_ip r = ip" for r
  proof -
    from r grant.hyps(3) obtain q where q: "q \<in> set (bn_reserved B)" "b_mac q = mac" "b_ip q = ip" by auto
    from grant.prems(1) have "inj_on b_ip (set (bn_reserved B))" by (simp add: bind_ok_def distinct_map)
    from inj_onD [OF this _ r(1) q(1)] r(2) q show ?thesis by simp
  qed
  ultimately show ?case using grant.prems(2) by (auto simp: bind_unique_def)
next
  case (drop kept B)
  then show ?case using subseq_shrinks [of kept "bn_active B" b_ip] by (auto simp: bind_unique_def)
next
  case (reserve rid B mac ip)
  then show ?case by (auto simp: bind_unique_def reserves_held_def)
qed (auto simp: bind_unique_def distinct_map_filter)

abbreviation bind_steps :: "bool \<Rightarrow> 'u bindings \<Rightarrow> 'u bindings \<Rightarrow> bool" where
  "bind_steps careful \<equiv> (bind_step careful)\<^sup>*\<^sup>*"

section \<open>From one call to histories\<close>

text \<open>
  What a component promises when every call is a sequence of steps of its abstraction: an invariant of
  the steps holds in every state a history of calls reaches, and so does a second one when only
  careful steps keep it and every call of the history is careful.
\<close>

locale call_simulation =
  fixes abs :: "'s \<Rightarrow> 'a" and astep :: "bool \<Rightarrow> 'a \<Rightarrow> 'a \<Rightarrow> bool"
    and call :: "'c \<Rightarrow> 's \<Rightarrow> 's" and careful :: "'c \<Rightarrow> 's \<Rightarrow> bool"
    and run :: "'c list \<Rightarrow> 's \<Rightarrow> 's" and all_careful :: "'c list \<Rightarrow> 's \<Rightarrow> bool"
    and ok :: "'a \<Rightarrow> bool" and good :: "'a \<Rightarrow> bool"
  assumes simulates: "ok (abs s) \<Longrightarrow> g \<longrightarrow> careful c s \<Longrightarrow> (astep g)\<^sup>*\<^sup>* (abs s) (abs (call c s))"
    and step_ok: "astep g a b \<Longrightarrow> ok a \<Longrightarrow> ok b"
    and step_good: "astep True a b \<Longrightarrow> ok a \<Longrightarrow> good a \<Longrightarrow> good b"
    and run_Nil: "run [] s = s" and run_Cons: "run (c # cs) s = run cs (call c s)"
    and all_careful_Cons: "all_careful (c # cs) s \<longleftrightarrow> careful c s \<and> all_careful cs (call c s)"
begin

lemma steps_ok: "(astep g)\<^sup>*\<^sup>* a b \<Longrightarrow> ok a \<Longrightarrow> ok b"
  by (induction rule: rtranclp_induct) (auto intro: step_ok)

lemma steps_good: "(astep True)\<^sup>*\<^sup>* a b \<Longrightarrow> ok a \<Longrightarrow> good a \<Longrightarrow> good b"
proof (induction rule: rtranclp_induct)
  case (step c d)
  then show ?case using steps_ok [OF step.hyps(1)] step_good [OF step.hyps(2)] by blast
qed

lemma call_ok: "ok (abs s) \<Longrightarrow> ok (abs (call c s))"
  using steps_ok [OF simulates [of s False c]] by simp

lemma run_ok: "ok (abs s) \<Longrightarrow> ok (abs (run cs s))"
  by (induction cs arbitrary: s) (simp_all add: run_Nil run_Cons call_ok)

lemma run_good: "ok (abs s) \<Longrightarrow> good (abs s) \<Longrightarrow> all_careful cs s \<Longrightarrow> good (abs (run cs s))"
proof (induction cs arbitrary: s)
  case (Cons c cs)
  from Cons.prems have c: "careful c s" "all_careful cs (call c s)" by (simp_all add: all_careful_Cons)
  from simulates [OF Cons.prems(1), of True c] c have "(astep True)\<^sup>*\<^sup>* (abs s) (abs (call c s))" by simp
  from steps_good [OF this Cons.prems(1,2)] Cons.IH [OF call_ok [OF Cons.prems(1)] _ c(2)] show ?case
    by (simp add: run_Cons)
qed (simp add: run_Nil)

end

section \<open>How the tables show bindings\<close>

definition binding_of :: "'u dhcp_lease \<Rightarrow> 'u binding" where
  "binding_of l = (dl_id l, dl_mac l, dl_ip l)"

definition reserved_binding :: "'u dhcp_reservation \<Rightarrow> 'u binding" where
  "reserved_binding r = (rs_id r, rs_mac r, rs_ip r)"

definition bindings_of :: "'u dhcp_state \<Rightarrow> 'u bindings" where
  "bindings_of S = \<lparr>bn_ids = map dl_id (dh_leases S), bn_active = map binding_of (list_active_leases S),
                    bn_reserved = map reserved_binding (dh_reservations S)\<rparr>"

lemma binding_sels [simp]:
  "b_id (binding_of l) = dl_id l" "b_mac (binding_of l) = dl_mac l" "b_ip (binding_of l) = dl_ip l"
  "b_id (reserved_binding r) = rs_id r" "b_mac (reserved_binding r) = rs_mac r" "b_ip (reserved_binding r) = rs_ip r"
  by (simp_all add: binding_of_def reserved_binding_def)

lemma bindings_sels [simp]:
  "bn_ids (bindings_of S) = map dl_id (dh_leases S)"
  "bn_active (bindings_of S) = map binding_of (list_active_leases S)"
  "bn_reserved (bindings_of S) = map reserved_binding (dh_reservations S)"
  by (simp_all add: bindings_of_def)

lemma bindings_irrelevant [simp]:
  "bindings_of (S\<lparr>dh_log := x\<rparr>) = bindings_of S" "bindings_of (S\<lparr>dh_config := c\<rparr>) = bindings_of S"
  "bindings_of (S\<lparr>dh_devices := d\<rparr>) = bindings_of S" "bindings_of (S\<lparr>dh_zones := z\<rparr>) = bindings_of S"
  "bindings_of (S\<lparr>dh_events := e\<rparr>) = bindings_of S"
  by (simp_all add: bindings_of_def list_active_leases_def)

lemma bindings_bookkeeping [simp]:
  "bindings_of (insert_lease_log E lid mac ev S) = bindings_of S" "bindings_of (config_set k v S) = bindings_of S"
  "bindings_of (set_managed did b S) = bindings_of S" "bindings_of (publish_event e S) = bindings_of S"
  "bindings_of (store_config E req S) = bindings_of S"
  by (simp_all add: insert_lease_log_def config_set_def set_managed_def publish_event_def store_config_def)

lemma bindings_keep:
  assumes "\<And>l. dl_id (f l) = dl_id l" "\<And>l. dl_mac (f l) = dl_mac l" "\<And>l. dl_ip (f l) = dl_ip l"
    "\<And>l. dl_status (f l) = dl_status l"
  shows "bindings_of (update_lease lid f S) = bindings_of S"
proof -
  have "filter (\<lambda>l. dl_status l = LeaseActive) (map (\<lambda>l. if dl_id l = lid then f l else l) ls) =
        map (\<lambda>l. if dl_id l = lid then f l else l) (filter (\<lambda>l. dl_status l = LeaseActive) ls)" for ls
    by (induction ls) (auto simp: assms)
  then show ?thesis
    by (auto simp: bindings_of_def list_active_leases_def update_lease_def binding_of_def assms)
qed

lemma active_drop:
  "st \<noteq> LeaseActive \<Longrightarrow>
   list_active_leases (update_lease_status now lid st S) = filter (\<lambda>l. dl_id l \<noteq> lid) (list_active_leases S)"
proof -
  assume "st \<noteq> LeaseActive"
  then have "filter (\<lambda>l. dl_status l = LeaseActive) (map (\<lambda>l. if dl_id l = lid then l\<lparr>dl_status := st, dl_updated := stamp now\<rparr> else l) ls) =
        filter (\<lambda>l. dl_id l \<noteq> lid) (filter (\<lambda>l. dl_status l = LeaseActive) ls)" for ls
    by (induction ls) auto
  then show ?thesis by (simp add: list_active_leases_def update_lease_status_def update_lease_def)
qed

lemma leases_ids_kept [simp]: "map dl_id (dh_leases (update_lease_status now lid st S)) = map dl_id (dh_leases S)"
  by (auto simp: update_lease_status_def update_lease_def)

lemma reservations_kept [simp]:
  "dh_reservations (update_lease_status now lid st S) = dh_reservations S"
  "dh_reservations (insert_lease_log E lid mac ev S) = dh_reservations S"
  "dh_reservations (publish_event e S) = dh_reservations S"
  "dh_reservations (config_set k v S) = dh_reservations S"
  by (simp_all add: update_lease_status_def update_lease_def insert_lease_log_def publish_event_def config_set_def)

lemma drop_step:
  "st \<noteq> LeaseActive \<Longrightarrow> bind_step careful (bindings_of S) (bindings_of (update_lease_status now lid st S))"
proof -
  assume st: "st \<noteq> LeaseActive"
  have "bindings_of (update_lease_status now lid st S) =
      (bindings_of S)\<lparr>bn_active := filter (\<lambda>b. b_id b \<noteq> lid) (bn_active (bindings_of S))\<rparr>"
    by (simp add: bindings_of_def active_drop [OF st] filter_map o_def)
  then show ?thesis by (simp only:) (rule bind_step.drop, rule subseq_filter_left)
qed

lemma renewals_keep_bindings [simp]:
  "bindings_of (renew_lease_row now lid new_end S) = bindings_of S"
  "bindings_of (update_lease_hostname now lid h S) = bindings_of S"
  by (simp_all add: renew_lease_row_def update_lease_hostname_def bindings_keep)

lemma expire_stale_step:
  "bind_step careful (bindings_of S) (bindings_of (snd (expire_stale_leases now S)))"
proof -
  have "map dl_id (map (\<lambda>l. if stale_lease now l then l\<lparr>dl_status := LeaseExpired, dl_updated := stamp now\<rparr> else l) ls) = map dl_id ls"
    "filter (\<lambda>l. dl_status l = LeaseActive) (map (\<lambda>l. if stale_lease now l then l\<lparr>dl_status := LeaseExpired, dl_updated := stamp now\<rparr> else l) ls) =
     filter (\<lambda>l. \<not> stale_lease now l) (filter (\<lambda>l. dl_status l = LeaseActive) ls)" for ls :: "'a dhcp_lease list"
    by (induction ls) (auto simp: stale_lease_def)
  then have "bindings_of (snd (expire_stale_leases now S)) =
      (bindings_of S)\<lparr>bn_active := map binding_of (filter (\<lambda>l. \<not> stale_lease now l) (list_active_leases S))\<rparr>"
    by (simp add: bindings_of_def expire_stale_leases_def list_active_leases_def del: map_map filter_filter)
  then show ?thesis by (simp only:) (rule bind_step.drop, simp add: subseq_map)
qed

section \<open>Every operation is a sequence of binding steps\<close>

lemma expire_lease_step: "bind_step careful (bindings_of S) (bindings_of (expire_lease E now l S))"
  by (simp add: expire_lease_def drop_step)

lemma find_active_SomeD:
  "find_active_lease_by_mac E mac S = Some l \<Longrightarrow>
   l \<in> set (list_active_leases S) \<and> dl_mac l = de_lower E mac \<and> dl_status l = LeaseActive"
  by (auto simp: find_active_lease_by_mac_def list_active_leases_def find_Some_iff)

lemma find_active_None:
  "find_active_lease_by_mac E mac S = None \<longleftrightarrow> de_lower E mac \<notin> dl_mac ` set (list_active_leases S)"
  by (auto simp: find_active_lease_by_mac_def list_active_leases_def find_None_iff image_iff)

lemma list_active_expire_lease:
  "list_active_leases (expire_lease E now l S) = filter (\<lambda>l'. dl_id l' \<noteq> dl_id l) (list_active_leases S)"
proof -
  have "list_active_leases (expire_lease E now l S) = list_active_leases (update_lease_status now (dl_id l) LeaseExpired S)"
    by (simp add: expire_lease_def insert_lease_log_def list_active_leases_def)
  then show ?thesis by (simp add: active_drop)
qed

lemma lease_if_still_valid_Some:
  "lease_if_still_valid E now mac a b S = (Some l, S') \<Longrightarrow>
   S' = S \<and> find_active_lease_by_mac E mac S = Some l \<and> still_valid (find_reservation_by_mac E mac S) a b l"
  by (auto simp: lease_if_still_valid_def split: option.splits if_splits)

lemma lease_if_still_valid_None:
  assumes "lease_if_still_valid E now mac a b S = (None, S')" "bind_ok (bindings_of S)"
  shows "bind_step careful (bindings_of S) (bindings_of S') \<and> de_lower E mac \<notin> dl_mac ` set (list_active_leases S')"
proof (cases "find_active_lease_by_mac E mac S")
  case None
  with assms(1) have "S' = S" by (simp add: lease_if_still_valid_def)
  with None show ?thesis by (simp add: bind_step_stutter find_active_None)
next
  case (Some l)
  with assms(1) have S': "S' = expire_lease E now l S"
    by (simp add: lease_if_still_valid_def split: if_splits)
  note l = find_active_SomeD [OF Some]
  from assms(2) have "inj_on dl_mac (set (list_active_leases S))"
    by (simp add: bind_ok_def distinct_map o_def)
  from inj_onD [OF this, of _ l] l
  have "dl_id l' = dl_id l" if "l' \<in> set (list_active_leases S)" "dl_mac l' = de_lower E mac" for l'
    using that by metis
  then show ?thesis unfolding S' by (auto simp: list_active_expire_lease expire_lease_step)
qed

lemma find_available_free: "find_available_ip S a b = Inr ip \<Longrightarrow> ip \<notin> used_ips S"
  by (auto simp: find_available_ip_def find_Some_iff split: option.splits)

lemma used_ips_iff: "ip \<in> used_ips S \<longleftrightarrow> ip \<in> dl_ip ` set (list_active_leases S) \<or> ip \<in> rs_ip ` set (dh_reservations S)"
  by (simp add: used_ips_def)

lemma find_reservation_SomeD:
  "find_reservation_by_mac E mac S = Some r \<Longrightarrow> r \<in> set (dh_reservations S) \<and> rs_mac r = de_lower E mac"
  by (auto simp: find_reservation_by_mac_def find_Some_iff)

lemma allocate_ip_sound:
  assumes "allocate_ip E scope mac S = Inr ip"
  shows "(\<exists>r \<in> set (dh_reservations S). rs_mac r = de_lower E mac \<and> rs_ip r = ip) \<or> ip \<notin> used_ips S"
  using assms find_available_free
  by (fastforce simp: allocate_ip_def usable_reservation_def dest: find_reservation_SomeD split: option.splits if_splits)

lemma insert_lease_grants:
  assumes "insert_lease E row S = Inr S'" "dl_status row = LeaseActive"
    and "de_lower E (dl_mac row) \<notin> dl_mac ` set (list_active_leases S)"
    and "(\<exists>r \<in> set (dh_reservations S). rs_mac r = de_lower E (dl_mac row) \<and> rs_ip r = dl_ip row) \<or> dl_ip row \<notin> used_ips S"
  shows "bind_step careful (bindings_of S) (bindings_of S')"
proof -
  from assms(1) have new: "dl_id row \<notin> dl_id ` set (dh_leases S)"
    and S': "S' = S\<lparr>dh_leases := dh_leases S @ [row\<lparr>dl_mac := de_lower E (dl_mac row)\<rparr>]\<rparr>"
    by (auto simp: insert_lease_def split: if_splits)
  have "bindings_of S' = (bindings_of S)\<lparr>bn_ids := bn_ids (bindings_of S) @ [dl_id row],
      bn_active := bn_active (bindings_of S) @ [(dl_id row, de_lower E (dl_mac row), dl_ip row)]\<rparr>"
    using assms(2) by (simp add: S' bindings_of_def list_active_leases_def binding_of_def)
  also have "bind_step careful (bindings_of S) \<dots>"
    using new assms(3,4) by (intro bind_step.grant) (auto simp: used_ips_iff image_image)
  finally show ?thesis by simp
qed

lemma new_lease_steps:
  assumes "de_lower E mac \<notin> dl_mac ` set (list_active_leases S)"
  shows "bind_step careful (bindings_of S) (bindings_of (snd (new_lease E now rid scope mac hostname S)))"
proof (cases "allocate_ip E scope mac S")
  case (Inr ip)
  let ?row = "\<lparr>dl_id = rid, dl_mac = mac, dl_ip = ip, dl_hostname = hostname, dl_start = now,
    dl_end = lease_end_at scope now, dl_status = LeaseActive, dl_device = None, dl_updated = stamp now\<rparr>"
  show ?thesis
  proof (cases "insert_lease E ?row S")
    case (Inr S1)
    from insert_lease_grants [OF this, of careful] assms allocate_ip_sound [OF \<open>allocate_ip E scope mac S = Inr ip\<close>]
    show ?thesis by (simp add: new_lease_def \<open>allocate_ip E scope mac S = Inr ip\<close> Inr internal_def attempt_def Let_def)
  qed (simp add: new_lease_def Inr internal_def attempt_def bind_step_stutter)
qed (simp add: new_lease_def attempt_def bind_step_stutter)

lemma assign_lease_steps:
  assumes "bind_ok (bindings_of S)"
  shows "bind_steps careful (bindings_of S) (bindings_of (snd (assign_lease ctx E now rid mac hostname S)))"
proof (cases "require_admin ctx")
  case (Inr u)
  show ?thesis
  proof (cases "resolve_scope E S mac")
    case (Inr scope)
    obtain found S1 where v: "lease_if_still_valid E now mac (ds_pool_start scope) (ds_pool_end scope) S = (found, S1)"
      by fastforce
    show ?thesis
    proof (cases found)
      case None
      from lease_if_still_valid_None [OF v [unfolded None] assms]
      have "bind_step careful (bindings_of S) (bindings_of S1)" "de_lower E mac \<notin> dl_mac ` set (list_active_leases S1)"
        by auto
      moreover note new_lease_steps [OF this(2), of careful now rid scope "normalised_hostname hostname"]
      ultimately show ?thesis
        by (simp add: assign_lease_def Inr \<open>require_admin ctx = Inr u\<close> attempt_def v None)
    next
      case (Some l)
      from lease_if_still_valid_Some [OF v [unfolded Some]] show ?thesis
        by (simp add: assign_lease_def Inr \<open>require_admin ctx = Inr u\<close> attempt_def v Some reuse_lease_def)
    qed
  qed (simp add: assign_lease_def Inr attempt_def)
qed (simp add: assign_lease_def attempt_def)

lemma renew_lease_steps:
  assumes "bind_ok (bindings_of S)"
  shows "bind_steps careful (bindings_of S) (bindings_of (snd (renew_lease ctx E now rid mac hostname S)))"
proof (cases "require_admin ctx")
  case (Inr u)
  show ?thesis
  proof (cases "resolve_scope E S mac")
    case (Inr scope)
    obtain found S1 where v: "lease_if_still_valid E now mac (ds_pool_start scope) (ds_pool_end scope) S = (found, S1)"
      by fastforce
    show ?thesis
    proof (cases found)
      case None
      from lease_if_still_valid_None [OF v [unfolded None] assms]
      have "bind_step careful (bindings_of S) (bindings_of S1)" by auto
      moreover from bind_step_ok [OF this assms] have "bind_ok (bindings_of S1)" .
      note assign_lease_steps [OF this, of careful ctx E now rid mac "normalised_hostname hostname"]
      ultimately show ?thesis
        by (simp add: renew_lease_def Inr \<open>require_admin ctx = Inr u\<close> attempt_def v None converse_rtranclp_into_rtranclp)
    next
      case (Some l)
      from lease_if_still_valid_Some [OF v [unfolded Some]] show ?thesis
        by (simp add: renew_lease_def Inr \<open>require_admin ctx = Inr u\<close> attempt_def v Some extend_lease_def Let_def)
    qed
  qed (simp add: renew_lease_def Inr attempt_def)
qed (simp add: renew_lease_def attempt_def)

lemma revoke_leases_outside_pool_steps:
  "bind_steps careful (bindings_of S) (bindings_of (revoke_leases_outside_pool E now a b S))"
proof -
  have "bind_steps careful (bindings_of T) (bindings_of (fold (expire_lease E now) ls T))" for ls T
  proof (induction ls arbitrary: T)
    case (Cons l ls)
    from converse_rtranclp_into_rtranclp [of "bind_step careful", OF expire_lease_step Cons.IH] show ?case by simp
  qed simp
  then show ?thesis by (simp add: revoke_leases_outside_pool_def)
qed

lemma create_reservation_steps:
  assumes "careful \<longrightarrow> (\<forall>ip. parse_ipv4 ip_address = Some ip \<longrightarrow> \<not> reserves_held (de_lower E mac) ip (bindings_of S))"
  shows "bind_steps careful (bindings_of S) (bindings_of (snd (create_reservation ctx E rid mac ip_address h d S)))"
proof -
  let ?row = "\<lambda>ip. \<lparr>rs_id = rid, rs_mac = mac, rs_ip = ip, rs_hostname = h, rs_description = d\<rparr>"
  have ins: "bind_step careful (bindings_of S) (bindings_of S')"
    if S': "insert_reservation E (?row ip) S = Inr S'" and ip: "parse_ipv4 ip_address = Some ip" for ip S'
  proof -
    from S' have new: "rid \<notin> rs_id ` set (dh_reservations S)" "de_lower E mac \<notin> rs_mac ` set (dh_reservations S)"
      "ip \<notin> rs_ip ` set (dh_reservations S)"
      and "S' = S\<lparr>dh_reservations := dh_reservations S @ [(?row ip)\<lparr>rs_mac := de_lower E mac\<rparr>]\<rparr>"
      by (auto simp: insert_reservation_def Let_def split: if_splits)
    then have "bindings_of S' = (bindings_of S)\<lparr>bn_reserved := bn_reserved (bindings_of S) @ [(rid, de_lower E mac, ip)]\<rparr>"
      by (simp add: bindings_of_def list_active_leases_def reserved_binding_def)
    also have "bind_step careful (bindings_of S) \<dots>"
      using new assms ip by (intro bind_step.reserve) (auto simp: image_image)
    finally show ?thesis by simp
  qed
  show ?thesis
    by (auto simp: create_reservation_def attempt_def internal_def ok_or_def require_def Let_def
        split: sum.splits option.splits if_splits dest: ins)
qed

lemma delete_reservation_steps:
  "bind_steps careful (bindings_of S) (bindings_of (snd (delete_reservation ctx E rid S)))"
proof -
  have "bindings_of (delete_reservation_row rid S) =
      (bindings_of S)\<lparr>bn_reserved := filter (\<lambda>b. b_id b \<noteq> rid) (bn_reserved (bindings_of S))\<rparr>"
    by (simp add: delete_reservation_row_def bindings_of_def list_active_leases_def filter_map o_def)
  then have "bind_step careful (bindings_of S) (bindings_of (delete_reservation_row rid S))"
    by (simp only:) (rule bind_step.unreserve)
  then show ?thesis
    by (auto simp: delete_reservation_def attempt_def require_def split: sum.splits if_splits)
qed

section \<open>Histories of the service\<close>

text \<open>
  One call of the service, with the caller's identity. \<open>OpElsewhere\<close> is any change the rest of the
  program makes to the device, zone and settings tables between two calls.
\<close>

datatype 'u dhcp_op =
    OpAssign int 'u string "string option"
  | OpRenew int 'u string "string option"
  | OpRelease int string
  | OpRevoke int 'u
  | OpReserve 'u string string "string option" "string option"
  | OpUnreserve 'u
  | OpConfig int dhcp_config_request
  | OpToggle bool
  | OpCleanup int
  | OpElsewhere "'u device_row list" "'u zone_row list" "string \<rightharpoonup> string"

fun run_op :: "('u, 'n) dhcp_env \<Rightarrow> 'u auth_context option \<Rightarrow> 'u dhcp_op \<Rightarrow> 'u dhcp_state \<Rightarrow> 'u dhcp_state" where
  "run_op E ctx (OpAssign now rid mac h) S = snd (assign_lease ctx E now rid mac h S)"
| "run_op E ctx (OpRenew now rid mac h) S = snd (renew_lease ctx E now rid mac h S)"
| "run_op E ctx (OpRelease now mac) S = snd (release_lease ctx E now mac S)"
| "run_op E ctx (OpRevoke now lid) S = snd (revoke_lease ctx E now lid S)"
| "run_op E ctx (OpReserve rid mac ip h d) S = snd (create_reservation ctx E rid mac ip h d S)"
| "run_op E ctx (OpUnreserve rid) S = snd (delete_reservation ctx E rid S)"
| "run_op E ctx (OpConfig now req) S = snd (update_config ctx E now req S)"
| "run_op E ctx (OpToggle on) S = snd (toggle ctx E on S)"
| "run_op E ctx (OpCleanup now) S = snd (cleanup_expired ctx now S)"
| "run_op E ctx (OpElsewhere devs zs cfg) S = S\<lparr>dh_devices := devs, dh_zones := zs, dh_config := cfg\<rparr>"

text \<open>A call is careful unless it reserves an address that another client holds a lease on.\<close>

fun careful_op :: "('u, 'n) dhcp_env \<Rightarrow> 'u dhcp_op \<Rightarrow> 'u dhcp_state \<Rightarrow> bool" where
  "careful_op E (OpReserve rid mac ip h d) S =
     (case parse_ipv4 ip of Some a \<Rightarrow> \<not> reserves_held (de_lower E mac) a (bindings_of S) | None \<Rightarrow> True)"
| "careful_op E _ S = True"

type_synonym 'u dhcp_history = "('u auth_context option \<times> 'u dhcp_op) list"

fun run_ops :: "('u, 'n) dhcp_env \<Rightarrow> 'u dhcp_history \<Rightarrow> 'u dhcp_state \<Rightarrow> 'u dhcp_state" where
  "run_ops E [] S = S"
| "run_ops E ((ctx, op) # ops) S = run_ops E ops (run_op E ctx op S)"

fun careful_ops :: "('u, 'n) dhcp_env \<Rightarrow> 'u dhcp_history \<Rightarrow> 'u dhcp_state \<Rightarrow> bool" where
  "careful_ops E [] S = True"
| "careful_ops E ((ctx, op) # ops) S = (careful_op E op S \<and> careful_ops E ops (run_op E ctx op S))"

lemma drop_steps:
  "st \<noteq> LeaseActive \<Longrightarrow> bind_steps careful (bindings_of S) (bindings_of (update_lease_status now lid st S))"
  by (rule r_into_rtranclp) (rule drop_step)

lemma handler_steps:
  assumes "\<And>x. bind_steps c (bindings_of S) (bindings_of (snd (k x)))"
  shows "bind_steps c (bindings_of S) (bindings_of (snd (attempt r S k)))"
  using assms by (cases r) (simp_all add: attempt_def)

lemma run_op_steps:
  assumes ok: "bind_ok (bindings_of S)" and careful: "careful \<longrightarrow> careful_op E op S"
  shows "bind_steps careful (bindings_of S) (bindings_of (run_op E ctx op S))"
proof (cases op)
  case (OpReserve rid mac ip h d)
  with careful show ?thesis by (auto intro!: create_reservation_steps)
next
  case (OpConfig now req)
  have "bind_steps careful (bindings_of S) (bindings_of (revoke_leases_outside_pool E now a b (store_config E req S)))" for a b
    using revoke_leases_outside_pool_steps [of careful "store_config E req S"] by simp
  then show ?thesis by (auto simp: OpConfig update_config_def Let_def intro!: handler_steps)
next
  case (OpRelease now mac)
  then show ?thesis
    by (auto simp: release_lease_def drop_steps split: option.splits intro!: handler_steps)
next
  case (OpRevoke now lid)
  then show ?thesis by (auto simp: revoke_lease_def drop_steps intro!: handler_steps)
next
  case (OpCleanup now)
  then show ?thesis using expire_stale_step [of careful S now]
    by (auto simp: cleanup_expired_def split: prod.splits intro!: handler_steps)
next
  case (OpToggle on)
  then show ?thesis by (auto simp: toggle_def Let_def intro!: handler_steps)
qed (simp_all add: assign_lease_steps [OF ok] renew_lease_steps [OF ok] delete_reservation_steps)

interpretation dhcp: call_simulation bindings_of bind_step "\<lambda>(ctx, op). run_op E ctx op" "\<lambda>(ctx, op). careful_op E op"
    "run_ops E" "careful_ops E" bind_ok bind_unique for E :: "('u, 'n) dhcp_env"
proof (unfold_locales, goal_cases)
  case (1 S g c)
  then show ?case by (cases c) (simp add: run_op_steps)
next
  case (2 g B B')
  then show ?case by (rule bind_step_ok)
next
  case (3 B B')
  then show ?case by (rule bind_step_unique)
qed (simp_all split: prod.splits)

text \<open>
  C27: In every state a history of calls reaches, lease ids are unique, no client (by hardware
  address) holds two active leases, and no two reservations share a client or an address.
\<close>

theorem one_lease_per_client:
  assumes "bind_ok (bindings_of S)" and "S' = run_ops E ops S"
  shows "distinct (map dl_id (dh_leases S')) \<and> distinct (map dl_mac (list_active_leases S')) \<and>
         distinct (map rs_mac (dh_reservations S')) \<and> distinct (map rs_ip (dh_reservations S'))"
  using dhcp.run_ok [OF assms(1), of E ops] unfolding assms(2) by (simp add: bind_ok_def o_def)

text \<open>
  C5: As long as no call reserves an address another client holds a lease on, no address is leased to
  two clients, and a reserved address is leased to nobody but the client it is reserved for.
\<close>

theorem no_address_twice:
  assumes "bind_ok (bindings_of S)" and "bind_unique (bindings_of S)" and "careful_ops E ops S"
    and "S' = run_ops E ops S"
  shows "distinct (map dl_ip (list_active_leases S')) \<and>
         (\<forall>l \<in> set (list_active_leases S'). \<forall>r \<in> set (dh_reservations S'). dl_ip l = rs_ip r \<longrightarrow> dl_mac l = rs_mac r)"
  using dhcp.run_good [OF assms(1-3)] unfolding assms(4) by (simp add: bind_unique_def o_def)

section \<open>What a client is granted\<close>

lemma find_by_key:
  "inj_on f (set xs) \<Longrightarrow> find (\<lambda>x. f x = k) xs = Some x \<longleftrightarrow> x \<in> set xs \<and> f x = k"
  by (induction xs) (auto split: if_splits)

lemma find_active_alt: "find_active_lease_by_mac E mac S = find (\<lambda>l. dl_mac l = de_lower E mac) (list_active_leases S)"
proof -
  have "find (\<lambda>l. P l \<and> Q l) xs = find P (filter Q xs)" for P Q :: "'a dhcp_lease \<Rightarrow> bool" and xs
    by (induction xs) auto
  then show ?thesis by (simp add: find_active_lease_by_mac_def list_active_leases_def)
qed

lemma find_active_iff:
  "bind_ok (bindings_of S) \<Longrightarrow>
   find_active_lease_by_mac E mac S = Some l \<longleftrightarrow> l \<in> set (list_active_leases S) \<and> dl_mac l = de_lower E mac"
  unfolding find_active_alt by (rule find_by_key) (simp add: bind_ok_def distinct_map o_def)

lemma find_by_id_iff:
  "bind_ok (bindings_of S) \<Longrightarrow> find_lease_by_id lid S = Some l \<longleftrightarrow> l \<in> set (dh_leases S) \<and> dl_id l = lid"
  unfolding find_lease_by_id_def by (rule find_by_key) (simp add: bind_ok_def distinct_map)

lemma update_lease_twice:
  "(\<And>l. dl_id (f l) = dl_id l) \<Longrightarrow> update_lease lid g (update_lease lid f S) = update_lease lid (g \<circ> f) S"
  by (simp add: update_lease_def)

lemma found_after_update:
  assumes "bind_ok (bindings_of S)" "l \<in> set (list_active_leases S)" "dl_mac l = de_lower E mac"
    and g: "\<And>l. dl_id (g l) = dl_id l" "\<And>l. dl_mac (g l) = dl_mac l" "\<And>l. dl_ip (g l) = dl_ip l" "\<And>l. dl_status (g l) = dl_status l"
  shows "find_lease_by_id (dl_id l) (update_lease (dl_id l) g S) = Some (g l)"
    and "find_active_lease_by_mac E mac (update_lease (dl_id l) g S) = Some (g l)"
proof -
  have ok: "bind_ok (bindings_of (update_lease (dl_id l) g S))" using assms(1) by (simp add: bindings_keep g)
  have l: "g l \<in> set (dh_leases (update_lease (dl_id l) g S))" "dl_status (g l) = LeaseActive"
    using assms(2) by (auto simp: update_lease_def list_active_leases_def g image_iff)
  show "find_lease_by_id (dl_id l) (update_lease (dl_id l) g S) = Some (g l)"
    using l by (simp add: find_by_id_iff [OF ok] g)
  show "find_active_lease_by_mac E mac (update_lease (dl_id l) g S) = Some (g l)"
    unfolding find_active_iff [OF ok] using l assms(3) by (simp add: list_active_leases_def g)
qed

lemma lookups_bookkeeping [simp]:
  "find_lease_by_id lid (insert_lease_log E i m ev S) = find_lease_by_id lid S"
  "find_lease_by_id lid (publish_event e S) = find_lease_by_id lid S"
  "find_active_lease_by_mac E mac (insert_lease_log E' i m ev S) = find_active_lease_by_mac E mac S"
  "find_active_lease_by_mac E mac (publish_event e S) = find_active_lease_by_mac E mac S"
  by (simp_all add: find_lease_by_id_def find_active_lease_by_mac_def insert_lease_log_def publish_event_def)

lemma extend_lease_outcome:
  assumes "bind_ok (bindings_of S)" "find_active_lease_by_mac E mac S = Some l"
    and "extend_lease E now scope mac h l S = (r, S')"
  shows "\<exists>l'. r = Inr l' \<and> find_active_lease_by_mac E mac S' = Some l' \<and> dl_ip l' = dl_ip l \<and>
              dl_id l' = dl_id l \<and> dl_end l' = lease_end_at scope now"
proof -
  let ?n = "\<lambda>l. l\<lparr>dl_end := lease_end_at scope now, dl_updated := stamp now\<rparr>"
  let ?h = "\<lambda>l. l\<lparr>dl_hostname := h, dl_updated := stamp now\<rparr>"
  note l = find_active_SomeD [OF assms(2)]
  note upd = found_after_update [OF assms(1), of l E mac]
  show ?thesis
    using assms(3) upd [of ?n] upd [of "?h \<circ> ?n"] l
    by (auto simp: extend_lease_def Let_def ok_or_def renew_lease_row_def update_lease_hostname_def
        update_lease_twice split: if_splits)
qed

lemma pool_addresses: "set (map word_of_nat [unat a ..< Suc (unat b)]) = {ip. ip_in_pool ip a b}" for a b :: ipv4
proof (intro equalityI subsetI)
  fix ip :: ipv4 assume "ip \<in> set (map word_of_nat [unat a ..< Suc (unat b)])"
  then obtain n where n: "ip = word_of_nat n" "unat a \<le> n" "n \<le> unat b" by auto
  have "unat b < 2 ^ 32" by (rule order_less_le_trans [OF unsigned_less]) simp
  with n(3) have "n < 2 ^ 32" by simp
  then have "unat ip = n" by (simp add: n(1) unat_of_nat take_bit_nat_eq_self)
  with n show "ip \<in> {ip. ip_in_pool ip a b}" by (simp add: ip_in_pool_def word_le_nat_alt)
next
  fix ip assume "ip \<in> {ip. ip_in_pool ip a b}"
  then have "unat ip \<in> set [unat a ..< Suc (unat b)]" by (auto simp: ip_in_pool_def word_le_nat_alt)
  then have "(word_of_nat (unat ip) :: ipv4) \<in> set (map word_of_nat [unat a ..< Suc (unat b)])" unfolding set_map by (rule imageI)
  then show "ip \<in> set (map word_of_nat [unat a ..< Suc (unat b)])" by simp
qed

lemma find_in: "find P xs = Some x \<Longrightarrow> x \<in> set xs \<and> P x"
  by (auto simp: find_Some_iff)

lemma find_available_exhausted:
  "find_available_ip S a b = Inl e \<longleftrightarrow>
   e = Conflict ''DHCP pool exhausted - no available IP addresses'' \<and> (\<forall>ip. ip_in_pool ip a b \<longrightarrow> ip \<in> used_ips S)"
proof -
  obtain pool :: "ipv4 list" where pool: "map word_of_nat [unat a ..< Suc (unat b)] = pool" by simp
  have "find (\<lambda>ip. ip \<notin> used_ips S) pool = None \<longleftrightarrow> (\<forall>ip. ip_in_pool ip a b \<longrightarrow> ip \<in> used_ips S)"
    using pool_addresses [of a b] unfolding pool find_None_iff by auto
  then show ?thesis unfolding find_available_ip_def pool by (auto split: option.splits)
qed

lemma find_available_in_pool:
  assumes "find_available_ip S a b = Inr ip" shows "ip_in_pool ip a b"
proof -
  from assms have "ip \<in> set (map word_of_nat [unat a ..< Suc (unat b)])"
    unfolding find_available_ip_def by (auto dest: find_in simp del: upt_Suc set_map split: option.splits)
  then show ?thesis unfolding pool_addresses by simp
qed

definition justified :: "('u, 'n) dhcp_env \<Rightarrow> 'u dhcp_state \<Rightarrow> dhcp_scope \<Rightarrow> string \<Rightarrow> ipv4 \<Rightarrow> bool" where
  "justified E S scope mac ip =
     (case find_reservation_by_mac E mac S of
        Some r \<Rightarrow> ip = rs_ip r \<or> \<not> compatible E scope r \<and> ip_in_pool ip (ds_pool_start scope) (ds_pool_end scope)
      | None \<Rightarrow> ip_in_pool ip (ds_pool_start scope) (ds_pool_end scope))"

definition exhausted :: "('u, 'n) dhcp_env \<Rightarrow> 'u dhcp_state \<Rightarrow> dhcp_scope \<Rightarrow> string \<Rightarrow> app_error \<Rightarrow> bool" where
  "exhausted E S scope mac e \<longleftrightarrow>
     e = Conflict ''DHCP pool exhausted - no available IP addresses'' \<and> usable_reservation E scope mac S = None \<and>
     (\<forall>ip. ip_in_pool ip (ds_pool_start scope) (ds_pool_end scope) \<longrightarrow> ip \<in> used_ips S)"

lemma still_valid_justified:
  "still_valid (find_reservation_by_mac E mac S) (ds_pool_start scope) (ds_pool_end scope) l \<Longrightarrow>
   justified E S scope mac (dl_ip l)"
  by (auto simp: still_valid_def justified_def split: option.splits)

lemma allocate_ip_justified: "allocate_ip E scope mac S = Inr ip \<Longrightarrow> justified E S scope mac ip"
  by (auto simp: allocate_ip_def usable_reservation_def justified_def find_available_in_pool split: option.splits if_splits)

lemma new_lease_outcome:
  assumes "de_lower E mac \<notin> dl_mac ` set (list_active_leases S)" "rid \<notin> dl_id ` set (dh_leases S)"
    and "new_lease E now rid scope mac h S = (r, S')"
  shows "(\<exists>l. r = Inr l \<and> find_active_lease_by_mac E mac S' = Some l \<and> justified E S scope mac (dl_ip l) \<and>
              dl_end l = lease_end_at scope now) \<or>
         (\<exists>e. r = Inl e \<and> S' = S \<and> exhausted E S scope mac e)"
proof (cases "allocate_ip E scope mac S")
  case (Inl e)
  with assms(3) show ?thesis
    by (auto simp: new_lease_def attempt_def allocate_ip_def exhausted_def find_available_exhausted split: option.splits)
next
  case (Inr ip)
  have none: "find (\<lambda>l. dl_mac l = de_lower E mac \<and> dl_status l = LeaseActive) (dh_leases S) = None"
    "find (\<lambda>l. dl_id l = rid) (dh_leases S) = None"
    using assms(1,2) by (auto simp: find_None_iff list_active_leases_def image_iff)
  have app: "find P (xs @ [x]) = (case find P xs of Some y \<Rightarrow> Some y | None \<Rightarrow> if P x then Some x else None)"
    for P :: "'a dhcp_lease \<Rightarrow> bool" and xs x by (induction xs) auto
  have fresh: "\<not> (\<exists>l \<in> set (dh_leases S). dl_id l = rid)" using assms(2) by auto
  from assms(3) show ?thesis
    by (auto simp: fresh new_lease_def Inr attempt_def internal_def insert_lease_def find_lease_by_id_def find_active_lease_by_mac_def
        app none ok_or_def Let_def insert_lease_log_def publish_event_def allocate_ip_justified [OF Inr])
qed

lemma config_get_cong: "dh_config S = dh_config S' \<Longrightarrow> config_get S = config_get S'"
  by (intro ext) (simp add: config_get_def)

lemma load_config_cong: "dh_config S = dh_config S' \<Longrightarrow> load_config E S = load_config E S'"
proof -
  assume "dh_config S = dh_config S'"
  from config_get_cong [OF this] show ?thesis by (simp only: load_config_def)
qed

lemma resolve_scope_cong:
  assumes "dh_config S = dh_config S'" "dh_devices S = dh_devices S'" "dh_zones S = dh_zones S'"
  shows "resolve_scope E S mac = resolve_scope E S' mac"
proof -
  have "resolve_zone_for_mac E S mac = resolve_zone_for_mac E S' mac"
    by (simp add: resolve_zone_for_mac_def find_device_by_mac_def find_zone_by_id_def find_default_for_new_def assms split: option.splits)
  moreover have "base_scope S = base_scope S'" "zone_scope E S = zone_scope E S'"
    by (intro ext, simp only: base_scope_def zone_scope_def wardnet_dns_enabled_def config_get_cong [OF assms(1)])+
  ultimately show ?thesis by (simp only: resolve_scope_def load_config_cong [OF assms(1)])
qed

lemma scope_of_leases: "resolve_scope E (expire_lease E now l S) mac = resolve_scope E S mac"
  by (rule resolve_scope_cong)
    (simp_all add: expire_lease_def insert_lease_log_def update_lease_status_def update_lease_def)

lemma expire_lease_keeps:
  "find_reservation_by_mac E mac (expire_lease E now l S) = find_reservation_by_mac E mac S"
  "dl_id ` set (dh_leases (expire_lease E now l S)) = dl_id ` set (dh_leases S)"
proof -
  have "map dl_id (dh_leases (expire_lease E now l S)) = map dl_id (dh_leases S)"
    by (simp add: expire_lease_def insert_lease_log_def update_lease_status_def update_lease_def)
  from arg_cong [OF this, of set] show "dl_id ` set (dh_leases (expire_lease E now l S)) = dl_id ` set (dh_leases S)" by simp
qed (simp add: find_reservation_by_mac_def expire_lease_def insert_lease_log_def update_lease_status_def update_lease_def)

lemma lease_if_still_valid_keeps:
  assumes "lease_if_still_valid E now mac a b S = (None, S')"
  shows "resolve_scope E S' mac = resolve_scope E S mac"
    "justified E S' scope mac = justified E S scope mac" "dl_id ` set (dh_leases S') = dl_id ` set (dh_leases S)"
proof -
  from assms consider "S' = S" | l where "S' = expire_lease E now l S"
    by (auto simp: lease_if_still_valid_def split: option.splits if_splits)
  then show "resolve_scope E S' mac = resolve_scope E S mac"
    "justified E S' scope mac = justified E S scope mac" "dl_id ` set (dh_leases S') = dl_id ` set (dh_leases S)"
    by (cases; simp add: scope_of_leases justified_def expire_lease_keeps fun_eq_iff)+
qed

definition lease_granted where
  "lease_granted E S scope mac S' l \<longleftrightarrow>
     (\<exists>l'. find_active_lease_by_mac E mac S' = Some l' \<and> dl_id l' = dl_id l \<and> dl_ip l' = dl_ip l \<and> dl_hostname l' = dl_hostname l \<and>
           dl_end l' = dl_end l) \<and>
     justified E S scope mac (dl_ip l)"

lemma assign_lease_outcome:
  assumes ok: "bind_ok (bindings_of S)" and admin: "require_admin ctx = Inr u" and scope: "resolve_scope E S mac = Inr scope"
    and fresh: "rid \<notin> dl_id ` set (dh_leases S)" and run: "assign_lease ctx E now rid mac h S = (r, S')"
  shows "(\<exists>l. r = Inr l \<and> lease_granted E S scope mac S' l) \<or> (\<exists>e. r = Inl e \<and> exhausted E S' scope mac e)"
proof -
  obtain found S1 where v: "lease_if_still_valid E now mac (ds_pool_start scope) (ds_pool_end scope) S = (found, S1)"
    by fastforce
  show ?thesis
  proof (cases found)
    case None
    note v = v [unfolded None]
    from run have new: "new_lease E now rid scope mac (normalised_hostname h) S1 = (r, S')"
      by (simp add: assign_lease_def admin scope attempt_def v)
    from lease_if_still_valid_None [OF v ok] have "de_lower E mac \<notin> dl_mac ` set (list_active_leases S1)" by simp
    from new_lease_outcome [OF this _ new] fresh lease_if_still_valid_keeps [OF v] show ?thesis
      by (auto simp: lease_granted_def)
  next
    case (Some l)
    from lease_if_still_valid_Some [OF v [unfolded Some]]
    have S1: "S1 = S" and active: "find_active_lease_by_mac E mac S = Some l" and justified: "justified E S scope mac (dl_ip l)"
      by (auto intro: still_valid_justified)
    from run have reuse: "r = Inr (fst (reuse_lease E now mac (normalised_hostname h) l S))"
      "S' = snd (reuse_lease E now mac (normalised_hostname h) l S)"
      by (auto simp: assign_lease_def admin scope attempt_def v Some S1 split: prod.splits)
    note upd = found_after_update [OF ok, of l E mac "\<lambda>l. l\<lparr>dl_hostname := normalised_hostname h, dl_updated := stamp now\<rparr>"]
    show ?thesis
      using upd find_active_SomeD [OF active] active justified
      by (simp add: reuse reuse_lease_def lease_granted_def update_lease_hostname_def)
  qed
qed

lemma renew_lease_outcome:
  assumes ok: "bind_ok (bindings_of S)" and admin: "require_admin ctx = Inr u" and scope: "resolve_scope E S mac = Inr scope"
    and fresh: "rid \<notin> dl_id ` set (dh_leases S)" and run: "renew_lease ctx E now rid mac h S = (r, S')"
  shows "case r of
           Inr l \<Rightarrow> find_active_lease_by_mac E mac S' = Some l \<and> justified E S scope mac (dl_ip l) \<and> dl_end l = lease_end_at scope now
         | Inl e \<Rightarrow> exhausted E S' scope mac e"
proof -
  obtain found S1 where v: "lease_if_still_valid E now mac (ds_pool_start scope) (ds_pool_end scope) S = (found, S1)"
    by fastforce
  show ?thesis
  proof (cases found)
    case None
    note v = v [unfolded None] note keeps = lease_if_still_valid_keeps [OF v]
    from lease_if_still_valid_None [OF v ok] have none: "de_lower E mac \<notin> dl_mac ` set (list_active_leases S1)" by simp
    then have "lease_if_still_valid E now mac (ds_pool_start scope) (ds_pool_end scope) S1 = (None, S1)"
      by (simp add: lease_if_still_valid_def find_active_None [THEN iffD2])
    with run have "new_lease E now rid scope mac (normalised_hostname (normalised_hostname h)) S1 = (r, S')"
      by (simp add: renew_lease_def assign_lease_def admin scope attempt_def v keeps(1))
    from new_lease_outcome [OF none _ this] fresh keeps show ?thesis by auto
  next
    case (Some l)
    from lease_if_still_valid_Some [OF v [unfolded Some]]
    have S1: "S1 = S" and active: "find_active_lease_by_mac E mac S = Some l" and j: "justified E S scope mac (dl_ip l)"
      by (auto intro: still_valid_justified)
    from run have "extend_lease E now scope mac (normalised_hostname h) l S = (r, S')"
      by (simp add: renew_lease_def admin scope attempt_def v Some S1)
    from extend_lease_outcome [OF ok active this] j show ?thesis by auto
  qed
qed


section \<open>Changing the settings\<close>

lemma leases_outside_store: "leases_outside_pool a b (store_config E req S) = leases_outside_pool a b S"
  by (simp add: leases_outside_pool_def pinned_def list_active_leases_def store_config_def config_set_def)

lemma list_active_store: "list_active_leases (store_config E req S) = list_active_leases S"
  by (simp add: list_active_leases_def store_config_def config_set_def)

lemma fold_expire_active:
  "list_active_leases (fold (expire_lease E now) ls S) = filter (\<lambda>l. dl_id l \<notin> dl_id ` set ls) (list_active_leases S)"
proof (induction ls arbitrary: S)
  case (Cons x ls)
  have "(dl_id l \<notin> dl_id ` set ls \<and> dl_id l \<noteq> dl_id x) = (dl_id l \<notin> dl_id ` set (x # ls))" for l by auto
  then show ?case by (simp add: Cons list_active_expire_lease)
qed simp

lemma check_config_pool:
  "check_config_request req = Inr pool \<Longrightarrow> parse_pool_range (cq_pool_start req) (cq_pool_end req) = Inr pool"
  by (auto simp: check_config_request_def split: sum.splits option.splits if_splits)

text \<open>
  C30: The leases a preview lists are exactly the leases the same change of the pool ends: after the
  update the others, and only they, are still active.
\<close>

theorem preview_is_what_update_revokes:
  assumes ok: "bind_ok (bindings_of S)" and admin: "require_admin ctx = Inr u" and req: "check_config_request req = Inr pool"
  shows "\<exists>affected. preview_config ctx (cq_pool_start req) (cq_pool_end req) S = (Inr affected, S) \<and>
           list_active_leases (snd (update_config ctx E now req S)) = filter (\<lambda>l. l \<notin> set affected) (list_active_leases S)"
proof -
  obtain a b where pool: "pool = (a, b)" by fastforce
  let ?gone = "leases_outside_pool a b S"
  from ok have inj: "inj_on dl_id (set (list_active_leases S))" by (simp add: bind_ok_def distinct_map o_def)
  have sub: "set ?gone \<subseteq> set (list_active_leases S)" by (auto simp: leases_outside_pool_def)
  have "dl_id l \<in> dl_id ` set ?gone \<longleftrightarrow> l \<in> set ?gone" if "l \<in> set (list_active_leases S)" for l
    using inj_on_image_mem_iff [OF inj that sub] .
  then have "list_active_leases (snd (update_config ctx E now req S)) = filter (\<lambda>l. l \<notin> set ?gone) (list_active_leases S)"
    by (simp add: update_config_def admin req pool attempt_def Let_def revoke_leases_outside_pool_def fold_expire_active
        list_active_store leases_outside_store cong: filter_cong)
  moreover have "preview_config ctx (cq_pool_start req) (cq_pool_end req) S = (Inr ?gone, S)"
    by (simp add: preview_config_def admin attempt_def check_config_pool [OF req] pool)
  ultimately show ?thesis by blast
qed

lemma fold_expire_config: "dh_config (fold (expire_lease E now) ls S) = dh_config S"
  by (induction ls arbitrary: S)
    (simp_all add: expire_lease_def insert_lease_log_def update_lease_status_def update_lease_def)

lemma parse_ipv4_Nil: "parse_ipv4 [] = None" by code_simp

lemma those_parsed: "find (\<lambda>d. parse_ipv4 d = None) xs = None \<Longrightarrow> those (map parse_ipv4 xs) = Some (map (the \<circ> parse_ipv4) xs)"
  by (induction xs) (auto split: if_splits)

text \<open>
  C31: A change of the settings that is accepted is in force when the call returns: reading the
  settings back gives the addresses, resolvers, lease time and router of the request, and leaves the
  on/off switch alone. The JSON library reads back the list it wrote.
\<close>

theorem config_roundtrip:
  assumes admin: "require_admin ctx = Inr u" and req: "check_config_request req = Inr (pool_start, pool_end)"
    and json: "de_json_parse E (de_json_print E (cq_upstream_dns req)) = Some (cq_upstream_dns req)"
    and u32: "cq_lease_duration_secs req < 2 ^ 32"
  shows "\<exists>mask. parse_ipv4 (cq_subnet_mask req) = Some mask \<and>
    fst (update_config ctx E now req S) = Inr
      \<lparr>dc_enabled = (config_get S ''dhcp_enabled'' ''false'' = ''true''), dc_gateway_ip = de_gateway_ip E,
       dc_pool_start = pool_start, dc_pool_end = pool_end, dc_subnet_mask = mask,
       dc_upstream_dns = map (the \<circ> parse_ipv4) (cq_upstream_dns req),
       dc_lease_duration_secs = cq_lease_duration_secs req, dc_router_ip = Option.bind (cq_router_ip req) parse_ipv4\<rparr>"
proof -
  from check_config_pool [OF req] have pool: "parse_ipv4 (cq_pool_start req) = Some pool_start" "parse_ipv4 (cq_pool_end req) = Some pool_end"
    by (auto simp: parse_pool_range_def split: option.splits if_splits)
  from req obtain mask where mask: "parse_ipv4 (cq_subnet_mask req) = Some mask"
    and dns: "find (\<lambda>d. parse_ipv4 d = None) (cq_upstream_dns req) = None"
    and router: "\<forall>r. cq_router_ip req = Some r \<longrightarrow> parse_ipv4 r \<noteq> None"
    by (auto simp: check_config_request_def split: sum.splits option.splits if_splits)
  define T where "T = revoke_leases_outside_pool E now pool_start pool_end (store_config E req S)"
  have T: "dh_config T = dh_config (store_config E req S)" by (simp add: T_def revoke_leases_outside_pool_def fold_expire_config)
  have cfg: "config_get T k d = config_get (store_config E req S) k d" for k d by (simp add: config_get_def T)
  have gets: "config_get (store_config E req S) ''dhcp_pool_start'' d = cq_pool_start req"
    "config_get (store_config E req S) ''dhcp_pool_end'' d = cq_pool_end req"
    "config_get (store_config E req S) ''dhcp_subnet_mask'' d = cq_subnet_mask req"
    "config_get (store_config E req S) ''dhcp_upstream_dns'' d = de_json_print E (cq_upstream_dns req)"
    "config_get (store_config E req S) ''dhcp_lease_duration_secs'' d = show_nat (cq_lease_duration_secs req)"
    "config_get (store_config E req S) ''dhcp_router_ip'' d = (case cq_router_ip req of Some r \<Rightarrow> r | None \<Rightarrow> [])"
    "config_get (store_config E req S) ''dhcp_enabled'' d = config_get S ''dhcp_enabled'' d" for d
    by (simp_all add: config_get_def store_config_def config_set_def)
  have r: "(case cq_router_ip req of Some r \<Rightarrow> r | None \<Rightarrow> []) = [] \<longleftrightarrow> cq_router_ip req = None"
    using router parse_ipv4_Nil by (auto split: option.splits)
  obtain a b c d where o: "octets (de_gateway_ip E) = (a, b, c, d)" by (cases "octets (de_gateway_ip E)") auto
  have "load_config E T = Inr
      \<lparr>dc_enabled = (config_get S ''dhcp_enabled'' ''false'' = ''true''), dc_gateway_ip = de_gateway_ip E,
       dc_pool_start = pool_start, dc_pool_end = pool_end, dc_subnet_mask = mask,
       dc_upstream_dns = map (the \<circ> parse_ipv4) (cq_upstream_dns req),
       dc_lease_duration_secs = cq_lease_duration_secs req, dc_router_ip = Option.bind (cq_router_ip req) parse_ipv4\<rparr>"
    using u32 router by (cases "cq_router_ip req")
      (auto simp: load_config_def o cfg gets r invalid_def ok_or_def pool mask json parse_all_def those_parsed [OF dns]
        parse_uint_show_nat parse_ipv4_Nil Let_def split: option.splits)
  then show ?thesis using mask by (simp add: update_config_def admin req attempt_def Let_def T_def)
qed

section \<open>A small network\<close>

definition lan :: "(nat, ipv4 \<times> nat) dhcp_env" where
  "lan = \<lparr>de_net = ex_ipnet, de_lower = map ascii_lower, de_json_parse = (\<lambda>_. Some []), de_json_print = (\<lambda>_. ''[]''),
          de_ustr = show_nat, de_gateway_ip = ipv4_new 10 0 0 1\<rparr>"

definition lan_settings :: "string \<rightharpoonup> string" where
  "lan_settings = [''dhcp_pool_start'' \<mapsto> ''10.0.0.5'', ''dhcp_pool_end'' \<mapsto> ''10.0.0.6'', ''dns_enabled'' \<mapsto> ''true'']"

definition lan_start :: "nat dhcp_state" where
  "lan_start = \<lparr>dh_leases = [], dh_reservations = [], dh_log = [], dh_config = lan_settings, dh_devices = [], dh_zones = [],
                dh_events = []\<rparr>"

definition lan_scope :: dhcp_scope where
  "lan_scope = \<lparr>ds_gateway_ip = ipv4_new 10 0 0 1, ds_pool_start = ipv4_new 10 0 0 5, ds_pool_end = ipv4_new 10 0 0 6,
     ds_subnet_mask = ipv4_new 255 255 255 0, ds_dns = [ipv4_new 10 0 0 1], ds_lease_duration_secs = 86400,
     ds_router_ip = None, ds_member_isolation = False, ds_subnet_prefix = None\<rparr>"

abbreviation root_user :: "nat auth_context option" where "root_user \<equiv> Some (User 0 AdminRole)"

lemma dotted_parses: "ipv4_to_string (ipv4_new a b c d) = s \<Longrightarrow> parse_ipv4 s = Some (ipv4_new a b c d)"
  using parse_ipv4_to_string by blast

lemma number_parses: "show_nat n = s \<Longrightarrow> n \<le> lim \<Longrightarrow> parse_uint lim s = Some n"
  using parse_uint_show_nat by blast

lemma lan_parses:
  "parse_ipv4 ''10.0.0.5'' = Some (ipv4_new 10 0 0 5)" "parse_ipv4 ''10.0.0.6'' = Some (ipv4_new 10 0 0 6)"
  "parse_ipv4 ''255.255.255.0'' = Some (ipv4_new 255 255 255 0)" "parse_uint 4294967295 ''86400'' = Some 86400"
  by (rule dotted_parses number_parses;
      simp add: ipv4_to_string_def octets_def ipv4_new_def show_nat.simps digit_char_def code_def; code_simp)+

lemma lan_resolve:
  assumes "dh_config S = lan_settings" "dh_devices S = []" "dh_zones S = []"
  shows "resolve_scope lan S mac = Inr lan_scope"
  using assms
  by (simp add: resolve_scope_def load_config_def lan_def config_get_def lan_settings_def invalid_def ok_or_def
      lan_parses parse_all_def resolve_zone_for_mac_def find_device_by_mac_def find_default_for_new_def base_scope_def
      wardnet_dns_enabled_def DNS_ENABLED_KEY_def advertised_dns_def lan_scope_def octets_def Let_def)

lemma lan_pool: "map word_of_nat [unat (ipv4_new 10 0 0 5) ..< Suc (unat (ipv4_new 10 0 0 6))] = [ipv4_new 10 0 0 5, ipv4_new 10 0 0 6]"
  by (simp add: ipv4_new_def)

lemmas lan_step = assign_lease_def renew_lease_def attempt_def require_admin_def lan_resolve lease_if_still_valid_def
  find_active_lease_by_mac_def new_lease_def allocate_ip_def usable_reservation_def find_reservation_by_mac_def find_available_ip_def
  used_ips_def list_active_leases_def lan_pool insert_lease_def internal_def normalised_hostname_def insert_lease_log_def
  publish_event_def find_lease_by_id_def ok_or_def Let_def

lemma lan_lower [simp]: "de_lower lan s = map ascii_lower s" by (simp add: lan_def)

lemma lan_scope_sels [simp]:
  "ds_pool_start lan_scope = ipv4_new 10 0 0 5" "ds_pool_end lan_scope = ipv4_new 10 0 0 6" "ds_subnet_prefix lan_scope = None"
  "ds_lease_duration_secs lan_scope = 86400"
  by (simp_all add: lan_scope_def)

lemma lan_chars [simp]: "ascii_lower CHR ''a'' = CHR ''a''" "ascii_lower CHR ''b'' = CHR ''b''"
  by code_simp+

definition lan_after_first :: "nat dhcp_state" where
  "lan_after_first = run_ops lan [(root_user, OpAssign 0 1 ''aa'' None)] lan_start"

lemma lan_first:
  "dh_config lan_after_first = lan_settings" "dh_devices lan_after_first = []" "dh_zones lan_after_first = []"
  "dh_reservations lan_after_first = []"
  "map binding_of (dh_leases lan_after_first) = [(1, ''aa'', ipv4_new 10 0 0 5)]"
  by (simp_all add: lan_after_first_def lan_start_def lan_step binding_of_def del: upt_Suc)

lemma lan_start_ok: "bind_ok (bindings_of lan_start)" "bind_unique (bindings_of lan_start)"
  by (simp_all add: lan_start_def bind_ok_def bind_unique_def list_active_leases_def)

lemma lan_first_active: "map binding_of (list_active_leases lan_after_first) = [(1, ''aa'', ipv4_new 10 0 0 5)]"
  by (simp add: lan_after_first_def lan_start_def lan_step binding_of_def del: upt_Suc)

theorem one_lease_per_client_witness:
  "distinct (map dl_mac (list_active_leases lan_after_first)) \<and>
   map binding_of (list_active_leases lan_after_first) = [(1, ''aa'', ipv4_new 10 0 0 5)]"
  using one_lease_per_client [OF lan_start_ok(1) lan_after_first_def] lan_first_active by blast

theorem no_address_twice_witness:
  "distinct (map dl_ip (list_active_leases lan_after_first)) \<and>
   map binding_of (list_active_leases lan_after_first) = [(1, ''aa'', ipv4_new 10 0 0 5)]"
  using no_address_twice [OF lan_start_ok _ lan_after_first_def] lan_first_active by simp

definition lan_lease :: "nat dhcp_lease" where
  "lan_lease = \<lparr>dl_id = 1, dl_mac = ''aa'', dl_ip = ipv4_new 10 0 0 5, dl_hostname = None, dl_start = 0,
     dl_end = 86400 * NANOS_PER_SEC, dl_status = LeaseActive, dl_device = None, dl_updated = 0\<rparr>"

lemma lan_renew: "renew_lease root_user lan 0 1 ''aa'' None lan_start =
  (Inr lan_lease, lan_start\<lparr>dh_leases := [lan_lease], dh_log := [\<lparr>lg_lease = 1, lg_mac = ''aa'', lg_event = EvAssigned\<rparr>],
     dh_events := [DhcpLeaseAssigned 1 ''aa'' (ipv4_new 10 0 0 5) None]\<rparr>)"
  by (simp add: lan_start_def lan_step lan_lease_def lease_end_at_def stamp_def del: upt_Suc)


definition lan_request :: dhcp_config_request where
  "lan_request = \<lparr>cq_pool_start = ''10.0.0.6'', cq_pool_end = ''10.0.0.6'', cq_subnet_mask = ''255.255.255.0'',
     cq_upstream_dns = [], cq_lease_duration_secs = 3600, cq_router_ip = None\<rparr>"

lemma lan_request_ok: "check_config_request lan_request = Inr (ipv4_new 10 0 0 6, ipv4_new 10 0 0 6)"
  by (simp add: check_config_request_def lan_request_def parse_pool_range_def lan_parses is_private_def octets_def ipv4_new_def)

theorem preview_is_what_update_revokes_witness:
  "\<exists>affected. preview_config root_user ''10.0.0.6'' ''10.0.0.6'' lan_after_first = (Inr affected, lan_after_first) \<and>
     list_active_leases (snd (update_config root_user lan 0 lan_request lan_after_first)) =
       filter (\<lambda>l. l \<notin> set affected) (list_active_leases lan_after_first)"
proof -
  have "bind_ok (bindings_of lan_after_first)"
    unfolding lan_after_first_def by (rule dhcp.run_ok) (rule lan_start_ok)
  from preview_is_what_update_revokes [OF this _ lan_request_ok, of root_user "()" lan 0] show ?thesis
    by (simp add: require_admin_def lan_request_def)
qed

theorem config_roundtrip_witness:
  "fst (update_config root_user lan 0 lan_request lan_start) = Inr
     \<lparr>dc_enabled = False, dc_gateway_ip = ipv4_new 10 0 0 1, dc_pool_start = ipv4_new 10 0 0 6, dc_pool_end = ipv4_new 10 0 0 6,
      dc_subnet_mask = ipv4_new 255 255 255 0, dc_upstream_dns = [], dc_lease_duration_secs = 3600, dc_router_ip = None\<rparr>"
  using config_roundtrip [OF _ lan_request_ok, of root_user "()" lan 0 lan_start]
  by (simp add: require_admin_def lan_def lan_request_def lan_parses config_get_def lan_start_def lan_settings_def)


text \<open>
  Only the two ends of a pool are checked to be private addresses: a pool from \<open>10.255.255.254\<close> to
  \<open>172.16.0.1\<close> is accepted and holds the public address \<open>100.0.0.1\<close>.
\<close>

theorem pool_may_span_public:
  "\<exists>start end'. parse_pool_range ''10.255.255.254'' ''172.16.0.1'' = Inr (start, end') \<and>
     ip_in_pool (ipv4_new 100 0 0 1) start end' \<and> \<not> is_private (ipv4_new 100 0 0 1)"
proof -
  have "parse_ipv4 ''10.255.255.254'' = Some (ipv4_new 10 255 255 254)" "parse_ipv4 ''172.16.0.1'' = Some (ipv4_new 172 16 0 1)"
    by (rule dotted_parses;
        simp add: ipv4_to_string_def octets_def ipv4_new_def show_nat.simps digit_char_def code_def; code_simp)+
  then show ?thesis
    by (simp add: parse_pool_range_def ip_in_pool_def is_private_def octets_def ipv4_new_def)
qed

end
