(* ===== verification/Dhcp_Server.thy ===== *)
theory Dhcp_Server
  imports Dhcp_Leases
begin

unbundle bit_operations_syntax

text \<open>
  The DHCP server in front of the lease service (\<open>wardnetd/src/dhcp/server.rs\<close>): what a received
  datagram is checked for, the replies to \<open>DISCOVER\<close>, \<open>REQUEST\<close> and \<open>RELEASE\<close> and where they are sent,
  and the dispatcher that runs the handlers of different clients at the same time and those of one
  client one after the other.

  A message of the \<open>dhcproto\<close> crate is a record of the header fields and a map from option codes to
  options (an option stands under its own code). Decoding and encoding datagrams and the rendering
  of vendor bytes as text are parameters.
\<close>

section \<open>Messages\<close>

datatype message_type = Discover | Offer | Request | Decline | Ack | Nak | Release | Inform | OtherType nat

datatype dhcp_option =
    OptSubnetMask ipv4
  | OptRouter "ipv4 list"
  | OptDomainNameServer "ipv4 list"
  | OptHostname string
  | OptRequestedIpAddress ipv4
  | OptAddressLeaseTime nat
  | OptMessageType message_type
  | OptServerIdentifier ipv4
  | OptParameterRequestList "nat list"
  | OptClassIdentifier "nat list"
  | OptClasslessStaticRoute "((ipv4 \<times> nat) \<times> ipv4) list"
  | OptOther nat "nat list"

fun opt_code :: "dhcp_option \<Rightarrow> nat" where
  "opt_code (OptSubnetMask _) = 1"
| "opt_code (OptRouter _) = 3"
| "opt_code (OptDomainNameServer _) = 6"
| "opt_code (OptHostname _) = 12"
| "opt_code (OptRequestedIpAddress _) = 50"
| "opt_code (OptAddressLeaseTime _) = 51"
| "opt_code (OptMessageType _) = 53"
| "opt_code (OptServerIdentifier _) = 54"
| "opt_code (OptParameterRequestList _) = 55"
| "opt_code (OptClassIdentifier _) = 60"
| "opt_code (OptClasslessStaticRoute _) = 121"
| "opt_code (OptOther n _) = n"

type_synonym dhcp_options = "nat \<rightharpoonup> dhcp_option"

datatype opcode = BootRequest | BootReply | OtherOpcode nat

record dhcp_message =
  mg_opcode :: opcode
  mg_htype :: nat
  mg_hlen :: nat
  mg_xid :: "32 word"
  mg_flags :: "16 word"
  mg_ciaddr :: ipv4
  mg_yiaddr :: ipv4
  mg_siaddr :: ipv4
  mg_giaddr :: ipv4
  mg_chaddr :: "nat list"
  mg_opts :: dhcp_options

definition HTYPE_ETH :: nat where "HTYPE_ETH = 1"

definition opt_insert :: "dhcp_option \<Rightarrow> dhcp_options \<Rightarrow> dhcp_options" where
  "opt_insert opt opts = opts(opt_code opt \<mapsto> opt)"

definition msg_type :: "dhcp_message \<Rightarrow> message_type option" where
  "msg_type m = (case mg_opts m 53 of Some (OptMessageType t) \<Rightarrow> Some t | _ \<Rightarrow> None)"

definition broadcast_flag :: "dhcp_message \<Rightarrow> bool" where "broadcast_flag m = bit (mg_flags m) 15"

definition set_broadcast :: "16 word \<Rightarrow> 16 word" where "set_broadcast f = f OR 0x8000"

text \<open>The hardware address is the first \<open>hlen\<close> bytes of a 16-byte field; a longer one panics.\<close>

definition chaddr :: "dhcp_message \<Rightarrow> nat list option" where
  "chaddr m = (if mg_hlen m \<le> 16 then Some (take (mg_hlen m) (mg_chaddr m)) else None)"

definition set_chaddr :: "nat list \<Rightarrow> dhcp_message \<Rightarrow> dhcp_message" where
  "set_chaddr a m = m\<lparr>mg_hlen := length a, mg_chaddr := a @ replicate (16 - length a) 0\<rparr>"

definition default_message :: dhcp_message where
  "default_message = \<lparr>mg_opcode = BootRequest, mg_htype = HTYPE_ETH, mg_hlen = 0, mg_xid = 0, mg_flags = 0, mg_ciaddr = 0,
     mg_yiaddr = 0, mg_siaddr = 0, mg_giaddr = 0, mg_chaddr = replicate 16 0, mg_opts = Map.empty\<rparr>"

definition hex_digit :: "nat \<Rightarrow> char" where
  "hex_digit n = (if n < 10 then char_of (48 + n) else char_of (87 + n))"

definition hex_byte :: "nat \<Rightarrow> string" where "hex_byte b = [hex_digit (b div 16), hex_digit (b mod 16)]"

fun join_with :: "string \<Rightarrow> string list \<Rightarrow> string" where
  "join_with sep [] = []"
| "join_with sep [x] = x"
| "join_with sep (x # y # rest) = x @ sep @ join_with sep (y # rest)"

definition format_mac :: "nat list \<Rightarrow> string" where
  "format_mac address = join_with '':'' (map hex_byte (if length address \<ge> 6 then take 6 address else address))"

definition extract_requested_ip :: "dhcp_message \<Rightarrow> ipv4" where
  "extract_requested_ip m =
     (if mg_ciaddr m \<noteq> 0 then mg_ciaddr m
      else (case mg_opts m 50 of Some (OptRequestedIpAddress ip) \<Rightarrow> ip | _ \<Rightarrow> 0))"

definition extract_hostname :: "dhcp_message \<Rightarrow> string option" where
  "extract_hostname m = (case mg_opts m 12 of Some (OptHostname h) \<Rightarrow> Some h | _ \<Rightarrow> None)"

definition extract_param_list :: "dhcp_message \<Rightarrow> string option" where
  "extract_param_list m =
     (case mg_opts m 55 of
        Some (OptParameterRequestList codes) \<Rightarrow> (if codes = [] then None else Some (join_with '','' (map show_nat codes)))
      | _ \<Rightarrow> None)"

definition extract_vendor_class :: "(nat list \<Rightarrow> string) \<Rightarrow> dhcp_message \<Rightarrow> string option" where
  "extract_vendor_class lossy m =
     (case mg_opts m 60 of
        Some (OptClassIdentifier raw) \<Rightarrow> (let t = trim (lossy raw) in if t = [] then None else Some t)
      | _ \<Rightarrow> None)"

datatype signal_kind = DhcpHostname | DhcpParamList | DhcpVendorClass

definition dhcp_signals :: "(nat list \<Rightarrow> string) \<Rightarrow> dhcp_message \<Rightarrow> (signal_kind \<times> string) list" where
  "dhcp_signals lossy m =
     List.map_filter (\<lambda>(kind, v). case v of Some x \<Rightarrow> Some (kind, x) | None \<Rightarrow> None)
       [(DhcpHostname, extract_hostname m), (DhcpParamList, extract_param_list m), (DhcpVendorClass, extract_vendor_class lossy m)]"

section \<open>Replies\<close>

type_synonym socket_addr = "ip_addr \<times> nat"

abbreviation BROADCAST_CLIENTS :: socket_addr where "BROADCAST_CLIENTS \<equiv> (V4 (- 1), 68)"

text \<open>A reply carries the client's hardware address back; \<open>None\<close> is the panic of reading it.\<close>

definition build_nak :: "dhcp_message \<Rightarrow> dhcp_scope \<Rightarrow> dhcp_message option" where
  "build_nak request scope =
     (case chaddr request of
        None \<Rightarrow> None
      | Some address \<Rightarrow>
          Some ((set_chaddr address
                   (default_message\<lparr>mg_opcode := BootReply, mg_xid := mg_xid request, mg_flags := set_broadcast 0\<rparr>))
             \<lparr>mg_opts := opt_insert (OptServerIdentifier (ds_gateway_ip scope)) (opt_insert (OptMessageType Nak) Map.empty)\<rparr>))"

definition routers_of :: "dhcp_scope \<Rightarrow> ipv4 list" where
  "routers_of scope =
     ds_gateway_ip scope #
       (case ds_router_ip scope of Some r \<Rightarrow> (if r \<noteq> ds_gateway_ip scope then [r] else []) | None \<Rightarrow> [])"

definition response_options :: "message_type \<Rightarrow> dhcp_scope \<Rightarrow> dhcp_options" where
  "response_options t scope =
     (let server_ip = ds_gateway_ip scope;
          dns = (if ds_dns scope = [] then [server_ip] else ds_dns scope);
          opts = opt_insert (OptDomainNameServer dns) (opt_insert (OptRouter (routers_of scope))
            (opt_insert (OptSubnetMask (ds_subnet_mask scope)) (opt_insert (OptAddressLeaseTime (ds_lease_duration_secs scope))
            (opt_insert (OptServerIdentifier server_ip) (opt_insert (OptMessageType t) Map.empty)))))
      in if ds_member_isolation scope then opt_insert (OptClasslessStaticRoute [((0, 0), server_ip)]) opts else opts)"

definition build_response :: "dhcp_message \<Rightarrow> message_type \<Rightarrow> 'u dhcp_lease \<Rightarrow> dhcp_scope \<Rightarrow> dhcp_message option" where
  "build_response request t lease scope =
     (case chaddr request of
        None \<Rightarrow> None
      | Some address \<Rightarrow>
          Some ((set_chaddr address
                   (default_message\<lparr>mg_opcode := BootReply, mg_xid := mg_xid request, mg_yiaddr := dl_ip lease,
                      mg_siaddr := ds_gateway_ip scope, mg_flags := (if broadcast_flag request then set_broadcast 0 else 0)\<rparr>))
             \<lparr>mg_opts := response_options t scope\<rparr>))"

fun ip_unspecified :: "ip_addr \<Rightarrow> bool" where
  "ip_unspecified (V4 a) = (a = 0)"
| "ip_unspecified (V6 a) = (a = 0)"

definition reply_destination :: "dhcp_message \<Rightarrow> dhcp_message \<Rightarrow> socket_addr \<Rightarrow> socket_addr" where
  "reply_destination request reply src_addr =
     (if mg_giaddr request \<noteq> 0 then (V4 (mg_giaddr request), 67)
      else if msg_type reply = Some Nak then BROADCAST_CLIENTS
      else if broadcast_flag request then BROADCAST_CLIENTS
      else if ip_unspecified (fst src_addr) then BROADCAST_CLIENTS
      else src_addr)"

section \<open>Handling one message\<close>

text \<open>The server calls the service as the system user, whose id is the nil \<open>Uuid\<close>.\<close>

abbreviation system_ctx :: "'u \<Rightarrow> 'u auth_context option" where "system_ctx nil \<equiv> Some (User nil AdminRole)"

definition handle_discover ::
    "'u \<Rightarrow> ('u, 'n) dhcp_env \<Rightarrow> int \<Rightarrow> 'u \<Rightarrow> dhcp_message \<Rightarrow> string \<Rightarrow> 'u dhcp_state \<Rightarrow>
     (app_error + dhcp_message option) \<times> 'u dhcp_state" where
  "handle_discover nil E now rid m mac S =
     (let (r, S1) = assign_lease (system_ctx nil) E now rid mac (extract_hostname m) S in
      attempt r S1 (\<lambda>lease.
      attempt (scope_for_mac (system_ctx nil) E mac S1) S1 (\<lambda>scope.
        (Inr (build_response m Offer lease scope), S1))))"

definition handle_request ::
    "'u \<Rightarrow> ('u, 'n) dhcp_env \<Rightarrow> int \<Rightarrow> 'u \<Rightarrow> dhcp_message \<Rightarrow> string \<Rightarrow> 'u dhcp_state \<Rightarrow>
     (app_error + dhcp_message option) \<times> 'u dhcp_state" where
  "handle_request nil E now rid m mac S =
     (let (r, S1) = renew_lease (system_ctx nil) E now rid mac (extract_hostname m) S in
      attempt r S1 (\<lambda>lease.
      attempt (scope_for_mac (system_ctx nil) E mac S1) S1 (\<lambda>scope.
        (if extract_requested_ip m \<noteq> 0 \<and> dl_ip lease \<noteq> extract_requested_ip m then (Inr (build_nak m scope), S1)
         else (Inr (build_response m Ack lease scope), S1)))))"

definition handle_release ::
    "'u \<Rightarrow> ('u, 'n) dhcp_env \<Rightarrow> int \<Rightarrow> string \<Rightarrow> socket_addr \<Rightarrow> 'u dhcp_state \<Rightarrow> 'u dhcp_state" where
  "handle_release nil E now mac src_addr S =
     (let claimed_ip = (case fst src_addr of V4 a \<Rightarrow> a | V6 _ \<Rightarrow> 0) in
      if claimed_ip = 0 \<or> claimed_ip = - 1 then S
      else (case active_lease (system_ctx nil) E mac S of
              Inl _ \<Rightarrow> S
            | Inr None \<Rightarrow> S
            | Inr (Some lease) \<Rightarrow>
                if dl_ip lease \<noteq> claimed_ip then S else snd (release_lease (system_ctx nil) E now mac S)))"

datatype handled = Panicked | NoReply | Reply dhcp_message socket_addr

definition replied :: "app_error + dhcp_message option \<Rightarrow> (dhcp_message \<Rightarrow> socket_addr) \<Rightarrow> handled" where
  "replied r dest =
     (case r of Inl _ \<Rightarrow> NoReply | Inr None \<Rightarrow> Panicked | Inr (Some reply) \<Rightarrow> Reply reply (dest reply))"

fun handle_packet ::
    "'u \<Rightarrow> ('u, 'n) dhcp_env \<Rightarrow> int \<Rightarrow> 'u \<Rightarrow> message_type \<Rightarrow> dhcp_message \<Rightarrow> string \<Rightarrow> socket_addr \<Rightarrow> 'u dhcp_state \<Rightarrow>
     handled \<times> 'u dhcp_state" where
  "handle_packet nil E now rid Discover m mac src_addr S =
     (let (r, S') = handle_discover nil E now rid m mac S in (replied r (\<lambda>_. BROADCAST_CLIENTS), S'))"
| "handle_packet nil E now rid Request m mac src_addr S =
     (let (r, S') = handle_request nil E now rid m mac S in (replied r (\<lambda>reply. reply_destination m reply src_addr), S'))"
| "handle_packet nil E now rid Release m mac src_addr S = (NoReply, handle_release nil E now mac src_addr S)"
| "handle_packet nil E now rid _ m mac src_addr S = (NoReply, S)"

text \<open>The identification signals a message is recorded for, on the side.\<close>

definition recorded_signals :: "(nat list \<Rightarrow> string) \<Rightarrow> message_type \<Rightarrow> dhcp_message \<Rightarrow> (signal_kind \<times> string) list" where
  "recorded_signals lossy t m = (if t = Discover \<or> t = Request then dhcp_signals lossy m else [])"

definition send_response :: "(dhcp_message \<Rightarrow> nat list option) \<Rightarrow> handled \<Rightarrow> (nat list \<times> socket_addr) list" where
  "send_response encode h =
     (case h of Reply m dest \<Rightarrow> (case encode m of Some bytes \<Rightarrow> [(bytes, dest)] | None \<Rightarrow> []) | _ \<Rightarrow> [])"

section \<open>Receiving\<close>

datatype received = Ignored | LoopPanics | ToDispatch message_type dhcp_message string socket_addr

definition server_receive ::
    "(nat list \<Rightarrow> dhcp_message option) \<Rightarrow> string set \<Rightarrow> nat list \<Rightarrow> socket_addr \<Rightarrow> received" where
  "server_receive decode own_macs packet src_addr =
     (case decode packet of
        None \<Rightarrow> Ignored
      | Some m \<Rightarrow>
          if mg_htype m \<noteq> HTYPE_ETH \<or> mg_hlen m \<noteq> 6 then Ignored
          else (case msg_type m of
                  None \<Rightarrow> Ignored
                | Some t \<Rightarrow>
                    (case chaddr m of
                       None \<Rightarrow> LoopPanics
                     | Some address \<Rightarrow>
                         (let mac = format_mac address in
                          if mac \<in> own_macs then Ignored else ToDispatch t m mac src_addr))))"

definition decode_bounded :: "(nat list \<Rightarrow> dhcp_message option) \<Rightarrow> nat list \<Rightarrow> dhcp_message option" where
  "decode_bounded decode packet =
     (case decode packet of Some m \<Rightarrow> (if mg_hlen m \<le> 16 then Some m else None) | None \<Rightarrow> None)"

section \<open>The dispatcher\<close>

text \<open>
  \<open>sp_inflight\<close> maps a client with a running handler to the packet waiting behind it. A task that has
  given its slot back still holds its permit for a moment (\<open>Leaving\<close>). The two histories record which
  packets arrived and which a handler took up.
\<close>

definition MAX_CONCURRENT_HANDLERS :: nat where "MAX_CONCURRENT_HANDLERS = 64"

type_synonym pending_packet = "message_type \<times> dhcp_message \<times> socket_addr"

datatype task = Handling string pending_packet | Leaving

record dispatcher =
  sp_inflight :: "string \<rightharpoonup> pending_packet option"
  sp_tasks :: "task list"
  sp_arrived :: "(string \<times> pending_packet) list"
  sp_started :: "(string \<times> pending_packet) list"

definition dispatcher_new :: dispatcher where
  "dispatcher_new = \<lparr>sp_inflight = Map.empty, sp_tasks = [], sp_arrived = [], sp_started = []\<rparr>"

definition dispatch :: "string \<Rightarrow> pending_packet \<Rightarrow> dispatcher \<Rightarrow> dispatcher" where
  "dispatch mac p D0 =
     (let D = D0\<lparr>sp_arrived := sp_arrived D0 @ [(mac, p)]\<rparr> in
      case sp_inflight D mac of
        Some slot \<Rightarrow>
          (case slot of
             Some queued \<Rightarrow>
               (if fst queued = Release then D else D\<lparr>sp_inflight := (sp_inflight D)(mac \<mapsto> Some p)\<rparr>)
           | None \<Rightarrow> D\<lparr>sp_inflight := (sp_inflight D)(mac \<mapsto> Some p)\<rparr>)
      | None \<Rightarrow>
          (if length (sp_tasks D) \<ge> MAX_CONCURRENT_HANDLERS then D
           else D\<lparr>sp_inflight := (sp_inflight D)(mac \<mapsto> None), sp_tasks := sp_tasks D @ [Handling mac p],
                  sp_started := sp_started D @ [(mac, p)]\<rparr>))"

text \<open>A handler came back: it takes up the waiting packet, or gives its client's slot back.\<close>

definition handler_done :: "nat \<Rightarrow> dispatcher \<Rightarrow> dispatcher" where
  "handler_done i D =
     (case sp_tasks D ! i of
        Handling mac _ \<Rightarrow>
          (case sp_inflight D mac of
             Some (Some next_packet) \<Rightarrow>
               D\<lparr>sp_inflight := (sp_inflight D)(mac \<mapsto> None), sp_tasks := (sp_tasks D)[i := Handling mac next_packet],
                 sp_started := sp_started D @ [(mac, next_packet)]\<rparr>
           | _ \<Rightarrow> D\<lparr>sp_inflight := (sp_inflight D)(mac := None), sp_tasks := (sp_tasks D)[i := Leaving]\<rparr>)
      | Leaving \<Rightarrow> D)"

text \<open>A handler panicked: the guard gives the slot back, with the packet waiting in it.\<close>

definition handler_panicked :: "nat \<Rightarrow> dispatcher \<Rightarrow> dispatcher" where
  "handler_panicked i D =
     (case sp_tasks D ! i of
        Handling mac _ \<Rightarrow> D\<lparr>sp_inflight := (sp_inflight D)(mac := None), sp_tasks := (sp_tasks D)[i := Leaving]\<rparr>
      | Leaving \<Rightarrow> D)"

definition permit_returned :: "nat \<Rightarrow> dispatcher \<Rightarrow> dispatcher" where
  "permit_returned i D = D\<lparr>sp_tasks := take i (sp_tasks D) @ drop (Suc i) (sp_tasks D)\<rparr>"

inductive dispatcher_step :: "dispatcher \<Rightarrow> dispatcher \<Rightarrow> bool" where
  arrives: "dispatcher_step D (dispatch mac p D)"
| returns: "i < length (sp_tasks D) \<Longrightarrow> sp_tasks D ! i = Handling mac p \<Longrightarrow> dispatcher_step D (handler_done i D)"
| panics: "i < length (sp_tasks D) \<Longrightarrow> sp_tasks D ! i = Handling mac p \<Longrightarrow> dispatcher_step D (handler_panicked i D)"
| leaves: "i < length (sp_tasks D) \<Longrightarrow> sp_tasks D ! i = Leaving \<Longrightarrow> dispatcher_step D (permit_returned i D)"

text \<open>Draining takes every permit, which is possible only when no task holds one.\<close>

definition drained :: "dispatcher \<Rightarrow> bool" where
  "drained D \<longleftrightarrow> MAX_CONCURRENT_HANDLERS - length (sp_tasks D) \<ge> MAX_CONCURRENT_HANDLERS"

section \<open>The dispatcher's invariant\<close>

fun handles :: "string \<Rightarrow> task \<Rightarrow> bool" where
  "handles mac (Handling m _) = (m = mac)"
| "handles mac Leaving = False"

definition running_for :: "string \<Rightarrow> dispatcher \<Rightarrow> nat" where
  "running_for mac D = length (filter (handles mac) (sp_tasks D))"

definition packets_of :: "string \<Rightarrow> (string \<times> pending_packet) list \<Rightarrow> pending_packet list" where
  "packets_of mac log = map snd (filter (\<lambda>x. fst x = mac) log)"

definition waiting_for :: "string \<Rightarrow> dispatcher \<Rightarrow> pending_packet list" where
  "waiting_for mac D = (case sp_inflight D mac of Some (Some p) \<Rightarrow> [p] | _ \<Rightarrow> [])"

definition dispatcher_ok :: "dispatcher \<Rightarrow> bool" where
  "dispatcher_ok D \<longleftrightarrow> length (sp_tasks D) \<le> MAX_CONCURRENT_HANDLERS \<and>
     (\<forall>mac. running_for mac D = (if sp_inflight D mac = None then 0 else 1)) \<and>
     (\<forall>mac. subseq (packets_of mac (sp_started D) @ waiting_for mac D) (packets_of mac (sp_arrived D)))"

lemma length_filter_update:
  "i < length xs \<Longrightarrow>
   length (filter P (xs[i := y])) + (if P (xs ! i) then 1 else 0) = length (filter P xs) + (if P y then 1 else 0)"
proof (induction xs arbitrary: i)
  case (Cons x xs)
  show ?case
  proof (cases i)
    case (Suc j)
    with Cons.prems have "j < length xs" by simp
    from Cons.IH [OF this] show ?thesis by (simp add: Suc)
  qed simp
qed simp

lemma length_filter_removed:
  "i < length xs \<Longrightarrow> length (filter P (take i xs @ drop (Suc i) xs)) + (if P (xs ! i) then 1 else 0) = length (filter P xs)"
  by (subst (4) id_take_nth_drop [of i]) auto

lemma packets_of_snoc [simp]:
  "packets_of mac (log @ [(m, p)]) = packets_of mac log @ (if m = mac then [p] else [])"
  by (simp add: packets_of_def)

lemma subseq_snoc: "subseq xs ys \<Longrightarrow> subseq xs (ys @ [y])"
  by (metis append_Nil2 list_emb_Nil list_emb_append_mono)

lemma subseq_cut: "subseq (xs @ ws) ys \<Longrightarrow> subseq xs ys"
  by (meson subseq_order.dual_order.trans subseq_rev_drop_many subseq_order.order_refl)

lemma subseq_replace_last: "subseq (xs @ ws) ys \<Longrightarrow> subseq (xs @ [y]) (ys @ [y])"
  by (simp add: subseq_cut)

lemma dispatcher_okI:
  assumes "length (sp_tasks D) \<le> MAX_CONCURRENT_HANDLERS"
    and "\<And>mac. running_for mac D = (if sp_inflight D mac = None then 0 else 1)"
    and "\<And>mac. subseq (packets_of mac (sp_started D) @ waiting_for mac D) (packets_of mac (sp_arrived D))"
  shows "dispatcher_ok D"
  using assms by (simp add: dispatcher_ok_def)

lemma dispatcher_okD:
  assumes "dispatcher_ok D"
  shows "length (sp_tasks D) \<le> MAX_CONCURRENT_HANDLERS"
    and "running_for mac D = (if sp_inflight D mac = None then 0 else 1)"
    and "subseq (packets_of mac (sp_started D) @ waiting_for mac D) (packets_of mac (sp_arrived D))"
  using assms by (simp_all add: dispatcher_ok_def)

lemma dispatch_cases:
  obtains (kept) "dispatch mac p D = D\<lparr>sp_arrived := sp_arrived D @ [(mac, p)]\<rparr>"
  | (queued) slot where "sp_inflight D mac = Some slot"
      "dispatch mac p D = D\<lparr>sp_arrived := sp_arrived D @ [(mac, p)], sp_inflight := (sp_inflight D)(mac \<mapsto> Some p)\<rparr>"
  | (started) "sp_inflight D mac = None" "length (sp_tasks D) < MAX_CONCURRENT_HANDLERS"
      "dispatch mac p D = D\<lparr>sp_arrived := sp_arrived D @ [(mac, p)], sp_inflight := (sp_inflight D)(mac \<mapsto> None),
         sp_tasks := sp_tasks D @ [Handling mac p], sp_started := sp_started D @ [(mac, p)]\<rparr>"
proof (cases "sp_inflight D mac")
  case None
  with kept started show ?thesis by (cases "length (sp_tasks D) < MAX_CONCURRENT_HANDLERS") (simp_all add: dispatch_def Let_def)
next
  case (Some slot)
  show ?thesis
  proof (cases slot)
    case None
    with Some queued show ?thesis by (simp add: dispatch_def Let_def)
  next
    case (Some q)
    with \<open>sp_inflight D mac = Some slot\<close> kept queued show ?thesis
      by (cases "fst q = Release") (simp_all add: dispatch_def Let_def)
  qed
qed

lemma dispatch_ok: assumes "dispatcher_ok D" shows "dispatcher_ok (dispatch mac p D)"
proof -
  note len = dispatcher_okD(1) [OF assms] note run = dispatcher_okD(2) [OF assms, unfolded running_for_def]
  note ord = dispatcher_okD(3) [OF assms]
  show ?thesis
  proof (cases rule: dispatch_cases [of mac p D])
    case kept
    show ?thesis unfolding kept
    proof (rule dispatcher_okI, goal_cases)
      case (3 m)
      show ?case using ord [of m] subseq_snoc [OF ord [of m], of p] by (simp add: waiting_for_def)
    qed (simp_all add: len run running_for_def)
  next
    case (queued slot)
    show ?thesis unfolding queued(2)
    proof (rule dispatcher_okI, goal_cases)
      case (3 m)
      show ?case using ord [of m] subseq_replace_last [OF ord [of m], of p] by (simp add: waiting_for_def)
    qed (simp_all add: len run running_for_def queued(1))
  next
    case started
    show ?thesis unfolding started(3)
    proof (rule dispatcher_okI, goal_cases)
      case (3 m)
      show ?case using ord [of m] subseq_replace_last [OF ord [of m], of p] by (simp add: waiting_for_def)
    qed (simp_all add: run running_for_def started(1) Suc_le_eq started(2))
  qed
qed

lemma running_updated:
  assumes "i < length (sp_tasks D)" "sp_tasks D ! i = Handling mac p"
  shows "length (filter (handles m) ((sp_tasks D)[i := t])) + (if mac = m then 1 else 0) =
    running_for m D + (if handles m t then 1 else 0)"
  using length_filter_update [OF assms(1), of "handles m" t] by (simp add: assms(2) running_for_def)

lemma handler_done_ok:
  assumes "dispatcher_ok D" "i < length (sp_tasks D)" "sp_tasks D ! i = Handling mac p"
  shows "dispatcher_ok (handler_done i D)"
proof (rule dispatcher_okI)
  note ok = dispatcher_okD [OF assms(1)]
  show "length (sp_tasks (handler_done i D)) \<le> MAX_CONCURRENT_HANDLERS"
    using ok(1) by (auto simp: handler_done_def assms(3) split: option.splits)
  show "running_for m (handler_done i D) = (if sp_inflight (handler_done i D) m = None then 0 else 1)" for m
    using ok(2) [of m] running_updated [OF assms(2,3), of m Leaving] running_updated [OF assms(2,3), of m "Handling mac _"]
    by (cases "m = mac") (auto simp: handler_done_def assms(3) running_for_def split: option.splits if_splits)
  show "subseq (packets_of m (sp_started (handler_done i D)) @ waiting_for m (handler_done i D))
          (packets_of m (sp_arrived (handler_done i D)))" for m
    using ok(3) [of m] by (auto simp: handler_done_def assms(3) waiting_for_def split: option.splits)
qed

lemma handler_panicked_ok:
  assumes "dispatcher_ok D" "i < length (sp_tasks D)" "sp_tasks D ! i = Handling mac p"
  shows "dispatcher_ok (handler_panicked i D)"
proof (rule dispatcher_okI)
  note ok = dispatcher_okD [OF assms(1)]
  show "length (sp_tasks (handler_panicked i D)) \<le> MAX_CONCURRENT_HANDLERS"
    using ok(1) by (simp add: handler_panicked_def assms(3))
  show "running_for m (handler_panicked i D) = (if sp_inflight (handler_panicked i D) m = None then 0 else 1)" for m
    using ok(2) [of m] running_updated [OF assms(2,3), of m Leaving]
    by (cases "m = mac") (auto simp: handler_panicked_def assms(3) running_for_def split: if_splits)
  show "subseq (packets_of m (sp_started (handler_panicked i D)) @ waiting_for m (handler_panicked i D))
          (packets_of m (sp_arrived (handler_panicked i D)))" for m
    using ok(3) [of m] subseq_cut [OF ok(3), of m]
    by (auto simp: handler_panicked_def assms(3) waiting_for_def split: option.splits)
qed

lemma permit_returned_ok:
  assumes "dispatcher_ok D" "i < length (sp_tasks D)" "sp_tasks D ! i = Leaving"
  shows "dispatcher_ok (permit_returned i D)"
proof (rule dispatcher_okI)
  note ok = dispatcher_okD [OF assms(1)]
  show "length (sp_tasks (permit_returned i D)) \<le> MAX_CONCURRENT_HANDLERS"
    using ok(1) assms(2) by (simp add: permit_returned_def)
  show "running_for m (permit_returned i D) = (if sp_inflight (permit_returned i D) m = None then 0 else 1)" for m
    using ok(2) [of m] length_filter_removed [OF assms(2), of "handles m"]
    by (simp add: permit_returned_def running_for_def assms(3))
  show "subseq (packets_of m (sp_started (permit_returned i D)) @ waiting_for m (permit_returned i D))
          (packets_of m (sp_arrived (permit_returned i D)))" for m
    using ok(3) [of m] by (simp add: permit_returned_def waiting_for_def)
qed

lemma dispatcher_step_ok: "dispatcher_step D D' \<Longrightarrow> dispatcher_ok D \<Longrightarrow> dispatcher_ok D'"
  by (induction rule: dispatcher_step.induct) (auto intro: dispatch_ok handler_done_ok handler_panicked_ok permit_returned_ok)

lemma reachable_ok: "dispatcher_step\<^sup>*\<^sup>* dispatcher_new D \<Longrightarrow> dispatcher_ok D"
proof (induction rule: rtranclp_induct)
  case base
  show ?case by (simp add: dispatcher_ok_def dispatcher_new_def running_for_def waiting_for_def packets_of_def)
qed (rule dispatcher_step_ok)

text \<open>
  C9: However packets arrive and handlers return or panic: never more than 64 handlers hold a permit,
  never two handle the same client, a packet waits only behind a running handler of its client, and
  draining succeeds only when no packet waits.
\<close>

theorem one_handler_per_client:
  assumes "dispatcher_step\<^sup>*\<^sup>* dispatcher_new D"
  shows "length (sp_tasks D) \<le> 64 \<and> running_for mac D \<le> 1 \<and>
         (sp_inflight D mac \<noteq> None \<longleftrightarrow> running_for mac D = 1) \<and> (drained D \<longrightarrow> sp_inflight D mac = None)"
proof -
  note ok = dispatcher_okD [OF reachable_ok [OF assms]]
  have "length (sp_tasks D) = 0" if "drained D" using that unfolding drained_def MAX_CONCURRENT_HANDLERS_def by arith
  then show ?thesis using ok(1) ok(2) [of mac] by (auto simp: MAX_CONCURRENT_HANDLERS_def running_for_def split: if_splits)
qed

text \<open>
  C29: The packets of one client that handlers take up, with the one waiting, are a subsequence of the
  packets of that client in the order they arrived: none is handled twice, and none overtakes another.
\<close>

theorem client_packets_in_order:
  assumes "dispatcher_step\<^sup>*\<^sup>* dispatcher_new D"
  shows "subseq (packets_of mac (sp_started D) @ waiting_for mac D) (packets_of mac (sp_arrived D))"
  by (rule dispatcher_okD(3) [OF reachable_ok [OF assms]])

text \<open>
  A waiting \<open>DHCPRELEASE\<close> stays until its client's handler takes it up; only a panic of that
  handler loses it.
\<close>

theorem waiting_release_is_handled:
  assumes "dispatcher_step D D'" and "sp_inflight D mac = Some (Some (Release, q))"
  shows "sp_inflight D' mac = Some (Some (Release, q)) \<or> sp_started D' = sp_started D @ [(mac, Release, q)] \<or>
         (\<exists>i p. i < length (sp_tasks D) \<and> sp_tasks D ! i = Handling mac p \<and> D' = handler_panicked i D)"
  using assms
proof (induction rule: dispatcher_step.induct)
  case (arrives D m p)
  then show ?case by (cases "m = mac") (auto simp: dispatch_def Let_def split: option.splits)
next
  case (returns i D m p)
  then show ?case by (cases "m = mac") (auto simp: handler_done_def split: option.splits)
next
  case (panics i D m p)
  show ?case
  proof (cases "m = mac")
    case True
    with panics.hyps show ?thesis by blast
  next
    case False
    with panics show ?thesis by (simp add: handler_panicked_def)
  qed
next
  case (leaves i D)
  then show ?case by (simp add: permit_returned_def)
qed

section \<open>What the server answers\<close>

lemma replies_built:
  "mg_hlen m \<le> 16 \<Longrightarrow> build_nak m scope \<noteq> None" "mg_hlen m \<le> 16 \<Longrightarrow> build_response m t l scope \<noteq> None"
  by (simp_all add: build_nak_def build_response_def chaddr_def)

lemma attempt_Inr: "attempt r S k = (Inr x, S') \<longleftrightarrow> (\<exists>y. r = Inr y \<and> k y = (Inr x, S'))"
  by (cases r) (auto simp: attempt_def)

lemma handle_packet_no_panic: "mg_hlen m \<le> 16 \<Longrightarrow> fst (handle_packet nil E now rid t m mac src S) \<noteq> Panicked"
proof -
  assume hlen: "mg_hlen m \<le> 16"
  have "fst (handle_discover nil E now rid m mac S) \<noteq> Inr None" "fst (handle_request nil E now rid m mac S) \<noteq> Inr None"
    using replies_built [OF hlen]
    by (auto simp: handle_discover_def handle_request_def attempt_def split: prod.splits sum.splits if_splits)
  then show ?thesis by (cases t) (auto simp: replied_def split: prod.splits sum.splits option.splits)
qed

text \<open>
  C10: No datagram crashes the server: whatever the decoder makes of it, the receive loop does not
  panic on it, and neither does the handler of a message the loop passes on.
\<close>

theorem no_datagram_crashes_the_server:
  "case server_receive decode own_macs packet src of
     Ignored \<Rightarrow> True
   | LoopPanics \<Rightarrow> False
   | ToDispatch t m mac from_addr \<Rightarrow>
       mac \<notin> own_macs \<and> from_addr = src \<and> fst (handle_packet nil E now rid t m mac from_addr S) \<noteq> Panicked"
  by (auto simp: server_receive_def chaddr_def Let_def handle_packet_no_panic split: option.splits)

section \<open>Requests and releases\<close>

lemma tables_kept:
  "dh_config (expire_lease E now l S) = dh_config S" "dh_devices (expire_lease E now l S) = dh_devices S"
  "dh_zones (expire_lease E now l S) = dh_zones S"
  by (simp_all add: expire_lease_def insert_lease_log_def update_lease_status_def update_lease_def)

lemma validity_keeps_tables:
  assumes "lease_if_still_valid E now mac a b S = (r, S')"
  shows "dh_config S' = dh_config S \<and> dh_devices S' = dh_devices S \<and> dh_zones S' = dh_zones S"
  using assms by (auto simp: lease_if_still_valid_def tables_kept split: option.splits if_splits)

lemma new_lease_keeps_tables:
  assumes "new_lease E now rid scope mac h S = (r, S')"
  shows "dh_config S' = dh_config S \<and> dh_devices S' = dh_devices S \<and> dh_zones S' = dh_zones S"
  using assms
  by (auto simp: new_lease_def attempt_def internal_def insert_lease_def publish_event_def insert_lease_log_def Let_def
      split: sum.splits if_splits)

lemma extend_lease_keeps_tables:
  assumes "extend_lease E now scope mac h l S = (r, S')"
  shows "dh_config S' = dh_config S \<and> dh_devices S' = dh_devices S \<and> dh_zones S' = dh_zones S"
  using assms
  by (auto simp: extend_lease_def publish_event_def insert_lease_log_def update_lease_hostname_def renew_lease_row_def
      update_lease_def Let_def)

lemma reuse_lease_keeps_tables:
  assumes "reuse_lease E now mac h l S = (r, S')"
  shows "dh_config S' = dh_config S \<and> dh_devices S' = dh_devices S \<and> dh_zones S' = dh_zones S"
  using assms
  by (auto simp: reuse_lease_def publish_event_def insert_lease_log_def update_lease_hostname_def update_lease_def split: if_splits)

lemma assign_lease_keeps_tables:
  assumes "assign_lease ctx E now rid mac h S = (r, S')"
  shows "dh_config S' = dh_config S \<and> dh_devices S' = dh_devices S \<and> dh_zones S' = dh_zones S"
  using assms
  by (auto simp: assign_lease_def attempt_def split: sum.splits prod.splits option.splits
      dest!: validity_keeps_tables new_lease_keeps_tables reuse_lease_keeps_tables)

lemma renew_lease_keeps_tables:
  assumes "renew_lease ctx E now rid mac h S = (r, S')"
  shows "dh_config S' = dh_config S \<and> dh_devices S' = dh_devices S \<and> dh_zones S' = dh_zones S"
  using assms
  by (auto simp: renew_lease_def attempt_def split: sum.splits prod.splits option.splits
      dest!: validity_keeps_tables assign_lease_keeps_tables extend_lease_keeps_tables)

lemma response_options_lookup [simp]:
  "response_options t scope 53 = Some (OptMessageType t)"
  "response_options t scope 51 = Some (OptAddressLeaseTime (ds_lease_duration_secs scope))"
  "response_options t scope 54 = Some (OptServerIdentifier (ds_gateway_ip scope))"
  by (simp_all add: response_options_def opt_insert_def Let_def)

lemma response_fields:
  assumes "build_response m t l scope = Some reply"
  shows "msg_type reply = Some t \<and> mg_yiaddr reply = dl_ip l \<and> mg_xid reply = mg_xid m \<and>
         mg_opts reply 51 = Some (OptAddressLeaseTime (ds_lease_duration_secs scope)) \<and>
         mg_opts reply 54 = Some (OptServerIdentifier (ds_gateway_ip scope))"
  using assms by (cases "chaddr m") (auto simp: build_response_def msg_type_def set_chaddr_def default_message_def)

lemma nak_fields:
  assumes "build_nak m scope = Some reply"
  shows "msg_type reply = Some Nak \<and> mg_yiaddr reply = 0 \<and> mg_xid reply = mg_xid m"
  using assms by (auto simp: build_nak_def msg_type_def opt_insert_def set_chaddr_def default_message_def split: option.splits)

lemma handle_request_cases:
  assumes "handle_packet nil E now rid Request m mac src S = (Reply reply dest, S')"
  obtains l scope where "renew_lease (system_ctx nil) E now rid mac (extract_hostname m) S = (Inr l, S')"
    "resolve_scope E S mac = Inr scope" "dest = reply_destination m reply src"
    "if extract_requested_ip m \<noteq> 0 \<and> dl_ip l \<noteq> extract_requested_ip m then build_nak m scope = Some reply
     else build_response m Ack l scope = Some reply"
proof -
  obtain r S1 where rn: "renew_lease (system_ctx nil) E now rid mac (extract_hostname m) S = (r, S1)" by fastforce
  note keep = renew_lease_keeps_tables [OF rn]
  then have sc: "resolve_scope E S1 mac = resolve_scope E S mac" by (intro resolve_scope_cong) auto
  from assms that show ?thesis
    by (auto simp: handle_request_def rn attempt_def scope_for_mac_def sc require_admin_def replied_def
        split: sum.splits option.splits if_splits prod.splits)
qed


text \<open>
  C11: A \<open>DHCPRELEASE\<close> changes something only when it comes from the very address its client has an
  active lease on, and then it ends that lease and no other.
\<close>

theorem only_the_holder_releases:
  assumes "handle_packet nil E now rid Release m mac src S = (r, S')" and "S' \<noteq> S"
  shows "\<exists>l. find_active_lease_by_mac E mac S = Some l \<and> fst src = V4 (dl_ip l) \<and>
             list_active_leases S' = filter (\<lambda>x. dl_id x \<noteq> dl_id l) (list_active_leases S)"
proof -
  have "list_active_leases (insert_lease_log E i a ev T) = list_active_leases T" for i a ev T
    by (simp add: list_active_leases_def insert_lease_log_def)
  with assms show ?thesis
    by (auto simp: handle_release_def active_lease_def release_lease_def attempt_def require_admin_def Let_def active_drop
        split: option.splits ip_addr.splits if_splits)
qed

section \<open>Clients are told apart\<close>

lemma hex_digit_inj: "m < 16 \<Longrightarrow> n < 16 \<Longrightarrow> hex_digit m = hex_digit n \<Longrightarrow> m = n"
proof -
  assume "m < 16" "n < 16" "hex_digit m = hex_digit n"
  then have "code (hex_digit m) = code (hex_digit n)" by simp
  moreover have "code (hex_digit k) = (if k < 10 then 48 + k else 87 + k)" if "k < 16" for k
    using that by (simp add: hex_digit_def)
  ultimately show "m = n" using \<open>m < 16\<close> \<open>n < 16\<close> by (auto split: if_splits)
qed

lemma hex_byte_inj: "a < 256 \<Longrightarrow> b < 256 \<Longrightarrow> hex_byte a = hex_byte b \<Longrightarrow> a = b"
proof -
  assume "a < 256" "b < 256" and eq: "hex_byte a = hex_byte b"
  then have "a div 16 = b div 16" "a mod 16 = b mod 16"
    using hex_digit_inj [of "a div 16" "b div 16"] hex_digit_inj [of "a mod 16" "b mod 16"] by (auto simp: hex_byte_def)
  then show "a = b" by (metis div_mult_mod_eq)
qed

lemma join_with_inj:
  "length xs = length ys \<Longrightarrow> \<forall>x \<in> set xs \<union> set ys. length x = 2 \<Longrightarrow> join_with '':'' xs = join_with '':'' ys \<Longrightarrow> xs = ys"
proof (induction xs ys rule: list_induct2)
  case (Cons x xs y ys)
  then show ?case by (cases xs; cases ys) auto
qed simp

text \<open>
  Two Ethernet clients are told apart: different hardware addresses are written as different
  strings, the key of the dispatcher's slots and of the lease table.
\<close>

theorem clients_told_apart:
  assumes "length a = 6" and "length b = 6" and "\<forall>x \<in> set a \<union> set b. x < 256" and "format_mac a = format_mac b"
  shows "a = b"
proof -
  have "length s = 2" if "s \<in> set (map hex_byte a) \<union> set (map hex_byte b)" for s using that by (auto simp: hex_byte_def)
  with assms join_with_inj [of "map hex_byte a" "map hex_byte b"] have "map hex_byte a = map hex_byte b"
    by (auto simp: format_mac_def)
  with assms(3) show ?thesis by (auto intro!: map_inj_on [of hex_byte] inj_onI hex_byte_inj)
qed

theorem clients_told_apart_witness: "format_mac [2, 66, 172, 17, 0, 2] = ''02:42:ac:11:00:02'' \<and>
    (format_mac [2, 66, 172, 17, 0, 2] \<noteq> format_mac [2, 66, 172, 17, 0, 3])"
proof
  show "format_mac [2, 66, 172, 17, 0, 2] = ''02:42:ac:11:00:02''" by code_simp
  show "format_mac [2, 66, 172, 17, 0, 2] \<noteq> format_mac [2, 66, 172, 17, 0, 3]"
    using clients_told_apart [of "[2, 66, 172, 17, 0, 2]" "[2, 66, 172, 17, 0, 3]"] by auto
qed

section \<open>A running server\<close>

definition laptop_asks :: pending_packet where
  "laptop_asks = (Discover, default_message, (V4 0, 68))"

definition laptop_leaves :: pending_packet where
  "laptop_leaves = (Release, default_message, (V4 (ipv4_new 10 0 0 5), 68))"

definition busy_server :: dispatcher where
  "busy_server = dispatch ''aa'' laptop_leaves (dispatch ''aa'' laptop_asks dispatcher_new)"

lemma busy_server_eq:
  "busy_server = \<lparr>sp_inflight = [''aa'' \<mapsto> Some laptop_leaves], sp_tasks = [Handling ''aa'' laptop_asks],
     sp_arrived = [(''aa'', laptop_asks), (''aa'', laptop_leaves)], sp_started = [(''aa'', laptop_asks)]\<rparr>"
  by (simp add: busy_server_def dispatch_def dispatcher_new_def MAX_CONCURRENT_HANDLERS_def Let_def)

lemma busy_server_reached: "dispatcher_step\<^sup>*\<^sup>* dispatcher_new busy_server"
proof -
  have "dispatcher_step\<^sup>*\<^sup>* dispatcher_new (dispatch ''aa'' laptop_asks dispatcher_new)"
    by (rule r_into_rtranclp) (rule dispatcher_step.arrives)
  then show ?thesis unfolding busy_server_def by (rule rtranclp.rtrancl_into_rtrancl) (rule dispatcher_step.arrives)
qed

theorem one_handler_per_client_witness:
  "sp_inflight busy_server ''aa'' = Some (Some laptop_leaves) \<and> running_for ''aa'' busy_server = 1"
  using one_handler_per_client [OF busy_server_reached, of "''aa''"] by (simp add: busy_server_eq)

theorem client_packets_in_order_witness:
  "packets_of ''aa'' (sp_arrived busy_server) = [laptop_asks, laptop_leaves] \<and>
   subseq (packets_of ''aa'' (sp_started busy_server) @ waiting_for ''aa'' busy_server) [laptop_asks, laptop_leaves]"
  using client_packets_in_order [OF busy_server_reached, of "''aa''"] by (simp add: busy_server_eq packets_of_def)

theorem waiting_release_is_handled_witness:
  "sp_inflight busy_server ''aa'' = Some (Some laptop_leaves) \<and>
   sp_started (handler_done 0 busy_server) = sp_started busy_server @ [(''aa'', laptop_leaves)]"
proof -
  have "dispatcher_step busy_server (handler_done 0 busy_server)"
    by (rule dispatcher_step.returns) (simp_all add: busy_server_eq)
  from waiting_release_is_handled [OF this, of "''aa''" "snd laptop_leaves"] show ?thesis
    by (auto simp: busy_server_eq laptop_leaves_def handler_done_def handler_panicked_def)
qed

definition laptop_request :: dhcp_message where
  "laptop_request = default_message\<lparr>mg_hlen := 6, mg_opts := [53 \<mapsto> OptMessageType Request]\<rparr>"

lemma lan_handles: "\<exists>reply. handle_packet 0 lan 0 1 Request laptop_request ''aa'' (V4 0, 68) lan_start =
  (Reply reply (BROADCAST_CLIENTS), lan_start\<lparr>dh_leases := [lan_lease],
     dh_log := [\<lparr>lg_lease = 1, lg_mac = ''aa'', lg_event = EvAssigned\<rparr>],
     dh_events := [DhcpLeaseAssigned 1 ''aa'' (ipv4_new 10 0 0 5) None]\<rparr>)"
proof -
  have h: "extract_hostname laptop_request = None" "extract_requested_ip laptop_request = 0" "mg_giaddr laptop_request = 0"
    by (simp_all add: extract_hostname_def extract_requested_ip_def laptop_request_def default_message_def)
  have "resolve_scope lan (lan_start\<lparr>dh_leases := [lan_lease], dh_log := lg, dh_events := ev\<rparr>) ''aa'' = Inr lan_scope" for lg ev
    by (rule lan_resolve) (simp_all add: lan_start_def)
  moreover obtain reply where "build_response laptop_request Ack lan_lease lan_scope = Some reply"
    using replies_built(2) [of laptop_request Ack lan_lease lan_scope] by (auto simp: laptop_request_def)
  ultimately show ?thesis
    by (simp add: handle_request_def h lan_renew attempt_def scope_for_mac_def require_admin_def replied_def
        reply_destination_def del: One_nat_def)
qed


theorem only_the_holder_releases_witness:
  "\<exists>S'. handle_packet 0 lan 0 1 Release default_message ''aa'' (V4 (ipv4_new 10 0 0 5), 68)
          (lan_start\<lparr>dh_leases := [lan_lease]\<rparr>) = (NoReply, S') \<and> list_active_leases S' = []"
proof -
  let ?S = "lan_start\<lparr>dh_leases := [lan_lease]\<rparr>"
  let ?S' = "handle_release 0 lan 0 ''aa'' (V4 (ipv4_new 10 0 0 5), 68) ?S"
  have run: "handle_packet 0 lan 0 1 Release default_message ''aa'' (V4 (ipv4_new 10 0 0 5), 68) ?S = (NoReply, ?S')" by simp
  have l: "find_active_lease_by_mac lan ''aa'' ?S = Some lan_lease"
    by (simp add: find_active_lease_by_mac_def lan_lease_def)
  then have "dh_log ?S' \<noteq> dh_log ?S"
    by (simp add: handle_release_def active_lease_def require_admin_def lan_lease_def release_lease_def attempt_def
        insert_lease_log_def update_lease_status_def update_lease_def lan_start_def ipv4_new_def Let_def)
  then have "?S' \<noteq> ?S" by auto
  from only_the_holder_releases [OF run this] l show ?thesis
    by (auto simp: list_active_leases_def)
qed

end
