(* ===== verification/Spec2Isabelle.thy ===== *)
theory Spec2Isabelle
  imports Net Filter_Admin Dns_Local Pipeline Dhcp_Server
begin

text \<open>
  Wardnet: the DNS filter and its storage.
\<close>

end
